(* ===== verification/Prelude.thy ===== *)
theory Prelude
  imports Main "HOL-Library.Word"
begin

text \<open>
  The prelude of the development: the result type and the sequencing operators in
  which the kernel routines are written, the loop forms they use, the machine
  integer types of \<^verbatim>\<open>types.h\<close>, little-endian loads and stores on byte
  arrays, and the generic lemmas that the components share.

  A kernel routine is a function of the kernel state and of an \<^emph>\<open>environment\<close>:
  the list of what the rest of the machine (the other CPUs, the other processes, the
  devices) does to the state each time the routine waits. A wait is a turn of a spin
  loop or a switch to the scheduler. The routine either returns a value, the rest of
  the environment and the new state, or panics with the message the code gives, or is
  blocked: it waits and the environment does nothing more.
\<close>

unbundle bit_operations_syntax

section \<open>Machine integers (types.h)\<close>

type_synonym uchar = "8 word"
type_synonym ushort = "16 word"
type_synonym uint = "32 word"
type_synonym cint = "32 word" \<comment> \<open>a C int, read with \<open>sint\<close>\<close>
type_synonym cshort = "16 word" \<comment> \<open>a C short, read with \<open>sint\<close>\<close>

section \<open>Results and sequencing\<close>

datatype ('s, 'a) outcome =
    Ret 'a "('s \<Rightarrow> 's) list" 's
  | Panic string
  | Blocked

type_synonym ('s, 'a) km = "('s \<Rightarrow> 's) list \<Rightarrow> 's \<Rightarrow> ('s, 'a) outcome"

named_theorems km_defs \<open>definitions of the sequencing operators\<close>
named_theorems exec \<open>what a routine does from a state that meets its precondition\<close>
named_theorems wf_intros \<open>preservation of well-formedness\<close>

definition kret :: "'a \<Rightarrow> ('s, 'a) km" where
  [km_defs]: "kret x = (\<lambda>env s. Ret x env s)"

definition kbind :: "('s, 'a) km \<Rightarrow> ('a \<Rightarrow> ('s, 'b) km) \<Rightarrow> ('s, 'b) km" where
  [km_defs]: "kbind m f = (\<lambda>env s. case m env s of
      Ret x env' s' \<Rightarrow> f x env' s'
    | Panic msg \<Rightarrow> Panic msg
    | Blocked \<Rightarrow> Blocked)"

definition kthen :: "('s, 'a) km \<Rightarrow> ('s, 'b) km \<Rightarrow> ('s, 'b) km" where
  [km_defs]: "kthen m n = kbind m (\<lambda>_. n)"

definition kget :: "('s \<Rightarrow> 'a) \<Rightarrow> ('s, 'a) km" where
  [km_defs]: "kget f = (\<lambda>env s. Ret (f s) env s)"

definition kmod :: "('s \<Rightarrow> 's) \<Rightarrow> ('s, unit) km" where
  [km_defs]: "kmod f = (\<lambda>env s. Ret () env (f s))"

definition kpanic :: "string \<Rightarrow> ('s, 'a) km" where
  [km_defs]: "kpanic msg = (\<lambda>env s. Panic msg)"

definition kassert :: "bool \<Rightarrow> string \<Rightarrow> ('s, unit) km" where
  [km_defs]: "kassert b msg = (if b then kret () else kpanic msg)"

definition kwhen :: "bool \<Rightarrow> ('s, unit) km \<Rightarrow> ('s, unit) km" where
  [km_defs]: "kwhen b m = (if b then m else kret ())"

text \<open>One wait: the next thing the environment does.\<close>

definition kwait :: "('s, unit) km" where
  [km_defs]: "kwait = (\<lambda>env s. case env of [] \<Rightarrow> Blocked | e # es \<Rightarrow> Ret () es (e s))"

text \<open>A \<^verbatim>\<open>for\<close> loop over a fixed sequence of indices.\<close>

fun kfor :: "'i list \<Rightarrow> ('i \<Rightarrow> ('s, unit) km) \<Rightarrow> ('s, unit) km" where
  "kfor [] body = kret ()"
| "kfor (i # is) body = kthen (body i) (kfor is body)"

text \<open>
  A loop that waits in every turn. Each turn takes at least one step from the
  environment, so as many turns as there are steps, and one more for the last test, are
  enough; \<open>kwhile_unfold\<close> below shows that the bound is never what stops the loop.
\<close>

fun kwhile_fuel :: "nat \<Rightarrow> ('s \<Rightarrow> bool) \<Rightarrow> ('s, unit) km \<Rightarrow> ('s, unit) km" where
  "kwhile_fuel 0 c body env s = Blocked"
| "kwhile_fuel (Suc n) c body env s =
     (if c s then kbind body (\<lambda>_. kwhile_fuel n c body) env s else Ret () env s)"

definition kwhile :: "('s \<Rightarrow> bool) \<Rightarrow> ('s, unit) km \<Rightarrow> ('s, unit) km" where
  "kwhile c body env s = kwhile_fuel (Suc (length env)) c body env s"

subsection \<open>Laws of sequencing\<close>

lemma kbind_kret [simp]: "kbind (kret x) f = f x"
  by (simp add: km_defs)

lemma kthen_kret [simp]: "kthen (kret x) m = m"
  by (simp add: km_defs)

lemma kbind_assoc: "kbind (kbind m f) g = kbind m (\<lambda>x. kbind (f x) g)"
  by (rule ext)+ (simp add: kbind_def split: outcome.splits)

lemma kbind_apply [exec]:
  "kbind m f env s = (case m env s of
      Ret x env' s' \<Rightarrow> f x env' s' | Panic msg \<Rightarrow> Panic msg | Blocked \<Rightarrow> Blocked)"
  by (simp add: kbind_def)

lemma kthen_apply [exec]:
  "kthen m n env s = (case m env s of
      Ret x env' s' \<Rightarrow> n env' s' | Panic msg \<Rightarrow> Panic msg | Blocked \<Rightarrow> Blocked)"
  by (simp add: kthen_def kbind_def)

lemma kbind_RetI: "m env s = Ret x env' s' \<Longrightarrow> kbind m f env s = f x env' s'"
  by (simp add: kbind_def)

lemma kthen_RetI: "m env s = Ret x env' s' \<Longrightarrow> kthen m n env s = n env' s'"
  by (simp add: kthen_def kbind_def)

lemma kbind_PanicI: "m env s = Panic msg \<Longrightarrow> kbind m f env s = Panic msg"
  by (simp add: kbind_def)

lemma kthen_PanicI: "m env s = Panic msg \<Longrightarrow> kthen m n env s = Panic msg"
  by (simp add: kthen_def kbind_def)

lemma kbind_eq_Ret:
  "kbind m f env s = Ret y env'' s'' \<longleftrightarrow>
     (\<exists>x env' s'. m env s = Ret x env' s' \<and> f x env' s' = Ret y env'' s'')"
  by (auto simp: kbind_def split: outcome.splits)

lemma kthen_eq_Ret:
  "kthen m n env s = Ret y env'' s'' \<longleftrightarrow>
     (\<exists>x env' s'. m env s = Ret x env' s' \<and> n env' s' = Ret y env'' s'')"
  by (simp add: kthen_def kbind_eq_Ret)

lemma kret_apply [simp]: "kret x env s = Ret x env s"
  and kget_apply [simp]: "kget g env s = Ret (g s) env s"
  and kmod_apply [simp]: "kmod h env s = Ret () env (h s)"
  and kpanic_apply [simp]: "kpanic msg env s = Panic msg"
  and kwait_Nil [simp]: "kwait [] s = Blocked"
  and kwait_Cons [simp]: "kwait (e # es) s = Ret () es (e s)"
  by (simp_all add: km_defs)

lemma kassert_apply [simp]:
  "kassert b msg env s = (if b then Ret () env s else Panic msg)"
  by (simp add: kassert_def)

lemma kwhen_apply [simp]: "kwhen b m env s = (if b then m env s else Ret () env s)"
  by (simp add: kwhen_def)

lemma kbind_kget [simp]: "kbind (kget g) f env s = f (g s) env s"
  and kthen_kmod [simp]: "kthen (kmod h) m env s = m env (h s)"
  and kbind_kmod [simp]: "kbind (kmod h) f' env s = f' () env (h s)"
  and kbind_kpanic [simp]: "kbind (kpanic msg) f env s = Panic msg"
  and kthen_kpanic [simp]: "kthen (kpanic msg) m env s = Panic msg"
  by (simp_all add: km_defs)

lemma kthen_kassert [simp]:
  "kthen (kassert b msg) m env s = (if b then m env s else Panic msg)"
  by (simp add: kthen_def kbind_def)

lemma kthen_kwhen [simp]:
  "kthen (kwhen b m) n env s = (if b then kthen m n env s else n env s)"
  by (simp add: kthen_def kbind_def)

lemma kthen_kthen [simp]: "kthen (kthen m n) k = kthen m (kthen n k)"
  by (simp add: kthen_def kbind_assoc)

lemma kbind_kthen [simp]: "kbind (kthen m n) f = kthen m (kbind n f)"
  by (simp add: kthen_def kbind_assoc)

subsection \<open>Loops that wait\<close>

text \<open>A routine only ever uses up steps of the environment, never adds to them.\<close>

definition env_shrinks :: "('s, 'a) km \<Rightarrow> bool" where
  "env_shrinks m \<longleftrightarrow>
     (\<forall>env s x env' s'. m env s = Ret x env' s' \<longrightarrow> length env' < length env)"

lemma kwhile_fuel_enough:
  assumes "env_shrinks body"
  shows "length env < n \<Longrightarrow> length env < k \<Longrightarrow>
    kwhile_fuel n c body env s = kwhile_fuel k c body env s"
proof (induction n arbitrary: env s k)
  case 0
  then show ?case by simp
next
  case (Suc n)
  then obtain k' where k: "k = Suc k'" by (cases k) auto
  have "kwhile_fuel n c body env' s' = kwhile_fuel k' c body env' s'"
    if "body env s = Ret x env' s'" for x env' s'
  proof (rule Suc.IH)
    from that assms have "length env' < length env"
      unfolding env_shrinks_def by blast
    with Suc.prems k show "length env' < n" "length env' < k'" by auto
  qed
  then show ?case
    by (simp add: k kbind_def split: outcome.splits)
qed

theorem kwhile_unfold:
  assumes "env_shrinks body"
  shows "kwhile c body env s =
    (if c s then kthen body (kwhile c body) env s else Ret () env s)"
proof -
  have "kwhile_fuel (length env) c body env' s' = kwhile c body env' s'"
    if "body env s = Ret x env' s'" for x env' s'
    unfolding kwhile_def
    using that assms by (intro kwhile_fuel_enough) (auto simp: env_shrinks_def)
  then show ?thesis
    unfolding kwhile_def [of c body env s]
    by (simp add: kthen_def kbind_def split: outcome.splits)
qed

lemma kwhile_stop [exec]: "\<not> c s \<Longrightarrow> kwhile c body env s = Ret () env s"
  by (simp add: kwhile_def)

lemma kwhile_fuel_inv:
  assumes step: "\<And>env s x env' s'. I s \<Longrightarrow> set env \<subseteq> R \<Longrightarrow> c s \<Longrightarrow>
      body env s = Ret x env' s' \<Longrightarrow> I s' \<and> set env' \<subseteq> R"
  shows "I s \<Longrightarrow> set env \<subseteq> R \<Longrightarrow> kwhile_fuel n c body env s = Ret y env'' s'' \<Longrightarrow>
    I s'' \<and> set env'' \<subseteq> R \<and> \<not> c s''"
proof (induction n arbitrary: env s)
  case 0
  then show ?case by simp
next
  case (Suc n)
  show ?case
  proof (cases "c s")
    case True
    with Suc.prems obtain x env' s' where
      b: "body env s = Ret x env' s'" and r: "kwhile_fuel n c body env' s' = Ret y env'' s''"
      by (auto simp: kbind_eq_Ret)
    from step [OF Suc.prems(1,2) True b] have "I s'" "set env' \<subseteq> R" by auto
    then show ?thesis using r by (rule Suc.IH)
  next
    case False
    with Suc.prems show ?thesis by simp
  qed
qed

text \<open>
  The loop rule: an invariant kept by every turn, under an environment whose steps are
  all in \<open>R\<close>, holds when the loop is left, and the loop condition does not.
\<close>

lemma kwhile_inv:
  assumes "\<And>env s x env' s'. I s \<Longrightarrow> set env \<subseteq> R \<Longrightarrow> c s \<Longrightarrow>
      body env s = Ret x env' s' \<Longrightarrow> I s' \<and> set env' \<subseteq> R"
    and "I s" and "set env \<subseteq> R" and "kwhile c body env s = Ret y env'' s''"
  shows "I s'' \<and> set env'' \<subseteq> R \<and> \<not> c s''"
  using kwhile_fuel_inv [of I R c body] assms unfolding kwhile_def by blast

subsection \<open>Runs that return without waiting\<close>

text \<open>
  \<open>runs m s Q\<close>: started in \<open>s\<close>, \<open>m\<close> returns without waiting for the rest of the machine,
  and its value and final state satisfy \<open>Q\<close>. There is a rule for every operator; the rules
  of the operations built from them are collected in \<open>runs_rules\<close>.
\<close>

named_theorems runs_rules \<open>introduction rules for runs that return without waiting\<close>

definition runs :: "('s, 'a) km \<Rightarrow> 's \<Rightarrow> ('a \<Rightarrow> 's \<Rightarrow> bool) \<Rightarrow> bool" where
  "runs m s Q \<longleftrightarrow> (\<exists>x s'. (\<forall>env. m env s = Ret x env s') \<and> Q x s')"

lemma runsI: "(\<And>env. m env s = Ret x env s') \<Longrightarrow> Q x s' \<Longrightarrow> runs m s Q"
  by (auto simp: runs_def)

lemma runsE:
  assumes "runs m s Q"
  obtains x s' where "\<And>env. m env s = Ret x env s'" and "Q x s'"
  using assms by (auto simp: runs_def)

lemma runs_conseq: "runs m s P \<Longrightarrow> (\<And>x t. P x t \<Longrightarrow> Q x t) \<Longrightarrow> runs m s Q"
  by (auto simp: runs_def)

lemma runs_kret [runs_rules]: "Q x s \<Longrightarrow> runs (kret x) s Q"
  by (auto simp: runs_def)

lemma runs_kget [runs_rules]: "Q (f s) s \<Longrightarrow> runs (kget f) s Q"
  by (auto simp: runs_def)

lemma runs_kmod [runs_rules]: "Q () (f s) \<Longrightarrow> runs (kmod f) s Q"
  by (auto simp: runs_def)

lemma runs_kassert [runs_rules]: "b \<Longrightarrow> Q () s \<Longrightarrow> runs (kassert b msg) s Q"
  by (auto simp: runs_def)

lemma runs_kbind [runs_rules]: "runs m s (\<lambda>x t. runs (f x) t Q) \<Longrightarrow> runs (kbind m f) s Q"
  by (fastforce simp: runs_def kbind_def)

lemma runs_kthen [runs_rules]: "runs m s (\<lambda>x t. runs n t Q) \<Longrightarrow> runs (kthen m n) s Q"
  unfolding kthen_def by (rule runs_kbind)

lemma runs_kwhen [runs_rules]:
  "(b \<Longrightarrow> runs m s Q) \<Longrightarrow> (\<not> b \<Longrightarrow> Q () s) \<Longrightarrow> runs (kwhen b m) s Q"
  by (cases b) (auto simp: kwhen_def intro: runs_kret)

lemma runs_if [runs_rules]:
  "(b \<Longrightarrow> runs m s Q) \<Longrightarrow> (\<not> b \<Longrightarrow> runs n s Q) \<Longrightarrow> runs (if b then m else n) s Q"
  by simp

lemma runs_kfor:
  assumes "I [] s"
    and "\<And>ys y zs t. xs = ys @ y # zs \<Longrightarrow> I ys t \<Longrightarrow> runs (f y) t (\<lambda>_ u. I (ys @ [y]) u)"
    and "\<And>t. I xs t \<Longrightarrow> Q () t"
  shows "runs (kfor xs f) s Q"
proof -
  have "runs (kfor zs f) t Q" if "xs = ys @ zs" "I ys t" for ys zs t
    using that
  proof (induction zs arbitrary: ys t)
    case Nil
    then show ?case unfolding kfor.simps by (intro runs_kret assms(3)) simp
  next
    case (Cons z zs)
    show ?case
      unfolding kfor.simps
      by (rule runs_kthen, rule runs_conseq, rule assms(2) [of ys z zs])
        (use Cons in \<open>auto intro: Cons.IH [of "ys @ [z]"]\<close>)
  qed
  from this [of "[]" xs s] assms(1) show ?thesis by simp
qed

lemma runs_Ret: "runs m s Q \<Longrightarrow> \<exists>x s'. m env s = Ret x env s' \<and> Q x s'"
  by (auto simp: runs_def)

text \<open>The same for a loop whose states are known in advance.\<close>

lemma kfor_exec:
  assumes "\<And>ys y zs. xs = ys @ y # zs \<Longrightarrow> f y env (S ys) = Ret () env (S (ys @ [y]))"
  shows "kfor xs f env (S []) = Ret () env (S xs)"
proof -
  have "kfor zs f env (S ys) = Ret () env (S xs)" if "xs = ys @ zs" for ys zs
    using that
  proof (induction zs arbitrary: ys)
    case Nil
    then show ?case by simp
  next
    case (Cons z zs)
    then show ?case using assms [of ys z zs] Cons.IH [of "ys @ [z]"] by (simp add: exec)
  qed
  from this [of "[]" xs] show ?thesis by simp
qed

section \<open>Signed reading\<close>

lemma sint32: "sint (x :: 32 word) = (if uint x < 2147483648 then uint x else uint x - 4294967296)"
proof -
  have lt: "uint x < 4294967296" "0 \<le> uint x" using uint_lt2p [of x] by simp_all
  have t: "take_bit 32 (uint x) = uint x" by (simp add: take_bit_eq_mod lt)
  have "uint x div 2147483648 = (if uint x < 2147483648 then 0 else 1)"
    using lt by (auto simp: div_eq_minus1 div_pos_pos_trivial)
  then have b: "bit (uint x) 31 \<longleftrightarrow> \<not> uint x < 2147483648"
    by (simp add: bit_iff_odd)
  show ?thesis
    by (simp add: sint_uint signed_take_bit_eq_take_bit_minus t b)
qed

lemma sint16: "sint (x :: 16 word) = (if uint x < 32768 then uint x else uint x - 65536)"
proof -
  have lt: "uint x < 65536" "0 \<le> uint x" using uint_lt2p [of x] by simp_all
  have t: "take_bit 16 (uint x) = uint x" by (simp add: take_bit_eq_mod lt)
  have "uint x div 32768 = (if uint x < 32768 then 0 else 1)"
    using lt by (auto simp: div_eq_minus1 div_pos_pos_trivial)
  then have b: "bit (uint x) 15 \<longleftrightarrow> \<not> uint x < 32768"
    by (simp add: bit_iff_odd)
  show ?thesis
    by (simp add: sint_uint signed_take_bit_eq_take_bit_minus t b)
qed

section \<open>Loops with a result\<close>

text \<open>
  A loop that is left with a value; a turn that gives none waits, so as many turns as the
  environment has steps, and one more, are enough (\<open>kloop_unfold\<close>).
\<close>

fun kloop_fuel :: "nat \<Rightarrow> ('s, 'a option) km \<Rightarrow> ('s, 'a) km" where
  "kloop_fuel 0 body env s = Blocked"
| "kloop_fuel (Suc n) body env s =
     kbind body (\<lambda>r. case r of Some x \<Rightarrow> kret x | None \<Rightarrow> kloop_fuel n body) env s"

definition kloop :: "('s, 'a option) km \<Rightarrow> ('s, 'a) km" where
  "kloop body env s = kloop_fuel (Suc (length env)) body env s"

definition waits_if_none :: "('s, 'a option) km \<Rightarrow> bool" where
  "waits_if_none m \<longleftrightarrow> (\<forall>env s env' s'. m env s = Ret None env' s' \<longrightarrow> length env' < length env)"

lemma kloop_fuel_enough:
  assumes "waits_if_none body"
  shows "length env < n \<Longrightarrow> length env < k \<Longrightarrow> kloop_fuel n body env s = kloop_fuel k body env s"
proof (induction n arbitrary: env s k)
  case 0
  then show ?case by simp
next
  case (Suc n)
  then obtain k' where k: "k = Suc k'" by (cases k) auto
  have "kloop_fuel n body env' s' = kloop_fuel k' body env' s'"
    if "body env s = Ret None env' s'" for env' s'
  proof (rule Suc.IH)
    from that assms have "length env' < length env" unfolding waits_if_none_def by blast
    with Suc.prems k show "length env' < n" "length env' < k'" by auto
  qed
  then show ?case
    by (simp add: k kbind_def split: outcome.splits option.splits)
qed

lemma kloop_unfold:
  assumes "waits_if_none body"
  shows "kloop body env s = kbind body (\<lambda>r. case r of Some x \<Rightarrow> kret x | None \<Rightarrow> kloop body) env s"
proof -
  have "kloop_fuel (length env) body env' s' = kloop body env' s'"
    if "body env s = Ret None env' s'" for env' s'
    unfolding kloop_def using that assms
    by (intro kloop_fuel_enough) (auto simp: waits_if_none_def)
  then show ?thesis
    unfolding kloop_def [of body env s]
    by (simp add: kbind_def split: outcome.splits option.splits)
qed

end
