(* ===== verification/Bytes.thy ===== *)
theory Bytes
  imports Prelude
begin

text \<open>
  Byte arrays: memory as a function from addresses to bytes. The index type is a word
  type, so that the address arithmetic wraps the way the machine's does; kernel memory
  is indexed by 32-bit addresses and the data of a disk block by 9-bit offsets (a block
  has 512 bytes). Multi-byte values are little-endian, as on x86.
\<close>

section \<open>Runs of bytes\<close>

type_synonym 'i bytes = "'i word \<Rightarrow> uchar"

definition read_bytes :: "'i::len bytes \<Rightarrow> 'i word \<Rightarrow> nat \<Rightarrow> uchar list" where
  "read_bytes m a n = map (\<lambda>i. m (a + of_nat i)) [0..<n]"

definition write_bytes :: "'i::len bytes \<Rightarrow> 'i word \<Rightarrow> uchar list \<Rightarrow> 'i bytes" where
  "write_bytes m a bs = (\<lambda>x. if unat (x - a) < length bs then bs ! unat (x - a) else m x)"

definition in_run :: "'i::len word \<Rightarrow> nat \<Rightarrow> 'i word \<Rightarrow> bool" where
  "in_run a n x \<longleftrightarrow> unat (x - a) < n"

definition disjoint_runs :: "'i::len word \<Rightarrow> nat \<Rightarrow> 'i word \<Rightarrow> nat \<Rightarrow> bool" where
  "disjoint_runs a n b k \<longleftrightarrow> (\<forall>i<n. \<forall>j<k. a + of_nat i \<noteq> b + of_nat j)"

lemma length_read_bytes [simp]: "length (read_bytes m a n) = n"
  by (simp add: read_bytes_def)

lemma nth_read_bytes [simp]: "i < n \<Longrightarrow> read_bytes m a n ! i = m (a + of_nat i)"
  by (simp add: read_bytes_def)

lemma unat_of_nat_small:
  "k < 2 ^ LENGTH('i) \<Longrightarrow> unat (of_nat k :: 'i::len word) = k"
  by (simp add: unat_of_nat)

lemma run_offset [simp]:
  "k < 2 ^ LENGTH('i) \<Longrightarrow> unat (a + of_nat k - a :: 'i::len word) = k"
  by (simp add: unat_of_nat_small)

lemma in_run_iff: "in_run a n x \<longleftrightarrow> (\<exists>i<n. x = a + of_nat i)"
  for a :: "'i::len word"
proof
  assume "in_run a n x"
  then have "unat (x - a) < n" "x = a + of_nat (unat (x - a))"
    by (auto simp: in_run_def)
  then show "\<exists>i<n. x = a + of_nat i" by blast
next
  assume "\<exists>i<n. x = a + of_nat i"
  then obtain i where i: "i < n" "x = a + of_nat i" by blast
  have "unat (of_nat i :: 'i word) \<le> i"
    by (simp add: unat_of_nat)
  with i show "in_run a n x" by (simp add: in_run_def)
qed

lemma disjoint_runs_iff: "disjoint_runs a n b k \<longleftrightarrow> (\<forall>x. \<not> (in_run a n x \<and> in_run b k x))"
  unfolding disjoint_runs_def in_run_iff by metis

lemma disjoint_runs_sym: "disjoint_runs a n b k \<Longrightarrow> disjoint_runs b k a n"
  by (auto simp: disjoint_runs_iff)

lemma write_bytes_Nil [simp]: "write_bytes m a [] = m"
  by (simp add: write_bytes_def fun_eq_iff)

lemma write_bytes_outside:
  "\<not> in_run a (length bs) x \<Longrightarrow> write_bytes m a bs x = m x"
  by (simp add: write_bytes_def in_run_def)

lemma write_bytes_inside:
  "i < length bs \<Longrightarrow> length bs \<le> 2 ^ LENGTH('i) \<Longrightarrow>
    write_bytes m a bs (a + of_nat i) = bs ! i" for a :: "'i::len word"
  by (simp add: write_bytes_def unat_of_nat_small)

lemma read_write_same [simp]:
  "length bs \<le> 2 ^ LENGTH('i) \<Longrightarrow> n = length bs \<Longrightarrow>
    read_bytes (write_bytes m a bs) a n = bs" for a :: "'i::len word"
  by (rule nth_equalityI) (simp_all add: write_bytes_inside)

lemma read_write_disjoint:
  "disjoint_runs a n b (length bs) \<Longrightarrow>
    read_bytes (write_bytes m b bs) a n = read_bytes m a n" for a :: "'i::len word"
  by (rule nth_equalityI)
    (auto simp: disjoint_runs_def in_run_iff intro!: write_bytes_outside)

lemma write_bytes_overwrite:
  "length bs = length cs \<Longrightarrow> write_bytes (write_bytes m a bs) a cs = write_bytes m a cs"
  by (simp add: write_bytes_def fun_eq_iff)

lemma read_bytes_cong:
  "(\<And>x. in_run a n x \<Longrightarrow> m x = m' x) \<Longrightarrow> read_bytes m a n = read_bytes m' a n"
  by (rule nth_equalityI) (auto simp: in_run_iff)

lemma read_bytes_append:
  "read_bytes m a (n + k) = read_bytes m a n @ read_bytes m (a + of_nat n) k"
  by (rule nth_equalityI) (auto simp: nth_append algebra_simps)

section \<open>Little-endian words\<close>

definition le_bytes16 :: "ushort \<Rightarrow> uchar list" where
  "le_bytes16 v = [ucast v, ucast (drop_bit 8 v)]"

definition le_word16 :: "uchar list \<Rightarrow> ushort" where
  "le_word16 bs = ucast (bs ! 0) OR push_bit 8 (ucast (bs ! 1))"

definition le_bytes32 :: "uint \<Rightarrow> uchar list" where
  "le_bytes32 v = [ucast v, ucast (drop_bit 8 v), ucast (drop_bit 16 v), ucast (drop_bit 24 v)]"

definition le_word32 :: "uchar list \<Rightarrow> uint" where
  "le_word32 bs = ucast (bs ! 0) OR push_bit 8 (ucast (bs ! 1)) OR
     push_bit 16 (ucast (bs ! 2)) OR push_bit 24 (ucast (bs ! 3))"

lemma length_le_bytes [simp]: "length (le_bytes16 v) = 2" "length (le_bytes32 w) = 4"
  by (simp_all add: le_bytes16_def le_bytes32_def)

lemma bit_uchar_ge [simp]: "8 \<le> n \<Longrightarrow> \<not> bit (b :: uchar) n"
  by (auto dest: bit_imp_le_length)

lemma le_word16_bytes [simp]: "le_word16 (le_bytes16 v) = v"
  by (rule bit_word_eqI)
    (auto simp: le_word16_def le_bytes16_def bit_simps not_less)

lemma le_word32_bytes [simp]: "le_word32 (le_bytes32 v) = v"
proof (rule bit_word_eqI)
  fix n assume "n < LENGTH(32)"
  then consider "n < 8" | "8 \<le> n" "n < 16" | "16 \<le> n" "n < 24" | "24 \<le> n" "n < 32"
    by fastforce
  then show "bit (le_word32 (le_bytes32 v)) n = bit v n"
    by cases (auto simp: le_word32_def le_bytes32_def bit_simps)
qed

lemma length_4_conv: "length xs = 4 \<longleftrightarrow> (\<exists>a b c d. xs = [a, b, c, d])"
  by (auto simp: numeral_eq_Suc length_Suc_conv)

lemma le_bytes32_word: "length bs = 4 \<Longrightarrow> le_bytes32 (le_word32 bs) = bs"
  by (auto simp: length_4_conv le_bytes32_def le_word32_def intro!: bit_word_eqI)
    (auto simp: bit_simps)

definition load16 :: "'i::len bytes \<Rightarrow> 'i word \<Rightarrow> ushort" where
  "load16 m a = le_word16 (read_bytes m a 2)"

definition store16 :: "'i::len bytes \<Rightarrow> 'i word \<Rightarrow> ushort \<Rightarrow> 'i bytes" where
  "store16 m a v = write_bytes m a (le_bytes16 v)"

definition load32 :: "'i::len bytes \<Rightarrow> 'i word \<Rightarrow> uint" where
  "load32 m a = le_word32 (read_bytes m a 4)"

definition store32 :: "'i::len bytes \<Rightarrow> 'i word \<Rightarrow> uint \<Rightarrow> 'i bytes" where
  "store32 m a v = write_bytes m a (le_bytes32 v)"

lemma load32_store32 [simp]:
  "(4::nat) \<le> 2 ^ LENGTH('i) \<Longrightarrow> load32 (store32 m a v) a = v" for a :: "'i::len word"
  by (simp add: load32_def store32_def)

lemma load16_store16 [simp]:
  "(2::nat) \<le> 2 ^ LENGTH('i) \<Longrightarrow> load16 (store16 m a v) a = v" for a :: "'i::len word"
  by (simp add: load16_def store16_def)

lemma load32_write_disjoint:
  "disjoint_runs a 4 b (length bs) \<Longrightarrow> load32 (write_bytes m b bs) a = load32 m a"
  by (simp add: load32_def read_write_disjoint)

lemma load16_write_disjoint:
  "disjoint_runs a 2 b (length bs) \<Longrightarrow> load16 (write_bytes m b bs) a = load16 m a"
  by (simp add: load16_def read_write_disjoint)

lemma store32_outside: "\<not> in_run a 4 x \<Longrightarrow> store32 m a v x = m x"
  by (simp add: store32_def write_bytes_outside)

lemma load32_store32_disjoint:
  "disjoint_runs a 4 b 4 \<Longrightarrow> load32 (store32 m b v) a = load32 m a"
  by (simp add: store32_def load32_write_disjoint)

lemma load32_cong: "(\<And>x. in_run a 4 x \<Longrightarrow> m x = m' x) \<Longrightarrow> load32 m a = load32 m' a"
  unfolding load32_def by (rule arg_cong [where f = le_word32], rule read_bytes_cong)

end
