(* ===== verification/Kernel_State.thy ===== *)
theory Kernel_State
  imports Bytes
begin

text \<open>
  The constants, structures and global variables of the kernel, in the order of its
  header files. A C struct is a record whose fields carry a one- or two-letter prefix
  for the struct (\<open>p_\<close> for \<^verbatim>\<open>struct proc\<close>, \<open>b_\<close> for \<^verbatim>\<open>struct buf\<close>
  and so on). A pointer into one of the kernel's static tables (processes, files,
  inodes, buffers, CPUs) is the index of its entry, with \<open>None\<close> for the null pointer
  where the code allows one; any other pointer is a 32-bit address. Trap frames, saved
  contexts and pipes live at such addresses, each kind in a heap of its own. The fields
  that only help debugging (the call stack of a lock's holder) are left out.
\<close>

section \<open>Constants (param.h, types.h, memlayout.h, mmu.h, fs.h, pipe.c)\<close>

named_theorems param_defs \<open>the kernel's constants\<close>

definition NPROC :: nat where [param_defs]: "NPROC = 64"
definition KSTACKSIZE :: uint where [param_defs]: "KSTACKSIZE = 4096"
definition NCPU :: nat where [param_defs]: "NCPU = 8"
definition NOFILE :: nat where [param_defs]: "NOFILE = 16"
definition NFILE :: nat where [param_defs]: "NFILE = 100"
definition NINODE :: nat where [param_defs]: "NINODE = 50"
definition NDEV :: nat where [param_defs]: "NDEV = 10"
definition ROOTDEV :: uint where [param_defs]: "ROOTDEV = 1"
definition MAXARG :: nat where [param_defs]: "MAXARG = 32"
definition MAXOPBLOCKS :: nat where [param_defs]: "MAXOPBLOCKS = 10"
definition LOGSIZE :: nat where [param_defs]: "LOGSIZE = MAXOPBLOCKS * 3"
definition NBUF :: nat where [param_defs]: "NBUF = MAXOPBLOCKS * 3"
definition FSSIZE :: nat where [param_defs]: "FSSIZE = 1000"

text \<open>Signals: handlers and numbers.\<close>

definition SIG_DFL :: uint where [param_defs]: "SIG_DFL = 0"
definition SIG_IGN :: uint where [param_defs]: "SIG_IGN = 1"
definition SIGKILL :: nat where [param_defs]: "SIGKILL = 9"
definition SIGSTOP :: nat where [param_defs]: "SIGSTOP = 17"
definition SIGCONT :: nat where [param_defs]: "SIGCONT = 19"
definition SIG_HANDLERS_NUM :: nat where [param_defs]: "SIG_HANDLERS_NUM = 32"
definition SIG_MAX :: nat where [param_defs]: "SIG_MAX = 31"
definition SIG_MIN :: nat where [param_defs]: "SIG_MIN = 0"
definition UINT_SIZE :: uint where [param_defs]: "UINT_SIZE = 4"

text \<open>Memory layout.\<close>

definition EXTMEM :: uint where [param_defs]: "EXTMEM = 0x100000"
definition PHYSTOP :: uint where [param_defs]: "PHYSTOP = 0xE000000"
definition DEVSPACE :: uint where [param_defs]: "DEVSPACE = 0xFE000000"
definition KERNBASE :: uint where [param_defs]: "KERNBASE = 0x80000000"
definition KERNLINK :: uint where [param_defs]: "KERNLINK = KERNBASE + EXTMEM"
definition V2P :: "uint \<Rightarrow> uint" where "V2P a = a - KERNBASE"
definition P2V :: "uint \<Rightarrow> uint" where "P2V a = a + KERNBASE"

lemma V2P_P2V [simp]: "V2P (P2V a) = a" and P2V_V2P [simp]: "P2V (V2P a) = a"
  by (simp_all add: V2P_def P2V_def)

text \<open>Segment selectors and privilege.\<close>

definition FL_IF :: uint where [param_defs]: "FL_IF = 0x200"
definition SEG_KCODE :: nat where [param_defs]: "SEG_KCODE = 1"
definition SEG_KDATA :: nat where [param_defs]: "SEG_KDATA = 2"
definition SEG_UCODE :: nat where [param_defs]: "SEG_UCODE = 3"
definition SEG_UDATA :: nat where [param_defs]: "SEG_UDATA = 4"
definition SEG_TSS :: nat where [param_defs]: "SEG_TSS = 5"
definition DPL_USER :: ushort where [param_defs]: "DPL_USER = 3"
definition PGSIZE :: uint where [param_defs]: "PGSIZE = 4096"
definition PIPESIZE :: nat where [param_defs]: "PIPESIZE = 512"

text \<open>On-disk file system.\<close>

definition ROOTINO :: uint where [param_defs]: "ROOTINO = 1"
definition BSIZE :: nat where [param_defs]: "BSIZE = 512"
definition NDIRECT :: nat where [param_defs]: "NDIRECT = 12"
definition NINDIRECT :: nat where [param_defs]: "NINDIRECT = BSIZE div 4"
definition MAXFILE :: nat where [param_defs]: "MAXFILE = NDIRECT + NINDIRECT"
definition IPB :: nat where [param_defs]: "IPB = BSIZE div 64"
definition BPB :: nat where [param_defs]: "BPB = BSIZE * 8"
definition DIRSIZ :: nat where [param_defs]: "DIRSIZ = 14"
definition T_DIR :: cshort where [param_defs]: "T_DIR = 1"
definition T_FILE :: cshort where [param_defs]: "T_FILE = 2"
definition T_DEV :: cshort where [param_defs]: "T_DEV = 3"
definition CONSOLE :: nat where [param_defs]: "CONSOLE = 1"

section \<open>Locks (spinlock.h, sleeplock.h)\<close>

text \<open>
  The locks of the kernel by name. A pipe's lock is named by the address of the pipe;
  every sleep lock has a spin lock of its own.
\<close>

datatype slid = BufLock nat | InodeLock nat

datatype lockid =
    PtableLock | TicksLock | KmemLock | ConsLock | IdeLock | BcacheLock | LogLock
  | IcacheLock | FtableLock | PipeLock uint | SleepLk slid

record spinlock =
  lk_locked :: uint
  lk_name :: string
  lk_cpu :: "nat option"

record sleeplock =
  sl_locked :: uint
  sl_name :: string
  sl_pid :: cint

section \<open>CPUs and processes (x86.h, mmu.h, proc.h, types.h)\<close>

text \<open>Channels a process can sleep on, by what the address passed to \<^verbatim>\<open>sleep\<close> points to.\<close>

datatype channel =
    ChanTicks | ChanLog | ChanInput | ChanProc nat | ChanSleepLock slid | ChanBuf nat
  | ChanPipeRead uint | ChanPipeWrite uint

record segdesc =
  sd_lim_15_0 :: ushort
  sd_base_15_0 :: ushort
  sd_base_23_16 :: uchar
  sd_type :: "4 word"
  sd_s :: "1 word"
  sd_dpl :: "2 word"
  sd_p :: "1 word"
  sd_lim_19_16 :: "4 word"
  sd_avl :: "1 word"
  sd_rsv1 :: "1 word"
  sd_db :: "1 word"
  sd_g :: "1 word"
  sd_base_31_24 :: uchar

record gatedesc =
  gd_off_15_0 :: ushort
  gd_cs :: ushort
  gd_args :: "5 word"
  gd_rsv1 :: "3 word"
  gd_type :: "4 word"
  gd_s :: "1 word"
  gd_dpl :: "2 word"
  gd_p :: "1 word"
  gd_off_31_16 :: ushort

record cpu =
  c_apicid :: nat
  c_gdt :: "nat \<Rightarrow> segdesc"
  c_ts_ss0 :: ushort
  c_ts_esp0 :: uint
  c_ts_iomb :: ushort
  c_started :: bool
  c_ncli :: int
  c_intena :: bool
  c_proc :: "nat option"

record trapframe =
  tf_edi :: uint
  tf_esi :: uint
  tf_ebp :: uint
  tf_oesp :: uint
  tf_ebx :: uint
  tf_edx :: uint
  tf_ecx :: uint
  tf_eax :: uint
  tf_gs :: ushort
  tf_fs :: ushort
  tf_es :: ushort
  tf_ds :: ushort
  tf_trapno :: uint
  tf_err :: uint
  tf_eip :: uint
  tf_cs :: ushort
  tf_eflags :: uint
  tf_esp :: uint
  tf_ss :: ushort

record ctxt =
  cx_edi :: uint
  cx_esi :: uint
  cx_ebx :: uint
  cx_ebp :: uint
  cx_eip :: uint

definition zero_tf :: trapframe where
  "zero_tf = \<lparr>tf_edi = 0, tf_esi = 0, tf_ebp = 0, tf_oesp = 0, tf_ebx = 0, tf_edx = 0,
     tf_ecx = 0, tf_eax = 0, tf_gs = 0, tf_fs = 0, tf_es = 0, tf_ds = 0, tf_trapno = 0,
     tf_err = 0, tf_eip = 0, tf_cs = 0, tf_eflags = 0, tf_esp = 0, tf_ss = 0\<rparr>"

definition zero_ctxt :: ctxt where
  "zero_ctxt = \<lparr>cx_edi = 0, cx_esi = 0, cx_ebx = 0, cx_ebp = 0, cx_eip = 0\<rparr>"

datatype procstate =
    UNUSED | MINUS_UNUSED | EMBRYO | SLEEPING | MINUS_SLEEPING | RUNNABLE | MINUS_RUNNABLE
  | RUNNING | ZOMBIE | MINUS_ZOMBIE

record proc =
  p_sz :: uint
  p_pgdir :: uint
  p_kstack :: uint
  p_state :: procstate
  p_pid :: cint
  p_parent :: "nat option"
  p_tf :: uint
  p_context :: uint
  p_chan :: "channel option"
  p_killed :: bool
  p_ofile :: "nat \<Rightarrow> nat option"
  p_cwd :: "nat option"
  p_name :: "nat \<Rightarrow> uchar"
  p_psignals :: uint
  p_sigmask :: uint
  p_sigmask_backup :: uint
  p_sig_handlers :: "nat \<Rightarrow> uint"
  p_tf_backup :: uint
  p_frozen :: bool

section \<open>Buffers, log, inodes, files (buf.h, log.c, fs.h, file.h, pipe.c, console.c)\<close>

type_synonym block = "9 bytes" \<comment> \<open>the 512 bytes of a disk block\<close>

definition B_VALID :: uint where [param_defs]: "B_VALID = 2"
definition B_DIRTY :: uint where [param_defs]: "B_DIRTY = 4"

record buf =
  b_flags :: uint
  b_dev :: uint
  b_blockno :: uint
  b_refcnt :: uint
  b_prev :: nat
  b_next :: nat
  b_qnext :: "nat option"
  b_data :: block

record logst =
  lg_start :: uint
  lg_size :: int
  lg_outstanding :: int
  lg_committing :: bool
  lg_dev :: uint
  lg_n :: int
  lg_block :: "nat \<Rightarrow> uint"

record superblock =
  sb_size :: uint
  sb_nblocks :: uint
  sb_ninodes :: uint
  sb_nlog :: uint
  sb_logstart :: uint
  sb_inodestart :: uint
  sb_bmapstart :: uint

record dinode =
  di_type :: cshort
  di_major :: cshort
  di_minor :: cshort
  di_nlink :: cshort
  di_size :: uint
  di_addrs :: "nat \<Rightarrow> uint"

record inode =
  i_dev :: uint
  i_inum :: uint
  i_ref :: int
  i_valid :: bool
  i_type :: cshort
  i_major :: cshort
  i_minor :: cshort
  i_nlink :: cshort
  i_size :: uint
  i_addrs :: "nat \<Rightarrow> uint"

datatype filetype = FD_NONE | FD_PIPE | FD_INODE

record kfile =
  f_type :: filetype
  f_ref :: int
  f_readable :: bool
  f_writable :: bool
  f_pipe :: uint
  f_ip :: nat
  f_off :: uint

record pipe =
  pi_data :: "nat \<Rightarrow> uchar"
  pi_nread :: uint
  pi_nwrite :: uint
  pi_readopen :: bool
  pi_writeopen :: bool

record inputbuf =
  in_buf :: "nat \<Rightarrow> uchar"
  in_r :: uint
  in_w :: uint
  in_e :: uint

text \<open>What is written to the I/O ports: a byte, or the words of a block.\<close>

datatype port_write = OutB ushort uchar | OutSL ushort block

section \<open>The kernel state\<close>

text \<open>
  The state of the CPU that runs the modelled code (its interrupt flag, its APIC id, the
  page table and task registers), the per-CPU structures, and the locks.
\<close>

record hwstate =
  hw_apic :: nat
  hw_if :: bool
  hw_cr3 :: uint
  hw_tr :: ushort
  hw_gdt :: "nat option"
  hw_idt :: bool
  hw_cpus :: "nat \<Rightarrow> cpu"
  hw_ncpu :: nat
  hw_locks :: "lockid \<Rightarrow> spinlock"
  hw_slocks :: "slid \<Rightarrow> sleeplock"

text \<open>
  The global variables, a group per source file. \<open>k_end\<close> and \<open>k_data\<close> are the
  addresses the linker gives to the symbols \<^verbatim>\<open>end\<close> and \<^verbatim>\<open>data\<close>, and
  \<open>k_trapret\<close>, \<open>k_forkret\<close>, \<open>k_cpus\<close>, \<open>k_vectors\<close> those of the two return stubs, the
  CPU table and the interrupt entry points; no routine writes them. \<open>hw_gdt\<close> says whose
  descriptor table a CPU has loaded, \<open>hw_idt\<close> whether it has loaded the interrupt table.
  \<open>sigret_code\<close> holds the bytes between \<^verbatim>\<open>sigret_caller_start\<close> and
  \<^verbatim>\<open>sigret_caller_end\<close> in \<^verbatim>\<open>trapasm.S\<close>. \<open>disk\<close> is the content of the
  disk, by device and block number, \<open>disksize\<close> its size in blocks, \<open>disk_history\<close> the
  sequence of the writes to it so far, which no routine reads, \<open>console_out\<close>
  what was sent to the serial port so far, \<open>crt_pos\<close> the cursor position the screen controller
  keeps and \<open>crt\<close> the characters in its memory. The last group are the devices: what reading a
  port gives (which the environment changes), what was written to the ports so far, the words
  the disk controller has ready, the registers of the clock and of the two interrupt controllers.
\<close>

record kernel =
  hw :: hwstate
  mem :: "32 bytes"
  k_end :: uint
  k_data :: uint
  k_trapret :: uint
  k_forkret :: uint
  k_cpus :: uint
  k_vectors :: "nat \<Rightarrow> uint"
  sigret_code :: "uchar list"
  use_lock :: bool
  freelist :: uint
  kpgdir :: uint
  ptable :: "nat \<Rightarrow> proc"
  initproc :: "nat option"
  nextpid :: cint
  first :: bool
  ticks :: uint
  tframes :: "uint \<Rightarrow> trapframe"
  contexts :: "uint \<Rightarrow> ctxt"
  bufs :: "nat \<Rightarrow> buf"
  idequeue :: "nat option"
  havedisk1 :: bool
  disk :: "uint \<Rightarrow> uint \<Rightarrow> block"
  disksize :: uint
  disk_history :: "(uint \<times> block) list"
  log :: logst
  sb :: superblock
  icache :: "nat \<Rightarrow> inode"
  ftable :: "nat \<Rightarrow> kfile"
  pipes :: "uint \<Rightarrow> pipe"
  devsw_read :: "nat \<Rightarrow> bool"
  devsw_write :: "nat \<Rightarrow> bool"
  inputb :: inputbuf
  cons_locking :: bool
  panicked :: bool
  uart :: bool
  console_out :: "uint list"
  crt_pos :: int
  crt :: "nat \<Rightarrow> ushort"
  kbd_shift :: uint
  idt :: "nat \<Rightarrow> gatedesc"
  port_in :: "ushort \<Rightarrow> uchar"
  port_out :: "port_write list"
  ide_in :: block
  cmos :: "uint \<Rightarrow> uchar"
  lapic :: uint
  lapic_regs :: "nat \<Rightarrow> uint"
  ioapic_reg :: uint
  ioapic_regs :: "uint \<Rightarrow> uint"
  ioapicid :: uchar

type_synonym 'a kernel_op = "(kernel, 'a) km"

text \<open>
  The state in which \<^verbatim>\<open>main\<close> starts on a machine with one CPU: the bss segment is
  cleared and the initialised variables have their values. It is the concrete state of the
  examples.
\<close>

definition zero_segdesc :: segdesc where
  "zero_segdesc = \<lparr>sd_lim_15_0 = 0, sd_base_15_0 = 0, sd_base_23_16 = 0, sd_type = 0, sd_s = 0,
     sd_dpl = 0, sd_p = 0, sd_lim_19_16 = 0, sd_avl = 0, sd_rsv1 = 0, sd_db = 0, sd_g = 0,
     sd_base_31_24 = 0\<rparr>"

definition zero_gatedesc :: gatedesc where
  "zero_gatedesc = \<lparr>gd_off_15_0 = 0, gd_cs = 0, gd_args = 0, gd_rsv1 = 0, gd_type = 0, gd_s = 0,
     gd_dpl = 0, gd_p = 0, gd_off_31_16 = 0\<rparr>"

definition zero_cpu :: cpu where
  "zero_cpu = \<lparr>c_apicid = 0, c_gdt = (\<lambda>_. zero_segdesc), c_ts_ss0 = 0, c_ts_esp0 = 0,
     c_ts_iomb = 0, c_started = False, c_ncli = 0, c_intena = False, c_proc = None\<rparr>"

definition zero_proc :: proc where
  "zero_proc = \<lparr>p_sz = 0, p_pgdir = 0, p_kstack = 0, p_state = UNUSED, p_pid = 0,
     p_parent = None, p_tf = 0, p_context = 0, p_chan = None, p_killed = False,
     p_ofile = (\<lambda>_. None), p_cwd = None, p_name = (\<lambda>_. 0), p_psignals = 0, p_sigmask = 0,
     p_sigmask_backup = 0, p_sig_handlers = (\<lambda>_. 0), p_tf_backup = 0, p_frozen = False\<rparr>"

definition zero_buf :: buf where
  "zero_buf = \<lparr>b_flags = 0, b_dev = 0, b_blockno = 0, b_refcnt = 0, b_prev = 0, b_next = 0,
     b_qnext = None, b_data = (\<lambda>_. 0)\<rparr>"

definition zero_inode :: inode where
  "zero_inode = \<lparr>i_dev = 0, i_inum = 0, i_ref = 0, i_valid = False, i_type = 0, i_major = 0,
     i_minor = 0, i_nlink = 0, i_size = 0, i_addrs = (\<lambda>_. 0)\<rparr>"

definition zero_file :: kfile where
  "zero_file = \<lparr>f_type = FD_NONE, f_ref = 0, f_readable = False, f_writable = False,
     f_pipe = 0, f_ip = 0, f_off = 0\<rparr>"

definition zero_pipe :: pipe where
  "zero_pipe = \<lparr>pi_data = (\<lambda>_. 0), pi_nread = 0, pi_nwrite = 0, pi_readopen = False,
     pi_writeopen = False\<rparr>"

definition boot_hw :: hwstate where
  "boot_hw = \<lparr>hw_apic = 0, hw_if = False, hw_cr3 = 0, hw_tr = 0, hw_gdt = None, hw_idt = False, hw_cpus = (\<lambda>_. zero_cpu),
     hw_ncpu = 1, hw_locks = (\<lambda>_. \<lparr>lk_locked = 0, lk_name = [], lk_cpu = None\<rparr>),
     hw_slocks = (\<lambda>_. \<lparr>sl_locked = 0, sl_name = [], sl_pid = 0\<rparr>)\<rparr>"

definition boot_kernel :: kernel where
  "boot_kernel = \<lparr>hw = boot_hw, mem = (\<lambda>_. 0), k_end = 0x801154A8, k_data = 0x80108000,
     k_trapret = 0x80106000, k_forkret = 0x80103600, k_cpus = 0x80112780, k_vectors = (\<lambda>_. 0x80106100), sigret_code = [0xB8, 0x18, 0, 0, 0, 0xCD, 0x40],
     use_lock = False, freelist = 0, kpgdir = 0, ptable = (\<lambda>_. zero_proc), initproc = None,
     nextpid = 1, first = True, ticks = 0, tframes = (\<lambda>_. zero_tf), contexts = (\<lambda>_. zero_ctxt),
     bufs = (\<lambda>_. zero_buf), idequeue = None, havedisk1 = False, disk = (\<lambda>_ _ _. 0), disksize = 0, disk_history = [],
     log = \<lparr>lg_start = 0, lg_size = 0, lg_outstanding = 0, lg_committing = False, lg_dev = 0,
            lg_n = 0, lg_block = (\<lambda>_. 0)\<rparr>,
     sb = \<lparr>sb_size = 0, sb_nblocks = 0, sb_ninodes = 0, sb_nlog = 0, sb_logstart = 0,
           sb_inodestart = 0, sb_bmapstart = 0\<rparr>,
     icache = (\<lambda>_. zero_inode), ftable = (\<lambda>_. zero_file), pipes = (\<lambda>_. zero_pipe),
     devsw_read = (\<lambda>_. False), devsw_write = (\<lambda>_. False),
     inputb = \<lparr>in_buf = (\<lambda>_. 0), in_r = 0, in_w = 0, in_e = 0\<rparr>,
     cons_locking = False, panicked = False, uart = False, console_out = [], crt_pos = 0, crt = (\<lambda>_. 0), kbd_shift = 0,
     idt = (\<lambda>_. zero_gatedesc), port_in = (\<lambda>_. 0), port_out = [], ide_in = (\<lambda>_. 0), cmos = (\<lambda>_. 0),
     lapic = 0, lapic_regs = (\<lambda>_. 0), ioapic_reg = 0, ioapic_regs = (\<lambda>_. 0), ioapicid = 0\<rparr>"

lemma boot_kernel_simps [simp]:
  "hw boot_kernel = boot_hw" "mem boot_kernel = (\<lambda>_. 0)" "k_end boot_kernel = 0x801154A8"
  "k_data boot_kernel = 0x80108000" "use_lock boot_kernel = False" "freelist boot_kernel = 0"
  "ptable boot_kernel = (\<lambda>_. zero_proc)" "nextpid boot_kernel = 1"
  "bufs boot_kernel = (\<lambda>_. zero_buf)" "icache boot_kernel = (\<lambda>_. zero_inode)"
  "ftable boot_kernel = (\<lambda>_. zero_file)" "pipes boot_kernel = (\<lambda>_. zero_pipe)"
  "kpgdir boot_kernel = 0" "initproc boot_kernel = None" "first boot_kernel = True"
  "ticks boot_kernel = 0" "tframes boot_kernel = (\<lambda>_. zero_tf)"
  "contexts boot_kernel = (\<lambda>_. zero_ctxt)" "idequeue boot_kernel = None"
  "disk boot_kernel = (\<lambda>_ _ _. 0)" "panicked boot_kernel = False"
  "cons_locking boot_kernel = False" "uart boot_kernel = False" "console_out boot_kernel = []"
  "crt_pos boot_kernel = 0" "crt boot_kernel = (\<lambda>_. 0)" "kbd_shift boot_kernel = 0"
  "inputb boot_kernel = \<lparr>in_buf = (\<lambda>_. 0), in_r = 0, in_w = 0, in_e = 0\<rparr>"
  "devsw_read boot_kernel = (\<lambda>_. False)" "devsw_write boot_kernel = (\<lambda>_. False)"
  by (simp_all add: boot_kernel_def)

end
