(* ===== verification/Machines.thy ===== *)
theory Machines
  imports Main
begin

text \<open>
  Step relations. A concurrent part of the kernel is a start condition and a relation
  between states, one rule per atomic action of the code; \<open>reachable\<close> are the states
  that any interleaving of the actions can lead to. The locale \<open>machine\<close> is the
  contract of an invariant: it holds at the start and every action keeps it.
\<close>

inductive reachable :: "('s \<Rightarrow> bool) \<Rightarrow> ('s \<Rightarrow> 's \<Rightarrow> bool) \<Rightarrow> 's \<Rightarrow> bool"
  for init :: "'s \<Rightarrow> bool" and act :: "'s \<Rightarrow> 's \<Rightarrow> bool" where
  reach_init: "init s \<Longrightarrow> reachable init act s"
| reach_step: "reachable init act s \<Longrightarrow> act s t \<Longrightarrow> reachable init act t"

lemma reachable_rtranclp:
  "reachable init act s \<Longrightarrow> act\<^sup>*\<^sup>* s t \<Longrightarrow> reachable init act t"
  by (rotate_tac, induction rule: rtranclp_induct) (auto intro: reach_step)

locale machine =
  fixes init :: "'s \<Rightarrow> bool"
    and act :: "'s \<Rightarrow> 's \<Rightarrow> bool"
    and inv :: "'s \<Rightarrow> bool"
  assumes init_inv: "init s \<Longrightarrow> inv s"
    and act_inv: "inv s \<Longrightarrow> act s t \<Longrightarrow> inv t"
begin

lemma reachable_inv: "reachable init act s \<Longrightarrow> inv s"
  by (induction rule: reachable.induct) (auto intro: init_inv act_inv)

lemma runs_inv: "inv s \<Longrightarrow> act\<^sup>*\<^sup>* s t \<Longrightarrow> inv t"
  by (rotate_tac, induction rule: rtranclp_induct) (auto intro: act_inv)

end

end
