(* ===== verification/Locks.thy ===== *)
theory Locks
  imports Kernel_State Machines
begin

text \<open>
  Interrupt nesting and spin locks (\<^verbatim>\<open>spinlock.c\<close>), and the routines of
  \<^verbatim>\<open>proc.c\<close> that find the current CPU and process. \<open>acquire\<close> waits for the
  environment while another CPU holds the lock. The lemmas show that in a sane CPU state a
  free lock is taken and given back without a trace, which is what lets the proofs about
  the critical sections look only at the data they change.
\<close>

section \<open>The current CPU\<close>

definition cur_cpu :: "hwstate \<Rightarrow> nat option" where
  "cur_cpu h = find (\<lambda>i. c_apicid (hw_cpus h i) = hw_apic h) [0..<hw_ncpu h]"

definition mycpu :: "nat kernel_op" where
  "mycpu = kbind (kget hw) (\<lambda>h.
     if hw_if h then kpanic ''mycpu called with interrupts enabled''
     else case cur_cpu h of
       Some i \<Rightarrow> kret i
     | None \<Rightarrow> kpanic ''unknown apicid'')"

definition cpuid :: "nat kernel_op" where
  "cpuid = mycpu"

definition upd_cpu :: "nat \<Rightarrow> (cpu \<Rightarrow> cpu) \<Rightarrow> unit kernel_op" where
  "upd_cpu i f = kmod (\<lambda>s. s\<lparr>hw := (hw s)\<lparr>hw_cpus := (hw_cpus (hw s))(i := f (hw_cpus (hw s) i))\<rparr>\<rparr>)"

definition cli :: "unit kernel_op" where
  "cli = kmod (\<lambda>s. s\<lparr>hw := (hw s)\<lparr>hw_if := False\<rparr>\<rparr>)"

definition sti :: "unit kernel_op" where
  "sti = kmod (\<lambda>s. s\<lparr>hw := (hw s)\<lparr>hw_if := True\<rparr>\<rparr>)"

section \<open>Interrupt nesting\<close>

definition pushcli :: "unit kernel_op" where
  "pushcli =
     kbind (kget (\<lambda>s. hw_if (hw s))) (\<lambda>eflags.
     kthen cli (
     kbind mycpu (\<lambda>c.
     kbind (kget (\<lambda>s. c_ncli (hw_cpus (hw s) c))) (\<lambda>n.
     kthen (kwhen (n = 0) (upd_cpu c (\<lambda>x. x\<lparr>c_intena := eflags\<rparr>)))
       (upd_cpu c (\<lambda>x. x\<lparr>c_ncli := c_ncli x + 1\<rparr>))))))"

definition popcli :: "unit kernel_op" where
  "popcli =
     kbind (kget (\<lambda>s. hw_if (hw s))) (\<lambda>eflags.
     kthen (kassert (\<not> eflags) ''popcli - interruptible'') (
     kbind mycpu (\<lambda>c.
     kthen (upd_cpu c (\<lambda>x. x\<lparr>c_ncli := c_ncli x - 1\<rparr>)) (
     kbind (kget (\<lambda>s. hw_cpus (hw s) c)) (\<lambda>x.
     kthen (kassert (0 \<le> c_ncli x) ''popcli'')
       (kwhen (c_ncli x = 0 \<and> c_intena x) sti))))))"

definition myproc :: "nat option kernel_op" where
  "myproc =
     kthen pushcli (
     kbind mycpu (\<lambda>c.
     kbind (kget (\<lambda>s. c_proc (hw_cpus (hw s) c))) (\<lambda>p.
     kthen popcli (kret p))))"

section \<open>Spin locks\<close>

definition upd_lock :: "lockid \<Rightarrow> (spinlock \<Rightarrow> spinlock) \<Rightarrow> kernel \<Rightarrow> kernel" where
  "upd_lock lk f s =
     s\<lparr>hw := (hw s)\<lparr>hw_locks := (hw_locks (hw s))(lk := f (hw_locks (hw s) lk))\<rparr>\<rparr>"

definition initlock :: "lockid \<Rightarrow> string \<Rightarrow> unit kernel_op" where
  "initlock lk name = kmod (upd_lock lk (\<lambda>_. \<lparr>lk_locked = 0, lk_name = name, lk_cpu = None\<rparr>))"

definition holding :: "lockid \<Rightarrow> bool kernel_op" where
  "holding lk =
     kthen pushcli (
     kbind mycpu (\<lambda>c.
     kbind (kget (\<lambda>s. hw_locks (hw s) lk)) (\<lambda>l.
     kthen popcli (kret (lk_locked l \<noteq> 0 \<and> lk_cpu l = Some c)))))"

text \<open>\<^verbatim>\<open>while(xchg(&lk->locked, 1) != 0) ;\<close> -- each turn writes 1 and reads the old value.\<close>

fun acquire_spin :: "lockid \<Rightarrow> unit kernel_op" where
  "acquire_spin lk env s =
     (let old = lk_locked (hw_locks (hw s) lk);
          s' = upd_lock lk (\<lambda>l. l\<lparr>lk_locked := 1\<rparr>) s
      in if old = 0 then Ret () env s'
         else (case env of [] \<Rightarrow> Blocked | e # es \<Rightarrow> acquire_spin lk es (e s')))"

declare acquire_spin.simps [simp del]

definition acquire :: "lockid \<Rightarrow> unit kernel_op" where
  "acquire lk =
     kthen pushcli (
     kbind (holding lk) (\<lambda>h.
     kthen (kassert (\<not> h) ''acquire'') (
     kthen (acquire_spin lk) (
     kbind mycpu (\<lambda>c. kmod (upd_lock lk (\<lambda>l. l\<lparr>lk_cpu := Some c\<rparr>)))))))"

definition release :: "lockid \<Rightarrow> unit kernel_op" where
  "release lk =
     kbind (holding lk) (\<lambda>h.
     kthen (kassert h ''release'') (
     kthen (kmod (upd_lock lk (\<lambda>l. l\<lparr>lk_cpu := None\<rparr>))) (
     kthen (kmod (upd_lock lk (\<lambda>l. l\<lparr>lk_locked := 0\<rparr>)))
       popcli)))"

section \<open>Sane CPU states\<close>

text \<open>
  The current CPU is known, interrupts are off while \<open>pushcli\<close> is in force, and outside
  of it the saved flag is the flag.
\<close>

definition cpu_ok :: "hwstate \<Rightarrow> bool" where
  "cpu_ok h \<longleftrightarrow> (case cur_cpu h of None \<Rightarrow> False
     | Some i \<Rightarrow> 0 \<le> c_ncli (hw_cpus h i) \<and> (0 < c_ncli (hw_cpus h i) \<longrightarrow> \<not> hw_if h)
         \<and> (c_ncli (hw_cpus h i) = 0 \<longrightarrow> c_intena (hw_cpus h i) = hw_if h))"

definition cpu_of :: "hwstate \<Rightarrow> nat" where
  "cpu_of h = (case cur_cpu h of Some i \<Rightarrow> i | None \<Rightarrow> 0)"

definition cli_push :: "hwstate \<Rightarrow> hwstate" where
  "cli_push h = h\<lparr>hw_if := False,
     hw_cpus := (hw_cpus h)(cpu_of h := (hw_cpus h (cpu_of h))\<lparr>c_ncli := c_ncli (hw_cpus h (cpu_of h)) + 1\<rparr>)\<rparr>"

definition cli_pop :: "hwstate \<Rightarrow> hwstate" where
  "cli_pop h = h\<lparr>hw_if := (c_ncli (hw_cpus h (cpu_of h)) = 1 \<and> c_intena (hw_cpus h (cpu_of h))),
     hw_cpus := (hw_cpus h)(cpu_of h := (hw_cpus h (cpu_of h))\<lparr>c_ncli := c_ncli (hw_cpus h (cpu_of h)) - 1\<rparr>)\<rparr>"

definition set_lock :: "lockid \<Rightarrow> uint \<Rightarrow> nat option \<Rightarrow> hwstate \<Rightarrow> hwstate" where
  "set_lock lk v c h =
     h\<lparr>hw_locks := (hw_locks h)(lk := (hw_locks h lk)\<lparr>lk_locked := v, lk_cpu := c\<rparr>)\<rparr>"

definition lock_free :: "lockid \<Rightarrow> hwstate \<Rightarrow> bool" where
  "lock_free lk h \<longleftrightarrow> lk_locked (hw_locks h lk) = 0 \<and> lk_cpu (hw_locks h lk) = None"

definition lock_held :: "lockid \<Rightarrow> hwstate \<Rightarrow> bool" where
  "lock_held lk h \<longleftrightarrow> lk_locked (hw_locks h lk) \<noteq> 0 \<and> lk_cpu (hw_locks h lk) = cur_cpu h"

definition hold :: "lockid \<Rightarrow> hwstate \<Rightarrow> hwstate" where
  "hold lk h = set_lock lk 1 (cur_cpu h) (cli_push h)"

definition unhold :: "lockid \<Rightarrow> hwstate \<Rightarrow> hwstate" where
  "unhold lk h = cli_pop (set_lock lk 0 None h)"

lemma cur_cpu_cong:
  "hw_apic h' = hw_apic h \<Longrightarrow> hw_ncpu h' = hw_ncpu h \<Longrightarrow>
    (\<And>i. c_apicid (hw_cpus h' i) = c_apicid (hw_cpus h i)) \<Longrightarrow> cur_cpu h' = cur_cpu h"
  by (simp add: cur_cpu_def)

lemma cur_cpu_simps [simp]:
  "cur_cpu (h\<lparr>hw_if := b\<rparr>) = cur_cpu h"
  "cur_cpu (h\<lparr>hw_locks := l\<rparr>) = cur_cpu h"
  "cur_cpu (h\<lparr>hw_slocks := sl\<rparr>) = cur_cpu h"
  "cur_cpu (h\<lparr>hw_cr3 := a\<rparr>) = cur_cpu h"
  "cur_cpu (h\<lparr>hw_tr := r\<rparr>) = cur_cpu h"
  "cur_cpu (cli_push h) = cur_cpu h"
  "cur_cpu (cli_pop h) = cur_cpu h"
  "cur_cpu (set_lock lk v c h) = cur_cpu h"
  "cur_cpu (hold lk h) = cur_cpu h"
  "cur_cpu (unhold lk h) = cur_cpu h"
  by (rule cur_cpu_cong;
      simp add: cli_push_def cli_pop_def set_lock_def hold_def unhold_def)+

lemma cpu_of_cong: "cur_cpu h' = cur_cpu h \<Longrightarrow> cpu_of h' = cpu_of h"
  by (simp add: cpu_of_def)

lemma cpu_of_simps [simp]:
  "cpu_of (h\<lparr>hw_if := b\<rparr>) = cpu_of h"
  "cpu_of (h\<lparr>hw_locks := l\<rparr>) = cpu_of h"
  "cpu_of (h\<lparr>hw_slocks := sl\<rparr>) = cpu_of h"
  "cpu_of (cli_push h) = cpu_of h"
  "cpu_of (cli_pop h) = cpu_of h"
  "cpu_of (set_lock lk v c h) = cpu_of h"
  "cpu_of (hold lk h) = cpu_of h"
  "cpu_of (unhold lk h) = cpu_of h"
  by (simp_all add: cpu_of_def)

lemma cpu_okE:
  assumes "cpu_ok h"
  obtains i where "cur_cpu h = Some i" and "cpu_of h = i" and "0 \<le> c_ncli (hw_cpus h i)"
    and "0 < c_ncli (hw_cpus h i) \<Longrightarrow> \<not> hw_if h"
    and "c_ncli (hw_cpus h i) = 0 \<Longrightarrow> c_intena (hw_cpus h i) = hw_if h"
  using assms by (auto simp: cpu_ok_def cpu_of_def split: option.splits)

lemma cpu_ok_cur: "cpu_ok h \<Longrightarrow> cur_cpu h = Some (cpu_of h)"
  by (auto elim: cpu_okE)

lemma cpu_ok_simps [simp]:
  "cpu_ok (h\<lparr>hw_locks := l\<rparr>) = cpu_ok h"
  "cpu_ok (h\<lparr>hw_slocks := sl\<rparr>) = cpu_ok h"
  "cpu_ok (set_lock lk v c h) = cpu_ok h"
  by (simp_all add: cpu_ok_def set_lock_def split: option.split)

lemma cpu_ok_iff:
  "cpu_ok h \<longleftrightarrow> cur_cpu h = Some (cpu_of h) \<and> 0 \<le> c_ncli (hw_cpus h (cpu_of h))
     \<and> (0 < c_ncli (hw_cpus h (cpu_of h)) \<longrightarrow> \<not> hw_if h)
     \<and> (c_ncli (hw_cpus h (cpu_of h)) = 0 \<longrightarrow> c_intena (hw_cpus h (cpu_of h)) = hw_if h)"
  by (auto simp: cpu_ok_def cpu_of_def split: option.splits)

lemma cpu_ok_push [simp]: "cpu_ok h \<Longrightarrow> cpu_ok (cli_push h)"
  unfolding cpu_ok_iff cur_cpu_simps cpu_of_simps by (auto simp: cli_push_def)

lemma cpu_ok_hold [simp]: "cpu_ok h \<Longrightarrow> cpu_ok (hold lk h)"
  by (simp add: hold_def)

lemma pop_push [simp]:
  assumes "cpu_ok h"
  shows "cli_pop (cli_push h) = h"
proof -
  have "(c_ncli (hw_cpus h (cpu_of h)) = 0 \<and> c_intena (hw_cpus h (cpu_of h))) = hw_if h"
    using assms by (auto simp: cpu_ok_iff)
  then show ?thesis
    unfolding cli_pop_def cpu_of_simps by (simp add: cli_push_def)
qed

lemma set_lock_set_lock: "set_lock lk v c (set_lock lk v' c' h) = set_lock lk v c h"
  by (simp add: set_lock_def)

lemma spinlock_eta: "lk_locked l = v \<Longrightarrow> lk_cpu l = c \<Longrightarrow> l\<lparr>lk_locked := v, lk_cpu := c\<rparr> = l"
  by (cases l) simp

lemma set_lock_free: "lock_free lk h \<Longrightarrow> set_lock lk 0 None h = h"
  by (simp add: set_lock_def lock_free_def spinlock_eta)

lemma set_lock_push: "set_lock lk v c (cli_push h) = cli_push (set_lock lk v c h)"
  and set_lock_pop: "set_lock lk v c (cli_pop h) = cli_pop (set_lock lk v c h)"
  by (simp_all add: set_lock_def cli_push_def cli_pop_def)

lemma unhold_hold [simp]: "cpu_ok h \<Longrightarrow> lock_free lk h \<Longrightarrow> unhold lk (hold lk h) = h"
  by (simp add: unhold_def hold_def set_lock_set_lock set_lock_push set_lock_free)

lemma hw_locks_simps [simp]:
  "hw_locks (cli_push h) = hw_locks h" "hw_locks (cli_pop h) = hw_locks h"
  "hw_locks (hold lk h) = (hw_locks h)(lk := (hw_locks h lk)\<lparr>lk_locked := 1, lk_cpu := cur_cpu h\<rparr>)"
  by (simp_all add: cli_push_def cli_pop_def hold_def set_lock_def)

lemma lock_free_simps [simp]:
  "lock_free lk (cli_push h) = lock_free lk h"
  "lock_free lk (cli_pop h) = lock_free lk h"
  "lock_free lk (h\<lparr>hw_slocks := sl\<rparr>) = lock_free lk h"
  "lk \<noteq> lk' \<Longrightarrow> lock_free lk (hold lk' h) = lock_free lk h"
  "lock_held lk (cli_push h) = lock_held lk h"
  "lock_held lk (cli_pop h) = lock_held lk h"
  "lock_held lk (h\<lparr>hw_slocks := sl\<rparr>) = lock_held lk h"
  "lk \<noteq> lk' \<Longrightarrow> lock_held lk (hold lk' h) = lock_held lk h"
  "lock_held lk (hold lk h)"
  by (simp_all add: lock_free_def lock_held_def)

lemma not_held_if_free: "cpu_ok h \<Longrightarrow> lock_free lk h \<Longrightarrow> \<not> lock_held lk h"
  by (simp add: lock_free_def lock_held_def)

lemma hw_slocks_simps [simp]:
  "hw_slocks (cli_push h) = hw_slocks h" "hw_slocks (cli_pop h) = hw_slocks h"
  "hw_slocks (hold lk h) = hw_slocks h" "hw_slocks (unhold lk h) = hw_slocks h"
  "hw_cr3 (cli_push h) = hw_cr3 h" "hw_cr3 (hold lk h) = hw_cr3 h"
  by (simp_all add: cli_push_def cli_pop_def hold_def unhold_def set_lock_def)

lemma unhold_slocks [simp]: "unhold lk (h\<lparr>hw_slocks := sl\<rparr>) = (unhold lk h)\<lparr>hw_slocks := sl\<rparr>"
  and hold_slocks: "hold lk (h\<lparr>hw_slocks := sl\<rparr>) = (hold lk h)\<lparr>hw_slocks := sl\<rparr>"
  and cli_push_slocks: "cli_push (h\<lparr>hw_slocks := sl\<rparr>) = (cli_push h)\<lparr>hw_slocks := sl\<rparr>"
  by (simp_all add: unhold_def hold_def set_lock_def cli_pop_def cli_push_def)

section \<open>What the routines do\<close>

lemma not_if_push [simp]: "\<not> hw_if (cli_push h)" "\<not> hw_if (hold lk h)"
  by (simp_all add: cli_push_def hold_def set_lock_def)

lemma mycpu_exec [exec]: "cpu_ok (hw s) \<Longrightarrow> \<not> hw_if (hw s) \<Longrightarrow> mycpu env s = Ret (cpu_of (hw s)) env s"
  by (simp add: mycpu_def cpu_ok_cur)

lemma cpu_eta: "c_intena x = b \<Longrightarrow> x\<lparr>c_intena := b\<rparr> = x"
  by (cases x) simp

lemma spinlock_comm:
  "l\<lparr>lk_cpu := c, lk_locked := v\<rparr> = l\<lparr>lk_locked := v, lk_cpu := c\<rparr>"
  by simp

lemma pushcli_exec [exec]: "cpu_ok (hw s) \<Longrightarrow> pushcli env s = Ret () env (s\<lparr>hw := cli_push (hw s)\<rparr>)"
  by (erule cpu_okE)
    (simp add: pushcli_def cli_def mycpu_def upd_cpu_def cli_push_def cpu_eta exec)

lemma popcli_exec [exec]:
  "cpu_ok (hw s) \<Longrightarrow> 0 < c_ncli (hw_cpus (hw s) (cpu_of (hw s))) \<Longrightarrow>
    popcli env s = Ret () env (s\<lparr>hw := cli_pop (hw s)\<rparr>)"
  by (erule cpu_okE)
    (auto simp: popcli_def sti_def mycpu_def upd_cpu_def cli_pop_def cpu_of_def exec)

lemma ncli_push_pos [simp]:
  "cpu_ok h \<Longrightarrow> 0 < c_ncli (hw_cpus (cli_push h) (cpu_of h))"
  "cpu_ok h \<Longrightarrow> 0 < c_ncli (hw_cpus (hold lk h) (cpu_of h))"
  by (auto elim!: cpu_okE simp: cli_push_def hold_def set_lock_def)

lemma myproc_exec [exec]:
  "cpu_ok (hw s) \<Longrightarrow> myproc env s = Ret (c_proc (hw_cpus (hw s) (cpu_of (hw s)))) env s"
  by (simp add: myproc_def exec) (simp add: cli_push_def)

lemma holding_exec [exec]:
  "cpu_ok (hw s) \<Longrightarrow> holding lk env s = Ret (lock_held lk (hw s)) env s"
  by (simp add: holding_def exec lock_held_def cpu_ok_cur)

lemma acquire_exec [exec]:
  assumes "cpu_ok (hw s)" and "lock_free lk (hw s)"
  shows "acquire lk env s = Ret () env (s\<lparr>hw := hold lk (hw s)\<rparr>)"
proof -
  let ?s = "s\<lparr>hw := cli_push (hw s)\<rparr>"
  have free: "lock_free lk (hw ?s)" using assms by simp
  then have spin: "acquire_spin lk env ?s = Ret () env (upd_lock lk (\<lambda>l. l\<lparr>lk_locked := 1\<rparr>) ?s)"
    by (subst acquire_spin.simps) (simp add: lock_free_def Let_def)
  have "hw (upd_lock lk (\<lambda>l. l\<lparr>lk_locked := 1\<rparr>) ?s) = 
      (cli_push (hw s))\<lparr>hw_locks := (hw_locks (hw s))(lk := (hw_locks (hw s) lk)\<lparr>lk_locked := 1\<rparr>)\<rparr>"
    by (simp add: upd_lock_def)
  then show ?thesis
    using assms free
    by (simp add: acquire_def exec spin not_held_if_free)
      (simp add: upd_lock_def hold_def set_lock_def cpu_ok_cur)
qed

lemma acquire_held:
  "cpu_ok (hw s) \<Longrightarrow> lock_held lk (hw s) \<Longrightarrow> acquire lk env s = Panic ''acquire''"
  by (simp add: acquire_def exec)

lemma release_exec [exec]:
  assumes "cpu_ok (hw s)" and "lock_held lk (hw s)"
    and "0 < c_ncli (hw_cpus (hw s) (cpu_of (hw s)))"
  shows "release lk env s = Ret () env (s\<lparr>hw := unhold lk (hw s)\<rparr>)"
proof -
  let ?s = "upd_lock lk (\<lambda>l. l\<lparr>lk_locked := 0\<rparr>) (upd_lock lk (\<lambda>l. l\<lparr>lk_cpu := None\<rparr>) s)"
  have h: "hw ?s = set_lock lk 0 None (hw s)"
    by (simp add: upd_lock_def set_lock_def spinlock_comm)
  have "popcli env ?s = Ret () env (?s\<lparr>hw := cli_pop (set_lock lk 0 None (hw s))\<rparr>)"
    using assms by (subst popcli_exec) (simp_all add: h, simp add: set_lock_def)
  with assms show ?thesis
    by (simp add: release_def exec unhold_def) (simp add: upd_lock_def)
qed

lemma release_not_held:
  "cpu_ok (hw s) \<Longrightarrow> \<not> lock_held lk (hw s) \<Longrightarrow> release lk env s = Panic ''release''"
  by (simp add: release_def exec)

lemmas lock_simps = cpu_ok_hold unhold_hold lock_free_simps hw_slocks_simps

text \<open>A critical section of the form: acquire, change other data, release.\<close>

lemma release_hold [exec]:
  assumes "hw s' = hold lk h" and "cpu_ok h" and "lock_free lk h"
  shows "release lk env s' = Ret () env (s'\<lparr>hw := h\<rparr>)"
  using assms by (simp add: exec)

lemma boot_cpu [simp]: "cur_cpu boot_hw = Some 0" "cpu_of boot_hw = 0" "cpu_ok boot_hw" "lock_free lk boot_hw"
  by (simp_all add: boot_hw_def cur_cpu_def cpu_of_def cpu_ok_def lock_free_def zero_cpu_def upt_rec)

section \<open>The lock among several CPUs\<close>

text \<open>
  One lock and any number of CPUs that run \<open>acquire\<close> and \<open>release\<close>, an action for
  every access to the lock's fields: the test with \<open>holding\<close>, each \<^verbatim>\<open>xchg\<close>, the
  write of \<^verbatim>\<open>lk->cpu\<close> on either side of the critical section and the final write of
  \<^verbatim>\<open>lk->locked\<close>. A CPU whose test fails panics and does nothing more.
\<close>

datatype lock_pc = Outside | Spinning | Got | Critical | Leaving | Panicked

record lock_sys =
  ls_locked :: uint
  ls_cpu :: "nat option"
  ls_pc :: "nat \<Rightarrow> lock_pc"

definition ls_holding :: "nat \<Rightarrow> lock_sys \<Rightarrow> bool" where
  "ls_holding i s \<longleftrightarrow> ls_locked s \<noteq> 0 \<and> ls_cpu s = Some i"

inductive lock_act :: "lock_sys \<Rightarrow> lock_sys \<Rightarrow> bool" where
  acquire_test: "ls_pc s i = Outside \<Longrightarrow>
     lock_act s (s\<lparr>ls_pc := (ls_pc s)(i := if ls_holding i s then Panicked else Spinning)\<rparr>)"
| acquire_xchg: "ls_pc s i = Spinning \<Longrightarrow>
     lock_act s (s\<lparr>ls_locked := 1, ls_pc := (ls_pc s)(i := if ls_locked s = 0 then Got else Spinning)\<rparr>)"
| acquire_cpu: "ls_pc s i = Got \<Longrightarrow>
     lock_act s (s\<lparr>ls_cpu := Some i, ls_pc := (ls_pc s)(i := Critical)\<rparr>)"
| release_test: "ls_pc s i = Critical \<Longrightarrow> \<not> ls_holding i s \<Longrightarrow>
     lock_act s (s\<lparr>ls_pc := (ls_pc s)(i := Panicked)\<rparr>)"
| release_cpu: "ls_pc s i = Critical \<Longrightarrow> ls_holding i s \<Longrightarrow>
     lock_act s (s\<lparr>ls_cpu := None, ls_pc := (ls_pc s)(i := Leaving)\<rparr>)"
| release_unlock: "ls_pc s i = Leaving \<Longrightarrow>
     lock_act s (s\<lparr>ls_locked := 0, ls_pc := (ls_pc s)(i := Outside)\<rparr>)"

definition lock_init :: "lock_sys \<Rightarrow> bool" where
  "lock_init s \<longleftrightarrow> ls_locked s = 0 \<and> ls_cpu s = None \<and> (\<forall>i. ls_pc s i = Outside)"

definition lock_owner :: "lock_pc \<Rightarrow> bool" where
  "lock_owner pc \<longleftrightarrow> pc = Got \<or> pc = Critical \<or> pc = Leaving"

definition lock_inv :: "lock_sys \<Rightarrow> bool" where
  "lock_inv s \<longleftrightarrow>
     (\<forall>i j. lock_owner (ls_pc s i) \<longrightarrow> lock_owner (ls_pc s j) \<longrightarrow> i = j)
   \<and> (\<forall>i. lock_owner (ls_pc s i) \<longrightarrow> ls_locked s \<noteq> 0)
   \<and> (\<forall>i. ls_cpu s = Some i \<longleftrightarrow> ls_pc s i = Critical)
   \<and> (\<forall>i. ls_pc s i \<noteq> Panicked)"

interpretation spin: machine lock_init lock_act lock_inv
proof
  show "lock_inv s" if "lock_init s" for s
    using that by (simp add: lock_init_def lock_inv_def lock_owner_def)
  show "lock_inv t" if "lock_inv s" "lock_act s t" for s t
    using that(2,1)
    by (induction rule: lock_act.induct)
      (auto simp: lock_inv_def lock_owner_def ls_holding_def split: if_splits)
qed

section \<open>Properties\<close>

text \<open>C1: However the CPUs interleave their accesses to a spin lock, at most one of them is in
  the critical section, \<^verbatim>\<open>lk->locked\<close> is set while one is, \<^verbatim>\<open>holding\<close> tells exactly
  that CPU that it has the lock, and the checks in \<^verbatim>\<open>acquire\<close> and \<^verbatim>\<open>release\<close> never
  panic.\<close>

theorem spinlock_mutual_exclusion:
  assumes "reachable lock_init lock_act s"
  shows "(ls_pc s i = Critical \<longrightarrow> ls_pc s j = Critical \<longrightarrow> i = j) \<and>
     (ls_holding i s \<longleftrightarrow> ls_pc s i = Critical) \<and> ls_pc s i \<noteq> Panicked"
proof -
  have "lock_inv s" by (rule spin.reachable_inv [OF assms])
  then show ?thesis
    by (auto simp: lock_inv_def lock_owner_def ls_holding_def)
qed

text \<open>Two CPUs: the first is in the critical section while the second spins.\<close>

lemma lock_race_reachable:
  "reachable lock_init lock_act
     \<lparr>ls_locked = 1, ls_cpu = Some 0, ls_pc = (\<lambda>_. Outside)(0 := Critical, 1 := Spinning)\<rparr>"
proof -
  let ?s0 = "\<lparr>ls_locked = 0, ls_cpu = None, ls_pc = (\<lambda>_. Outside)\<rparr>"
  have 0: "reachable lock_init lock_act ?s0"
    by (rule reachable.reach_init) (simp add: lock_init_def)
  have 1: "reachable lock_init lock_act (?s0\<lparr>ls_pc := (\<lambda>_. Outside)(0 := Spinning)\<rparr>)"
    using reachable.reach_step [OF 0 lock_act.acquire_test [of ?s0 0]] by (simp add: ls_holding_def)
  have 2: "reachable lock_init lock_act (?s0\<lparr>ls_pc := (\<lambda>_. Outside)(0 := Spinning, 1 := Spinning)\<rparr>)"
    using reachable.reach_step [OF 1 lock_act.acquire_test [of _ 1]] by (simp add: ls_holding_def)
  have 3: "reachable lock_init lock_act
      (?s0\<lparr>ls_locked := 1, ls_pc := (\<lambda>_. Outside)(0 := Got, 1 := Spinning)\<rparr>)"
    using reachable.reach_step [OF 2 lock_act.acquire_xchg [of _ 0]] by (simp add: fun_upd_twist)
  show ?thesis
    using reachable.reach_step [OF 3 lock_act.acquire_cpu [of _ 0]] by (simp add: fun_upd_twist)
qed

theorem spinlock_mutual_exclusion_witness:
  "let s = \<lparr>ls_locked = 1, ls_cpu = Some 0, ls_pc = (\<lambda>_. Outside)(0 := Critical, 1 := Spinning)\<rparr>
   in ls_holding 0 s \<and> \<not> ls_holding 1 s"
  using spinlock_mutual_exclusion [OF lock_race_reachable, of 0 1]
    spinlock_mutual_exclusion [OF lock_race_reachable, of 1 0] by (simp add: Let_def)

text \<open>C2: A free lock is taken without waiting; while it is held interrupts are off, taking it
  again panics, and releasing it gives back the exact state of the CPU before
  \<^verbatim>\<open>acquire\<close>, the interrupt flag and the nesting count included. Releasing a lock that the
  CPU does not hold panics.\<close>

theorem acquire_release_restores:
  assumes "cpu_ok (hw s)" and "lock_free lk (hw s)"
  shows "\<exists>s'. acquire lk env s = Ret () env s' \<and> \<not> hw_if (hw s') \<and> lock_held lk (hw s') \<and>
     acquire lk env s' = Panic ''acquire'' \<and> release lk env s' = Ret () env s \<and>
     release lk env s = Panic ''release''"
  using assms
  by (intro exI [of _ "s\<lparr>hw := hold lk (hw s)\<rparr>"])
    (simp add: exec acquire_held release_not_held not_held_if_free)

theorem acquire_release_restores_witness:
  "\<exists>s'. acquire KmemLock [] boot_kernel = Ret () [] s' \<and> \<not> hw_if (hw s') \<and>
     release KmemLock [] s' = Ret () [] boot_kernel"
  using acquire_release_restores [of boot_kernel KmemLock "[]"] by auto

end
