(* ===== verification/Mmu.thy ===== *)
theory Mmu
  imports Kernel_State
begin

text \<open>
  The page and descriptor arithmetic of \<^verbatim>\<open>mmu.h\<close>: splitting a virtual address into
  directory index, table index and offset, rounding to pages, the bits of a page-table
  entry, and the segment and gate descriptors.
\<close>

section \<open>Addresses and pages\<close>

definition PTXSHIFT :: nat where "PTXSHIFT = 12"
definition PDXSHIFT :: nat where "PDXSHIFT = 22"
definition NPDENTRIES :: nat where "NPDENTRIES = 1024"

definition PDX :: "uint \<Rightarrow> uint" where
  "PDX va = drop_bit PDXSHIFT va AND 0x3FF"

definition PTX :: "uint \<Rightarrow> uint" where
  "PTX va = drop_bit PTXSHIFT va AND 0x3FF"

definition PGADDR :: "uint \<Rightarrow> uint \<Rightarrow> uint \<Rightarrow> uint" where
  "PGADDR d t off = push_bit PDXSHIFT d OR push_bit PTXSHIFT t OR off"

definition PGROUNDUP :: "uint \<Rightarrow> uint" where
  "PGROUNDUP sz = (sz + PGSIZE - 1) AND NOT (PGSIZE - 1)"

definition PGROUNDDOWN :: "uint \<Rightarrow> uint" where
  "PGROUNDDOWN a = a AND NOT (PGSIZE - 1)"

definition PTE_P :: uint where [param_defs]: "PTE_P = 0x001"
definition PTE_W :: uint where [param_defs]: "PTE_W = 0x002"
definition PTE_U :: uint where [param_defs]: "PTE_U = 0x004"

definition PTE_ADDR :: "uint \<Rightarrow> uint" where
  "PTE_ADDR pte = pte AND NOT 0xFFF"

definition PTE_FLAGS :: "uint \<Rightarrow> uint" where
  "PTE_FLAGS pte = pte AND 0xFFF"

definition page_off :: "uint \<Rightarrow> uint" where
  "page_off va = va AND 0xFFF"

section \<open>Segment and gate descriptors\<close>

definition STA_X :: "4 word" where "STA_X = 8"
definition STA_W :: "4 word" where "STA_W = 2"
definition STA_R :: "4 word" where "STA_R = 2"
definition STS_T32A :: "4 word" where "STS_T32A = 9"
definition STS_IG32 :: "4 word" where "STS_IG32 = 0xE"
definition STS_TG32 :: "4 word" where "STS_TG32 = 0xF"

definition SEG :: "4 word \<Rightarrow> uint \<Rightarrow> uint \<Rightarrow> 2 word \<Rightarrow> segdesc" where
  "SEG ty base lim dpl = \<lparr>sd_lim_15_0 = ucast (drop_bit 12 lim AND 0xffff),
     sd_base_15_0 = ucast (base AND 0xffff),
     sd_base_23_16 = ucast (drop_bit 16 base AND 0xff), sd_type = ty, sd_s = 1,
     sd_dpl = dpl, sd_p = 1, sd_lim_19_16 = ucast (drop_bit 28 lim), sd_avl = 0,
     sd_rsv1 = 0, sd_db = 1, sd_g = 1, sd_base_31_24 = ucast (drop_bit 24 base)\<rparr>"

definition SEG16 :: "4 word \<Rightarrow> uint \<Rightarrow> uint \<Rightarrow> 2 word \<Rightarrow> segdesc" where
  "SEG16 ty base lim dpl = \<lparr>sd_lim_15_0 = ucast (lim AND 0xffff),
     sd_base_15_0 = ucast (base AND 0xffff),
     sd_base_23_16 = ucast (drop_bit 16 base AND 0xff), sd_type = ty, sd_s = 1,
     sd_dpl = dpl, sd_p = 1, sd_lim_19_16 = ucast (drop_bit 16 lim), sd_avl = 0,
     sd_rsv1 = 0, sd_db = 1, sd_g = 0, sd_base_31_24 = ucast (drop_bit 24 base)\<rparr>"

definition SETGATE :: "bool \<Rightarrow> ushort \<Rightarrow> uint \<Rightarrow> 2 word \<Rightarrow> gatedesc" where
  "SETGATE istrap sel off d = \<lparr>gd_off_15_0 = ucast (off AND 0xffff), gd_cs = sel,
     gd_args = 0, gd_rsv1 = 0, gd_type = (if istrap then STS_TG32 else STS_IG32),
     gd_s = 0, gd_dpl = d, gd_p = 1, gd_off_31_16 = ucast (drop_bit 16 off)\<rparr>"

text \<open>What the processor reads back from a descriptor.\<close>

definition gate_offset :: "gatedesc \<Rightarrow> uint" where
  "gate_offset g = ucast (gd_off_15_0 g) OR push_bit 16 (ucast (gd_off_31_16 g))"

definition seg_base :: "segdesc \<Rightarrow> uint" where
  "seg_base d = ucast (sd_base_15_0 d) OR push_bit 16 (ucast (sd_base_23_16 d)) OR
     push_bit 24 (ucast (sd_base_31_24 d))"

section \<open>Lemmas\<close>

text \<open>Masks: what they keep, as numbers.\<close>

lemma unat_and_mask: "unat (x AND mask n :: 'i::len word) = unat x mod 2 ^ n"
  by (simp only: take_bit_eq_mask [symmetric] unsigned_take_bit_eq) (simp add: take_bit_eq_mod)

lemma unat_drop: "unat (drop_bit n x :: 'i::len word) = unat x div 2 ^ n"
  by (subst unat_drop_bit_eq) (simp only: drop_bit_eq_div)

lemma and_mask_plus_not: "(x AND NOT (mask n)) + (x AND mask n) = (x :: 'i::len word)"
proof -
  have "(x AND NOT (mask n)) + (x AND mask n) = (x AND NOT (mask n)) OR (x AND mask n)"
    by (rule disjunctive_add) (simp add: bit_simps)
  also have "\<dots> = x"
    by (rule bit_word_eqI) (auto simp: bit_simps)
  finally show ?thesis .
qed

lemma unat_and_not_mask: "unat (x AND NOT (mask n) :: 'i::len word) = unat x - unat x mod 2 ^ n"
proof -
  have "x AND NOT (mask n) = x - (x AND mask n)"
    using and_mask_plus_not [of x n] by (simp add: eq_diff_eq)
  moreover have "x AND mask n \<le> x"
    by (simp add: word_le_nat_alt unat_and_mask)
  ultimately show ?thesis
    by (simp add: unat_sub unat_and_mask)
qed

lemma not_bit_ge: "unat x < 2 ^ k \<Longrightarrow> k \<le> n \<Longrightarrow> \<not> bit x n" for x :: "'i::len word"
proof
  assume x: "unat x < 2 ^ k" "k \<le> n" and "bit x n"
  from \<open>bit x n\<close> have "bit (unat x) n"
    by (simp add: bit_unsigned_iff)
  moreover have "unat x < 2 ^ n"
    using x by (meson less_le_trans one_le_numeral power_increasing)
  ultimately show False
    by (simp add: bit_iff_odd)
qed

text \<open>Bit fields that do not overlap: joining them is adding them.\<close>

lemma or_eq_plus:
  "unat y < 2 ^ k \<Longrightarrow> push_bit k x OR y = push_bit k x + y" for x y :: "'i::len word"
  by (rule disjunctive_add [symmetric])
    (use not_bit_ge [of y k] in \<open>auto simp: bit_simps not_le\<close>)

lemma PGSIZE_mask: "PGSIZE - 1 = (mask 12 :: uint)"
  by (simp add: PGSIZE_def mask_eq_exp_minus_1)

lemma hex_masks:
  "(0x3FF :: uint) = mask 10" "(0xFFF :: uint) = mask 12" "(0xffff :: uint) = mask 16"
  "(0xff :: uint) = mask 8"
  by (simp_all add: mask_eq_exp_minus_1)

lemma gate_offset_SETGATE: "gate_offset (SETGATE istrap sel off d) = off"
  by (rule bit_word_eqI)
    (auto simp: gate_offset_def SETGATE_def hex_masks bit_simps not_less
      dest: bit_imp_le_length)

lemma seg_base_SEG: "seg_base (SEG ty base lim dpl) = base"
proof (rule bit_word_eqI)
  fix n assume "n < LENGTH(32)"
  then consider "n < 16" | "16 \<le> n" "n < 24" | "24 \<le> n" "n < 32"
    by fastforce
  then show "bit (seg_base (SEG ty base lim dpl)) n = bit base n"
    by cases (auto simp: seg_base_def SEG_def hex_masks bit_simps)
qed

lemma unat_less_2p32: "unat (x :: uint) < 4294967296"
  using unsigned_less [of x, where 'a = nat] by simp

lemma unat_PDX: "unat (PDX va) = unat va div 2 ^ 22"
proof -
  have "unat va div 2 ^ 22 < 1024"
    using unat_less_2p32 [of va] by (simp add: less_mult_imp_div_less)
  then show ?thesis
    by (simp add: PDX_def PDXSHIFT_def hex_masks unat_and_mask unat_drop)
qed

lemma unat_PTX: "unat (PTX va) = unat va div 4096 mod 1024"
  by (simp add: PTX_def PTXSHIFT_def hex_masks unat_and_mask unat_drop)

lemma unat_page_off: "unat (page_off va) = unat va mod 4096"
  by (simp add: page_off_def hex_masks unat_and_mask)

lemma unat_PGROUNDDOWN: "unat (PGROUNDDOWN a) = unat a div 4096 * 4096"
  by (simp add: PGROUNDDOWN_def PGSIZE_mask unat_and_not_mask minus_mod_eq_div_mult)

lemma unat_PTE_ADDR: "unat (PTE_ADDR pte) = unat pte div 4096 * 4096"
  by (simp add: PTE_ADDR_def hex_masks unat_and_not_mask minus_mod_eq_div_mult)

lemma unat_PTE_FLAGS: "unat (PTE_FLAGS pte) = unat pte mod 4096"
  by (simp add: PTE_FLAGS_def hex_masks unat_and_mask)

lemma unat_PGROUNDUP:
  assumes "unat sz + 4095 < 4294967296"
  shows "unat (PGROUNDUP sz) = (unat sz + 4095) div 4096 * 4096"
proof -
  have "unat (sz + PGSIZE - 1) = unat sz + 4095"
    using assms by (simp add: PGSIZE_def unat_word_ariths)
  then show ?thesis
    unfolding PGROUNDUP_def PGSIZE_mask unat_and_not_mask by (simp add: minus_mod_eq_div_mult)
qed

lemmas page_unats = unat_PDX unat_PTX unat_page_off unat_PGROUNDDOWN unat_PTE_ADDR
  unat_PTE_FLAGS

lemma PDX_less: "unat (PDX va) < 1024"
  using unat_less_2p32 [of va] by (simp add: unat_PDX less_mult_imp_div_less)

lemma PTX_less: "unat (PTX va) < 1024"
  by (simp add: unat_PTX)

lemma PGROUNDDOWN_plus_off: "PGROUNDDOWN va + page_off va = va"
  by (simp add: PGROUNDDOWN_def page_off_def PGSIZE_mask hex_masks and_mask_plus_not)

lemma PGROUNDDOWN_le: "PGROUNDDOWN va \<le> va"
  by (simp add: word_le_nat_alt unat_PGROUNDDOWN)

text \<open>Rounding up gives the least page boundary at or above, unless it wraps around.\<close>

lemma PGROUNDUP_bounds:
  assumes "unat sz + 4095 < 4294967296"
  shows "unat sz \<le> unat (PGROUNDUP sz)" and "unat (PGROUNDUP sz) < unat sz + 4096"
    and "4096 dvd unat (PGROUNDUP sz)"
  unfolding unat_PGROUNDUP [OF assms] by (linarith, linarith, simp)

lemma unat_PGADDR:
  assumes "unat d < 1024" and "unat t < 1024" and "unat off < 4096"
  shows "unat (PGADDR d t off) = unat d * 2 ^ 22 + unat t * 4096 + unat off"
proof -
  have d: "unat (push_bit 22 d) = unat d * 2 ^ 22"
    using assms(1) by (simp add: push_bit_eq_mult unat_word_ariths mod_less)
  have t: "unat (push_bit 12 t) = unat t * 4096"
    using assms(2) by (simp add: push_bit_eq_mult unat_word_ariths mod_less)
  have low: "push_bit 12 t OR off = push_bit 12 t + off"
    using assms(3) by (intro or_eq_plus) simp
  have low': "unat (push_bit 12 t + off) = unat t * 4096 + unat off"
    using assms(2,3) t by (simp add: unat_word_ariths)
  have "PGADDR d t off = push_bit 22 d + (push_bit 12 t + off)"
    using assms(2,3) low low'
    by (simp add: PGADDR_def PDXSHIFT_def PTXSHIFT_def or_eq_plus)
  then show ?thesis
    using assms d low' by (simp add: unat_word_ariths)
qed

lemma PGADDR_parts: "PGADDR (PDX va) (PTX va) (page_off va) = va"
proof -
  have "unat (PGADDR (PDX va) (PTX va) (page_off va)) =
      unat va div 2 ^ 22 * 2 ^ 22 + unat va div 4096 mod 1024 * 4096 + unat va mod 4096"
    using PDX_less [of va] PTX_less [of va]
    by (subst unat_PGADDR) (simp_all add: page_unats)
  also have "\<dots> = unat va"
  proof -
    have "unat va div 2 ^ 22 = unat va div 4096 div 1024"
      by (simp add: div_mult2_eq [symmetric])
    moreover have "q div 1024 * 2 ^ 22 + q mod 1024 * 4096 = q * 4096" for q :: nat
    proof -
      have "q * 4096 = (q div 1024 * 1024 + q mod 1024) * 4096"
        by (simp only: div_mult_mod_eq)
      then show ?thesis by (simp only: distrib_right mult.assoc) simp
    qed
    ultimately show ?thesis
      using div_mult_mod_eq [of "unat va" 4096] by simp
  qed
  finally show ?thesis by (simp add: word_unat_eq_iff)
qed

lemma PGADDR_unique:
  assumes "unat d < 1024" and "unat t < 1024" and "unat off < 4096"
  shows "PDX (PGADDR d t off) = d" and "PTX (PGADDR d t off) = t"
    and "page_off (PGADDR d t off) = off"
proof -
  have eq: "unat (PGADDR d t off) = unat off + 4096 * (unat t + 1024 * unat d)"
    using unat_PGADDR [OF assms] by simp
  have q: "unat (PGADDR d t off) div 4096 = unat t + 1024 * unat d"
    using assms(3) unfolding eq by (simp only: div_mult_self2)
  have r: "unat (PGADDR d t off) mod 4096 = unat off"
    using assms(3) unfolding eq by (simp only: mod_mult_self2 mod_less)
  have "m div 2 ^ 22 = m div 4096 div 1024" for m :: nat
    by (simp add: div_mult2_eq [symmetric])
  then show "PDX (PGADDR d t off) = d" "PTX (PGADDR d t off) = t"
    "page_off (PGADDR d t off) = off"
    using assms by (simp_all add: word_unat_eq_iff page_unats q r)
qed

text \<open>Two addresses in the same page of the same table are the same up to the offset.\<close>

lemma same_page_iff:
  "PDX a = PDX b \<and> PTX a = PTX b \<longleftrightarrow> PGROUNDDOWN a = PGROUNDDOWN b"
proof -
  have *: "m div 4194304 = m div 4096 div 1024" for m :: nat
    by (simp add: div_mult2_eq [symmetric])
  show ?thesis
    unfolding word_unat_eq_iff page_unats
    by (auto simp: *) (metis div_mult_mod_eq)
qed

lemma PGROUNDUP_aligned: "unat (PGROUNDUP a) mod 4096 = 0"
  unfolding PGROUNDUP_def PGSIZE_mask unat_and_not_mask by (simp add: minus_mod_eq_div_mult)

lemma PGROUNDDOWN_aligned: "unat (PGROUNDDOWN a) mod 4096 = 0"
  unfolding PGROUNDDOWN_def PGSIZE_mask unat_and_not_mask by (simp add: minus_mod_eq_div_mult)

end
