(* ===== verification/Strings.thy ===== *)
theory Strings
  imports Kernel_State
begin

text \<open>
  The byte and string routines of \<^verbatim>\<open>string.c\<close>. The memory routines work on the
  machine's byte memory and keep the order in which the code writes, since the source and
  the destination may overlap. The string routines read a C string given by its bytes up
  to the terminating zero and write into an array indexed from zero.
\<close>

section \<open>Memory\<close>

fun stosb :: "'i::len bytes \<Rightarrow> 'i word \<Rightarrow> uchar \<Rightarrow> nat \<Rightarrow> 'i bytes" where
  "stosb m a c 0 = m"
| "stosb m a c (Suc n) = stosb (m(a := c)) (a + 1) c n"

fun stosl :: "'i::len bytes \<Rightarrow> 'i word \<Rightarrow> uint \<Rightarrow> nat \<Rightarrow> 'i bytes" where
  "stosl m a v 0 = m"
| "stosl m a v (Suc n) = stosl (store32 m a v) (a + 4) v n"

definition memset :: "'i::len bytes \<Rightarrow> 'i word \<Rightarrow> cint \<Rightarrow> uint \<Rightarrow> 'i bytes" where
  "memset m dst c n =
    (if sint dst mod 4 = 0 \<and> unat n mod 4 = 0
     then let c = c AND 0xFF
          in stosl m dst (push_bit 24 c OR push_bit 16 c OR push_bit 8 c OR c) (unat n div 4)
     else stosb m dst (ucast c) (unat n))"

fun memcmp :: "'i::len bytes \<Rightarrow> 'i word \<Rightarrow> 'i word \<Rightarrow> nat \<Rightarrow> int" where
  "memcmp m s1 s2 0 = 0"
| "memcmp m s1 s2 (Suc n) =
     (if m s1 \<noteq> m s2 then uint (m s1) - uint (m s2) else memcmp m (s1 + 1) (s2 + 1) n)"

fun copy_up :: "'i::len bytes \<Rightarrow> 'i word \<Rightarrow> 'i word \<Rightarrow> nat \<Rightarrow> 'i bytes" where
  "copy_up m d s 0 = m"
| "copy_up m d s (Suc n) = copy_up (m(d := m s)) (d + 1) (s + 1) n"

fun copy_down :: "'i::len bytes \<Rightarrow> 'i word \<Rightarrow> 'i word \<Rightarrow> nat \<Rightarrow> 'i bytes" where
  "copy_down m d s 0 = m"
| "copy_down m d s (Suc n) = copy_down (m(d - 1 := m (s - 1))) (d - 1) (s - 1) n"

definition memmove :: "'i::len bytes \<Rightarrow> 'i word \<Rightarrow> 'i word \<Rightarrow> nat \<Rightarrow> 'i bytes" where
  "memmove m dst src n =
    (if src < dst \<and> src + of_nat n > dst
     then copy_down m (dst + of_nat n) (src + of_nat n) n
     else copy_up m dst src n)"

section \<open>Strings\<close>

definition cchar :: "uchar list \<Rightarrow> uchar" where
  \<comment> \<open>the byte a string pointer points to: its first byte, or the terminating zero\<close>
  "cchar t = (case t of [] \<Rightarrow> 0 | c # _ \<Rightarrow> c)"

fun strncmp :: "uchar list \<Rightarrow> uchar list \<Rightarrow> nat \<Rightarrow> int" where
  "strncmp p q 0 = 0"
| "strncmp p q (Suc n) =
     (if cchar p \<noteq> 0 \<and> cchar p = cchar q then strncmp (tl p) (tl q) n
      else uint (cchar p) - uint (cchar q))"

fun zero_fill :: "(nat \<Rightarrow> uchar) \<Rightarrow> nat \<Rightarrow> nat \<Rightarrow> nat \<Rightarrow> uchar" where
  "zero_fill s i 0 = s"
| "zero_fill s i (Suc n) = zero_fill (s(i := 0)) (Suc i) n"

fun strncpy_from :: "(nat \<Rightarrow> uchar) \<Rightarrow> nat \<Rightarrow> uchar list \<Rightarrow> nat \<Rightarrow> nat \<Rightarrow> uchar" where
  "strncpy_from s i t 0 = s"
| "strncpy_from s i t (Suc n) =
     (let s' = s(i := cchar t) in
      if cchar t \<noteq> 0 then strncpy_from s' (Suc i) (tl t) n else zero_fill s' (Suc i) n)"

definition strncpy :: "(nat \<Rightarrow> uchar) \<Rightarrow> uchar list \<Rightarrow> int \<Rightarrow> nat \<Rightarrow> uchar" where
  "strncpy s t n = strncpy_from s 0 t (nat n)"

fun safestrcpy_from :: "(nat \<Rightarrow> uchar) \<Rightarrow> nat \<Rightarrow> uchar list \<Rightarrow> nat \<Rightarrow> nat \<Rightarrow> uchar" where
  "safestrcpy_from s i t 0 = s(i := 0)"
| "safestrcpy_from s i t (Suc k) =
     (let s' = s(i := cchar t) in
      if cchar t \<noteq> 0 then safestrcpy_from s' (Suc i) (tl t) k else s'(Suc i := 0))"

definition safestrcpy :: "(nat \<Rightarrow> uchar) \<Rightarrow> uchar list \<Rightarrow> int \<Rightarrow> nat \<Rightarrow> uchar" where
  "safestrcpy s t n = (if n \<le> 0 then s else safestrcpy_from s 0 t (nat n - 1))"

text \<open>The loop of \<^verbatim>\<open>strlen\<close> ends only if there is a zero byte to find.\<close>

partial_function (option) strlen_from :: "'i::len bytes \<Rightarrow> 'i word \<Rightarrow> nat \<Rightarrow> nat option" where
  "strlen_from m s n = (if m (s + of_nat n) = 0 then Some n else strlen_from m s (Suc n))"

definition strlen :: "'i::len bytes \<Rightarrow> 'i word \<Rightarrow> nat option" where
  "strlen m s = strlen_from m s 0"

section \<open>What the memory routines do\<close>

lemma write_bytes_Cons:
  fixes a :: "'i::len word"
  assumes "Suc (length bs) \<le> 2 ^ LENGTH('i)"
  shows "write_bytes m a (b # bs) = write_bytes (m(a := b)) (a + 1) bs"
proof (rule ext)
  fix x
  show "write_bytes m a (b # bs) x = write_bytes (m(a := b)) (a + 1) bs x"
  proof (cases "x = a")
    case True
    have "unat (- 1 :: 'i word) = 2 ^ LENGTH('i) - 1"
      by (simp add: unsigned_minus_1_eq_mask mask_eq_exp_minus_1)
    then show ?thesis using True assms by (auto simp: write_bytes_def)
  next
    case False
    then have "unat (x - (a + 1)) = unat (x - a) - 1" and "0 < unat (x - a)"
      using unat_minus_one [of "x - a"] by (simp_all add: diff_diff_eq unat_gt_0)
    with False show ?thesis by (cases "unat (x - a)") (simp_all add: write_bytes_def)
  qed
qed

lemma write_bytes_append:
  fixes a :: "'i::len word"
  shows "length xs + length ys \<le> 2 ^ LENGTH('i) \<Longrightarrow>
    write_bytes m a (xs @ ys) = write_bytes (write_bytes m a xs) (a + of_nat (length xs)) ys"
  by (induction xs arbitrary: m a) (simp_all add: write_bytes_Cons algebra_simps)

lemma stosb_eq:
  fixes a :: "'i::len word"
  shows "n \<le> 2 ^ LENGTH('i) \<Longrightarrow> stosb m a c n = write_bytes m a (replicate n c)"
  by (induction n arbitrary: m a) (simp_all add: write_bytes_Cons)

definition splat :: "cint \<Rightarrow> uint" where
  "splat c = push_bit 24 (c AND 0xFF) OR push_bit 16 (c AND 0xFF) OR
     push_bit 8 (c AND 0xFF) OR (c AND 0xFF)"

lemma replicate_4: "replicate 4 x = [x, x, x, x]"
  by (simp add: numeral_eq_Suc)

lemma le_bytes32_splat: "le_bytes32 (splat c) = replicate 4 (ucast c)"
proof -
  have FF: "(0xFF :: uint) = mask 8" by (simp add: mask_eq_exp_minus_1)
  show ?thesis
    unfolding le_bytes32_def splat_def FF replicate_4
    by (auto intro!: bit_word_eqI) (auto simp: bit_simps)
qed

lemma stosl_eq:
  fixes a :: "'i::len word"
  shows "4 * n \<le> 2 ^ LENGTH('i) \<Longrightarrow>
    stosl m a (splat c) n = write_bytes m a (replicate (4 * n) (ucast c))"
proof (induction n arbitrary: m a)
  case 0
  then show ?case by simp
next
  case (Suc n)
  have "replicate (4 * Suc n) (ucast c :: uchar) = replicate 4 (ucast c) @ replicate (4 * n) (ucast c)"
    by (simp add: replicate_add [symmetric] del: replicate_add)
  with Suc show ?case
    by (simp add: store32_def le_bytes32_splat write_bytes_append)
qed

lemma memset_eq:
  fixes m :: "32 bytes"
  shows "memset m dst c n = write_bytes m dst (replicate (unat n) (ucast c))"
proof -
  have n: "unat n < 2 ^ 32" using unsigned_less [of n, where 'a = nat] by simp
  show ?thesis
  proof (cases "sint dst mod 4 = 0 \<and> unat n mod 4 = 0")
    case True
    then have "4 * (unat n div 4) = unat n" by (simp add: mod_0_imp_dvd)
    with True n show ?thesis
      using stosl_eq [of "unat n div 4" m dst c]
      by (simp add: memset_def splat_def Let_def)
  next
    case False
    then show ?thesis using n by (auto simp: memset_def stosb_eq)
  qed
qed

text \<open>Addresses that do not wrap around behave as numbers.\<close>

lemma unat_plus_of_nat:
  fixes a :: "'i::len word"
  shows "unat a + k < 2 ^ LENGTH('i) \<Longrightarrow> unat (a + of_nat k) = unat a + k"
  by (simp add: unat_word_ariths unat_of_nat)

lemma in_run_unat:
  fixes a :: "'i::len word"
  assumes "unat a + n \<le> 2 ^ LENGTH('i)"
  shows "in_run a n x \<longleftrightarrow> unat a \<le> unat x \<and> unat x < unat a + n"
proof
  assume "in_run a n x"
  then obtain i where "i < n" "x = a + of_nat i" by (auto simp: in_run_iff)
  with assms show "unat a \<le> unat x \<and> unat x < unat a + n"
    by (simp add: unat_plus_of_nat)
next
  assume "unat a \<le> unat x \<and> unat x < unat a + n"
  then show "in_run a n x"
    by (auto simp: in_run_def unat_sub word_le_nat_alt)
qed

lemma disjoint_runs_unat:
  fixes a b :: "'i::len word"
  assumes "unat a + n \<le> unat b \<or> unat b + k \<le> unat a"
    and "unat a + n \<le> 2 ^ LENGTH('i)" and "unat b + k \<le> 2 ^ LENGTH('i)"
  shows "disjoint_runs a n b k"
  using assms by (auto simp: disjoint_runs_iff in_run_unat)

text \<open>Copying upwards is right when the destination does not start inside the source.\<close>

lemma copy_up_eq:
  fixes d s :: "'i::len word"
  shows "unat d + n \<le> 2 ^ LENGTH('i) \<Longrightarrow> unat s + n \<le> 2 ^ LENGTH('i) \<Longrightarrow>
    unat d \<le> unat s \<or> unat s + n \<le> unat d \<Longrightarrow>
    copy_up m d s n = write_bytes m d (read_bytes m s n)"
proof (induction n arbitrary: m d s)
  case 0
  then show ?case by (simp add: read_bytes_def)
next
  case (Suc n)
  have read: "read_bytes m s (Suc n) = m s # read_bytes m (s + 1) n"
    using read_bytes_append [of m s 1 n] by (simp add: read_bytes_def)
  show ?case
  proof (cases n)
    case 0
    with Suc.prems show ?thesis by (simp add: write_bytes_Cons read_bytes_def)
  next
    case (Suc k)
    then have d1: "unat (d + 1) = unat d + 1" and s1: "unat (s + 1) = unat s + 1"
      using Suc.prems unat_plus_of_nat [of d 1] unat_plus_of_nat [of s 1] by auto
    have keep: "read_bytes (m(d := m s)) (s + 1) n = read_bytes m (s + 1) n"
    proof (rule read_bytes_cong)
      fix x assume "in_run (s + 1) n x"
      then have "x \<noteq> d" using Suc.prems s1 by (auto simp: in_run_unat)
      then show "(m(d := m s)) x = m x" by simp
    qed
    have "copy_up (m(d := m s)) (d + 1) (s + 1) n =
        write_bytes (m(d := m s)) (d + 1) (read_bytes (m(d := m s)) (s + 1) n)"
      by (rule Suc.IH) (use Suc.prems d1 s1 in auto)
    with Suc.prems show ?thesis by (simp add: keep read write_bytes_Cons)
  qed
qed

lemma write_bytes_snoc:
  fixes d :: "'i::len word"
  assumes "length bs < 2 ^ LENGTH('i)"
  shows "write_bytes (m(d + of_nat (length bs) := b)) d bs = write_bytes m d (bs @ [b])"
proof (rule ext)
  fix x
  have "x = d + of_nat (unat (x - d))" by simp
  then show "write_bytes (m(d + of_nat (length bs) := b)) d bs x = write_bytes m d (bs @ [b]) x"
    using assms by (cases "unat (x - d) = length bs")
      (auto simp: write_bytes_def nth_append unat_of_nat_small)
qed

text \<open>Copying downwards is right when the destination lies above the source.\<close>

lemma copy_down_eq:
  fixes d s :: "'i::len word"
  shows "unat s < unat d \<Longrightarrow> unat d + n \<le> 2 ^ LENGTH('i) \<Longrightarrow>
    copy_down m (d + of_nat n) (s + of_nat n) n = write_bytes m d (read_bytes m s n)"
proof (induction n arbitrary: m)
  case 0
  then show ?case by (simp add: read_bytes_def)
next
  case (Suc n)
  let ?m = "m(d + of_nat n := m (s + of_nat n))"
  have keep: "read_bytes ?m s n = read_bytes m s n"
  proof (rule read_bytes_cong)
    fix x assume "in_run s n x"
    then have "unat x < unat s + n" using Suc.prems by (simp add: in_run_unat)
    moreover have "unat (d + of_nat n) = unat d + n"
      using Suc.prems by (simp add: unat_plus_of_nat)
    ultimately have "x \<noteq> d + of_nat n" using Suc.prems(1) by auto
    then show "?m x = m x" by simp
  qed
  have "copy_down m (d + of_nat (Suc n)) (s + of_nat (Suc n)) (Suc n) =
      copy_down ?m (d + of_nat n) (s + of_nat n) n"
    by (simp add: algebra_simps)
  also have "\<dots> = write_bytes ?m d (read_bytes m s n)"
    using Suc.IH [of ?m] Suc.prems by (simp only: keep)
  also have "\<dots> = write_bytes m d (read_bytes m s n @ [m (s + of_nat n)])"
    using write_bytes_snoc [of "read_bytes m s n" m d "m (s + of_nat n)"] Suc.prems by simp
  also have "read_bytes m s n @ [m (s + of_nat n)] = read_bytes m s (Suc n)"
    by (simp add: read_bytes_def)
  finally show ?case .
qed

text \<open>
  \<^verbatim>\<open>memmove\<close> copies whatever the overlap, as long as neither range runs up to the end
  of the address space (there the test \<^verbatim>\<open>s + n > d\<close> would compare a wrapped pointer).
\<close>

lemma memmove_eq:
  fixes dst src :: "'i::len word"
  assumes "unat src + n < 2 ^ LENGTH('i)" and "unat dst + n \<le> 2 ^ LENGTH('i)"
  shows "memmove m dst src n = write_bytes m dst (read_bytes m src n)"
proof (cases "src < dst \<and> src + of_nat n > dst")
  case True
  then show ?thesis
    using assms by (simp add: memmove_def copy_down_eq word_less_nat_alt)
next
  case False
  then have "unat dst \<le> unat src \<or> unat src + n \<le> unat dst"
    using assms(1) by (auto simp: word_less_nat_alt unat_plus_of_nat not_less)
  then have "copy_up m dst src n = write_bytes m dst (read_bytes m src n)"
    using assms by (intro copy_up_eq) auto
  with False show ?thesis by (simp only: memmove_def if_False)
qed

lemma memcmp_zero_iff: "memcmp m a b n = 0 \<longleftrightarrow> read_bytes m a n = read_bytes m b n"
proof (induction n arbitrary: a b)
  case 0
  then show ?case by (simp add: read_bytes_def)
next
  case (Suc n)
  have "read_bytes m x (Suc n) = m x # read_bytes m (x + 1) n" for x
    using read_bytes_append [of m x 1 n] by (simp add: read_bytes_def)
  then show ?case by (simp add: Suc.IH word_uint_eq_iff)
qed

section \<open>What the string routines do\<close>

text \<open>The bytes of an array up to its first zero byte, within the first \<open>n\<close>.\<close>

definition cstring :: "(nat \<Rightarrow> uchar) \<Rightarrow> nat \<Rightarrow> uchar list" where
  "cstring s n = takeWhile (\<lambda>c. c \<noteq> 0) (map s [0..<n])"

lemma safestrcpy_from_outside:
  "j < i \<or> i + k < j \<Longrightarrow> safestrcpy_from s i t k j = s j"
  by (induction s i t k rule: safestrcpy_from.induct) (auto simp: Let_def)

lemma safestrcpy_from_nth:
  "0 \<notin> set t \<Longrightarrow> j < k \<Longrightarrow> j < length t \<Longrightarrow> safestrcpy_from s i t k (i + j) = t ! j"
proof (induction s i t k arbitrary: j rule: safestrcpy_from.induct)
  case (1 s i t)
  then show ?case by simp
next
  case (2 s i t k)
  then obtain c t' where t: "t = c # t'" by (cases t) auto
  show ?case
  proof (cases j)
    case 0
    with 2 t show ?thesis by (simp add: cchar_def safestrcpy_from_outside)
  next
    case (Suc j')
    with 2 t show ?thesis by (auto simp: cchar_def simp del: fun_upd_apply)
  qed
qed

lemma safestrcpy_from_end:
  "0 \<notin> set t \<Longrightarrow> safestrcpy_from s i t k (i + min k (length t)) = 0"
proof (induction s i t k rule: safestrcpy_from.induct)
  case (1 s i t)
  then show ?case by simp
next
  case (2 s i t k)
  then show ?case
  proof (cases t)
    case Nil
    then show ?thesis by (simp add: cchar_def)
  next
    case (Cons c t')
    with 2 show ?thesis by (auto simp: cchar_def simp del: fun_upd_apply)
  qed
qed

lemma strncpy_zero_fill: "zero_fill s i n j = (if i \<le> j \<and> j < i + n then 0 else s j)"
proof (induction n arbitrary: s i)
  case 0
  then show ?case by auto
next
  case (Suc n)
  show ?case unfolding zero_fill.simps Suc.IH by auto
qed

lemma strncpy_from_nth:
  "0 \<notin> set t \<Longrightarrow> strncpy_from s i t n j =
    (if i \<le> j \<and> j < i + n then (if j - i < length t then t ! (j - i) else 0) else s j)"
proof (induction n arbitrary: s i t)
  case 0
  then show ?case by auto
next
  case (Suc n)
  show ?case
  proof (cases t)
    case Nil
    then show ?thesis by (auto simp: cchar_def strncpy_zero_fill)
  next
    case (Cons c t')
    with Suc.prems have c: "cchar t = c" "c \<noteq> 0" "tl t = t'" "0 \<notin> set t'"
      by (auto simp: cchar_def)
    then have "strncpy_from s i t (Suc n) j = strncpy_from (s(i := c)) (Suc i) t' n j"
      by simp
    then show ?thesis
      unfolding Suc.IH [OF c(4)] using Cons by (auto simp: nth_Cons' Suc_le_eq)
  qed
qed

lemma strncmp_zero_iff:
  "0 \<notin> set p \<Longrightarrow> 0 \<notin> set q \<Longrightarrow> strncmp p q n = 0 \<longleftrightarrow> take n p = take n q"
proof (induction p q n rule: strncmp.induct)
  case (1 p q)
  then show ?case by simp
next
  case (2 p q n)
  show ?case
  proof (cases "cchar p \<noteq> 0 \<and> cchar p = cchar q")
    case True
    with 2 show ?thesis by (cases p; cases q) (auto simp: cchar_def)
  next
    case False
    with 2 show ?thesis by (cases p; cases q) (auto simp: cchar_def word_uint_eq_iff)
  qed
qed

lemma strlen_from_eq:
  "m (s + of_nat k) = 0 \<Longrightarrow> n \<le> k \<Longrightarrow> (\<And>i. n \<le> i \<Longrightarrow> i < k \<Longrightarrow> m (s + of_nat i) \<noteq> 0) \<Longrightarrow>
    strlen_from m s n = Some k"
proof (induction "k - n" arbitrary: n)
  case 0
  then show ?case by (simp add: strlen_from.simps [of m s n])
next
  case (Suc d)
  then have "m (s + of_nat n) \<noteq> 0" by auto
  moreover have "strlen_from m s (Suc n) = Some k"
    using Suc by auto
  ultimately show ?case by (simp add: strlen_from.simps [of m s n])
qed

section \<open>Properties\<close>

text \<open>C6: \<^verbatim>\<open>memmove\<close> copies the bytes the source held before the call, also when the two
  ranges overlap in either direction, and changes no byte outside the destination.\<close>

theorem memmove_moves:
  fixes dst src :: uint
  assumes "unat src + n < 2 ^ 32" and "unat dst + n \<le> 2 ^ 32"
  shows "read_bytes (memmove m dst src n) dst n = read_bytes m src n \<and>
    (\<forall>x. \<not> in_run dst n x \<longrightarrow> memmove m dst src n x = m x)"
proof -
  have eq: "memmove m dst src n = write_bytes m dst (read_bytes m src n)"
    using assms by (intro memmove_eq) simp_all
  have "n \<le> 2 ^ LENGTH(32)" using assms by simp
  then have "read_bytes (write_bytes m dst (read_bytes m src n)) dst n = read_bytes m src n"
    by (intro read_write_same) simp_all
  then show ?thesis
    unfolding eq by (simp add: write_bytes_outside)
qed

theorem memmove_moves_witness:
  "let m = (\<lambda>a. ucast a) :: 32 bytes in
     read_bytes (memmove m 0x1004 0x1000 6) 0x1004 6 = read_bytes m 0x1000 6"
  using memmove_moves [of "0x1000" 6 "0x1004" "\<lambda>a. ucast a"] by (simp add: Let_def)

text \<open>C7: \<^verbatim>\<open>safestrcpy\<close> always leaves a terminated string in the first \<open>n\<close> bytes of the
  destination, namely the source cut to \<open>n - 1\<close> bytes, and touches nothing after them.\<close>

theorem safestrcpy_string:
  assumes "0 < n" and "0 \<notin> set t"
  shows "cstring (safestrcpy s t n) (nat n) = take (nat n - 1) t \<and>
     (\<forall>j \<ge> nat n. safestrcpy s t n j = s j)"
proof -
  define k where "k = nat n - 1"
  then have n: "nat n = Suc k" and eq: "safestrcpy s t n = safestrcpy_from s 0 t k"
    using assms(1) by (auto simp: safestrcpy_def)
  have nth: "safestrcpy_from s 0 t k j = t ! j" if "j < min k (length t)" for j
    using that safestrcpy_from_nth [OF assms(2), of j k s 0] by simp
  have nul: "safestrcpy_from s 0 t k (min k (length t)) = 0"
    using safestrcpy_from_end [OF assms(2), of s 0 k] by simp
  have "map (safestrcpy_from s 0 t k) [0..<min k (length t)] = take k t"
    by (rule nth_equalityI) (auto simp: nth)
  moreover have "[0..<Suc k] = [0..<min k (length t)] @ [min k (length t)..<Suc k]"
    by (metis le0 le_Suc_eq min.cobounded1 upt_add_eq_append le_add_diff_inverse)
  ultimately have "map (safestrcpy_from s 0 t k) [0..<Suc k]
      = take k t @ map (safestrcpy_from s 0 t k) [min k (length t)..<Suc k]"
    by (metis map_append)
  moreover have "takeWhile (\<lambda>c. c \<noteq> 0) (map (safestrcpy_from s 0 t k) [min k (length t)..<Suc k]) = []"
    by (subst upt_conv_Cons) (auto simp: nul)
  moreover have "\<forall>x \<in> set (take k t). x \<noteq> 0"
    using assms(2) by (metis in_set_takeD)
  ultimately show ?thesis
    by (simp only: eq n cstring_def takeWhile_append2 append_Nil2 diff_Suc_1)
      (auto simp: safestrcpy_from_outside)
qed

theorem safestrcpy_string_witness:
  "cstring (safestrcpy (\<lambda>_. 7) [105, 110, 105, 116] 3) 3 = [105, 110] \<and>
     safestrcpy (\<lambda>_. 7) [105, 110, 105, 116] 3 3 = 7"
  using safestrcpy_string [of 3 "[105, 110, 105, 116]" "\<lambda>_. 7"] by simp

end
