(* ===== verification/Kalloc.thy ===== *)
theory Kalloc
  imports Locks Mmu Strings
begin

text \<open>
  The physical page allocator (\<^verbatim>\<open>kalloc.c\<close>). The free pages form a list that runs
  through the pages themselves: the first word of a free page holds the address of the
  next one. The locale \<open>page_allocator\<close> is what the rest of the kernel relies on.
\<close>

section \<open>The allocator\<close>

definition kfree :: "uint \<Rightarrow> unit kernel_op" where
  "kfree v =
     kbind (kget k_end) (\<lambda>end'.
     kthen (kassert (\<not> (unat v mod unat PGSIZE \<noteq> 0 \<or> v < end' \<or> V2P v \<ge> PHYSTOP)) ''kfree'') (
     kthen (kmod (\<lambda>s. s\<lparr>mem := memset (mem s) v 1 PGSIZE\<rparr>)) (
     kbind (kget use_lock) (\<lambda>ul.
     kthen (kwhen ul (acquire KmemLock)) (
     kthen (kmod (\<lambda>s. s\<lparr>mem := store32 (mem s) v (freelist s)\<rparr>)) (
     kthen (kmod (\<lambda>s. s\<lparr>freelist := v\<rparr>))
       (kwhen ul (release KmemLock))))))))"

definition kalloc :: "uint kernel_op" where
  "kalloc =
     kbind (kget use_lock) (\<lambda>ul.
     kthen (kwhen ul (acquire KmemLock)) (
     kbind (kget freelist) (\<lambda>r.
     kthen (kwhen (r \<noteq> 0) (kmod (\<lambda>s. s\<lparr>freelist := load32 (mem s) r\<rparr>))) (
     kthen (kwhen ul (release KmemLock))
       (kret r)))))"

text \<open>The addresses of pages the allocator manages.\<close>

definition page_ok :: "kernel \<Rightarrow> uint \<Rightarrow> bool" where
  "page_ok s p \<longleftrightarrow> unat p mod unat PGSIZE = 0 \<and> k_end s \<le> p \<and> V2P p < PHYSTOP"

lemma phys_bounds:
  assumes "V2P v < PHYSTOP"
  shows "unat KERNBASE \<le> unat v" and "unat v < 0x8E000000"
proof -
  have "unat (V2P v) < 0xE000000"
    using assms by (simp add: word_less_nat_alt PHYSTOP_def)
  moreover have "unat v = (unat (V2P v) + 0x80000000) mod 2 ^ 32"
    by (subst P2V_V2P [of v, symmetric]) (simp only: P2V_def KERNBASE_def unat_word_ariths, simp)
  ultimately have "unat v = unat (V2P v) + 0x80000000" by simp
  with \<open>unat (V2P v) < 0xE000000\<close> show "unat KERNBASE \<le> unat v" "unat v < 0x8E000000"
    by (simp_all add: KERNBASE_def)
qed

lemma kfree_Ret_bound:
  assumes "kfree v env s = Ret x env' s'"
  shows "unat v < 0x8E000000"
proof (rule phys_bounds)
  show "V2P v < PHYSTOP"
    using assms by (auto simp: kfree_def kbind_eq_Ret kthen_eq_Ret not_le split: if_splits)
qed

lemma unat_plus_PGSIZE: "unat v < 0x8E000000 \<Longrightarrow> unat (v + PGSIZE) = unat v + 4096"
  by (simp add: PGSIZE_def unat_word_ariths)

function freerange_from :: "uint \<Rightarrow> uint \<Rightarrow> unit kernel_op" where
  "freerange_from p vend env s =
     (if p + PGSIZE \<le> vend
      then (case kfree p env s of
              Ret x env' s' \<Rightarrow> freerange_from (p + PGSIZE) vend env' s'
            | Panic msg \<Rightarrow> Panic msg
            | Blocked \<Rightarrow> Blocked)
      else Ret () env s)"
  by pat_completeness auto
termination
  by (relation "measure (\<lambda>(p, vend, env, s). 2 ^ 32 - unat p)")
    (auto dest: kfree_Ret_bound simp: unat_plus_PGSIZE)

declare freerange_from.simps [simp del]

definition freerange :: "uint \<Rightarrow> uint \<Rightarrow> unit kernel_op" where
  "freerange vstart vend = freerange_from (PGROUNDUP vstart) vend"

definition kinit1 :: "uint \<Rightarrow> uint \<Rightarrow> unit kernel_op" where
  "kinit1 vstart vend =
     kthen (initlock KmemLock ''kmem'') (
     kthen (kmod (\<lambda>s. s\<lparr>use_lock := False\<rparr>))
       (freerange vstart vend))"

definition kinit2 :: "uint \<Rightarrow> uint \<Rightarrow> unit kernel_op" where
  "kinit2 vstart vend =
     kthen (freerange vstart vend)
       (kmod (\<lambda>s. s\<lparr>use_lock := True\<rparr>))"

section \<open>The free list\<close>

fun flist :: "32 bytes \<Rightarrow> uint \<Rightarrow> uint list \<Rightarrow> bool" where
  "flist m a [] \<longleftrightarrow> a = 0"
| "flist m a (p # ps) \<longleftrightarrow> a = p \<and> a \<noteq> 0 \<and> flist m (load32 m a) ps"

definition kmem_ok :: "kernel \<Rightarrow> uint list \<Rightarrow> bool" where
  "kmem_ok s ps \<longleftrightarrow> flist (mem s) (freelist s) ps \<and> distinct ps \<and> (\<forall>p \<in> set ps. page_ok s p)"

definition kmem_ready :: "kernel \<Rightarrow> bool" where
  "kmem_ready s \<longleftrightarrow> (use_lock s \<longrightarrow> cpu_ok (hw s) \<and> lock_free KmemLock (hw s))"

text \<open>A page and the bytes it covers.\<close>

lemma page_ok_bounds:
  assumes "page_ok s p"
  shows "unat KERNBASE \<le> unat p" and "unat p < 0x8E000000" and "p \<noteq> 0"
    and "unat p mod 4096 = 0"
  using assms phys_bounds [of p] by (auto simp: page_ok_def PGSIZE_def KERNBASE_def)

lemma pages_disjoint:
  fixes p q :: uint
  assumes "unat p mod 4096 = 0" and "unat q mod 4096 = 0" and "p \<noteq> q"
    and "unat p < 0x8E000000" and "unat q < 0x8E000000"
  shows "disjoint_runs p 4096 q 4096"
proof (rule disjoint_runs_unat)
  have "unat p \<noteq> unat q" using assms(3) by (simp add: word_unat_eq_iff)
  moreover obtain a b where "unat p = 4096 * a" "unat q = 4096 * b"
    using assms(1,2) by (meson dvd_def mod_eq_0_iff_dvd)
  ultimately show "unat p + 4096 \<le> unat q \<or> unat q + 4096 \<le> unat p"
    by (cases "a < b") auto
qed (use assms in auto)

lemma disjoint_runs_mono:
  "disjoint_runs a n b k \<Longrightarrow> n' \<le> n \<Longrightarrow> k' \<le> k \<Longrightarrow> disjoint_runs a n' b k'"
  by (auto simp: disjoint_runs_def)

lemma flist_cong:
  "flist m a ps \<Longrightarrow> (\<And>p. p \<in> set ps \<Longrightarrow> load32 m' p = load32 m p) \<Longrightarrow> flist m' a ps"
  by (induction ps arbitrary: a) auto

definition kfree_mem :: "32 bytes \<Rightarrow> uint \<Rightarrow> uint \<Rightarrow> 32 bytes" where
  "kfree_mem m v fl = store32 (write_bytes m v (replicate 4096 1)) v fl"

lemma kfree_mem_load:
  assumes "disjoint_runs p 4 v 4096"
  shows "load32 (kfree_mem m v fl) p = load32 m p"
  using assms disjoint_runs_mono [OF assms, of 4 4]
  by (simp add: kfree_mem_def load32_store32_disjoint load32_write_disjoint)

lemma kfree_mem_outside: "\<not> in_run v 4096 x \<Longrightarrow> kfree_mem m v fl x = m x"
  by (simp add: kfree_mem_def store32_def write_bytes_def in_run_def)

section \<open>What the routines do\<close>

lemma kalloc_exec [exec]:
  "kmem_ready s \<Longrightarrow> kalloc env s = Ret (freelist s) env
     (s\<lparr>freelist := if freelist s = 0 then 0 else load32 (mem s) (freelist s)\<rparr>)"
  by (auto simp: kalloc_def kmem_ready_def exec)

lemma kfree_exec [exec]:
  "kmem_ready s \<Longrightarrow> page_ok s v \<Longrightarrow> kfree v env s = Ret () env
     (s\<lparr>mem := kfree_mem (mem s) v (freelist s), freelist := v\<rparr>)"
  by (auto simp: kfree_def kmem_ready_def page_ok_def exec memset_eq kfree_mem_def PGSIZE_def)

lemma kfree_panic: "\<not> page_ok s v \<Longrightarrow> kfree v env s = Panic ''kfree''"
  by (auto simp: kfree_def page_ok_def)

section \<open>The allocator as an interface\<close>

text \<open>What the rest of the kernel relies on: \<open>pool s ps\<close> says that the pages \<open>ps\<close> are free in
  \<open>s\<close>, in the order in which they will be handed out.\<close>

primrec kcollect :: "nat \<Rightarrow> ('s, 'a) km \<Rightarrow> ('s, 'a list) km" where
  "kcollect 0 f = kret []"
| "kcollect (Suc n) f = kbind f (\<lambda>x. kbind (kcollect n f) (\<lambda>xs. kret (x # xs)))"

locale page_allocator =
  fixes alloc :: "('s, 'p) km"
    and free :: "'p \<Rightarrow> ('s, unit) km"
    and null :: 'p
    and managed :: "'s \<Rightarrow> 'p \<Rightarrow> bool"
    and pool :: "'s \<Rightarrow> 'p list \<Rightarrow> bool"
  assumes alloc_empty: "pool s [] \<Longrightarrow> \<exists>s'. alloc env s = Ret null env s' \<and> pool s' []"
    and alloc_cons: "pool s (p # ps) \<Longrightarrow>
          \<exists>s'. alloc env s = Ret p env s' \<and> pool s' ps \<and> managed s' = managed s"
    and free_law: "pool s ps \<Longrightarrow> managed s p \<Longrightarrow> p \<notin> set ps \<Longrightarrow>
          \<exists>s'. free p env s = Ret () env s' \<and> pool s' (p # ps) \<and> managed s' = managed s"
    and pool_distinct: "pool s ps \<Longrightarrow> distinct ps"
    and pool_managed: "pool s ps \<Longrightarrow> p \<in> set ps \<Longrightarrow> managed s p"
    and null_unmanaged: "\<not> managed s null"
begin

lemma alloc_many:
  "pool s (ps @ qs) \<Longrightarrow>
     \<exists>s'. kcollect (length ps) alloc env s = Ret ps env s' \<and> pool s' qs \<and> managed s' = managed s"
proof (induction ps arbitrary: s)
  case Nil
  then show ?case by (simp add: exec)
next
  case (Cons p ps)
  from Cons.prems obtain s1 where 1: "alloc env s = Ret p env s1" "pool s1 (ps @ qs)"
      "managed s1 = managed s"
    using alloc_cons [of s p "ps @ qs" env] by auto
  from Cons.IH [OF 1(2)] 1 show ?case by (auto simp: exec)
qed

lemma alloc_all_then_null:
  assumes "pool s ps"
  shows "\<exists>s' s''. kcollect (length ps) alloc env s = Ret ps env s' \<and> distinct ps \<and> null \<notin> set ps \<and>
     alloc env s' = Ret null env s'' \<and> pool s'' []"
proof -
  from alloc_many [of s ps "[]" env] assms obtain s'
    where 1: "kcollect (length ps) alloc env s = Ret ps env s'" "pool s' []" by auto
  from alloc_empty [OF 1(2), of env] obtain s''
    where "alloc env s' = Ret null env s''" "pool s'' []" by blast
  with 1 assms pool_distinct pool_managed null_unmanaged show ?thesis by blast
qed

lemma free_then_alloc:
  assumes "pool s ps" and "managed s p" and "p \<notin> set ps"
  shows "\<exists>s' s''. free p env s = Ret () env s' \<and> alloc env s' = Ret p env s'' \<and> pool s'' ps"
proof -
  from free_law [OF assms, of env] obtain s' where 1: "free p env s = Ret () env s'" "pool s' (p # ps)"
    by blast
  from alloc_cons [OF 1(2), of env] 1(1) show ?thesis by auto
qed

lemma alloc_then_free:
  assumes "pool s (p # ps)"
  shows "\<exists>s' s''. alloc env s = Ret p env s' \<and> free p env s' = Ret () env s'' \<and> pool s'' (p # ps)"
proof -
  from alloc_cons [OF assms, of env] obtain s'
    where 1: "alloc env s = Ret p env s'" "pool s' ps" "managed s' = managed s" by blast
  have "managed s' p" and "p \<notin> set ps"
    using pool_managed [OF assms] pool_distinct [OF assms] 1(3) by auto
  from free_law [OF 1(2) this, of env] 1(1) show ?thesis by auto
qed

end

definition kmem_pool :: "kernel \<Rightarrow> uint list \<Rightarrow> bool" where
  "kmem_pool s ps \<longleftrightarrow> kmem_ready s \<and> kmem_ok s ps"

lemma page_ok_hw_simps [simp]:
  "page_ok (s\<lparr>freelist := f\<rparr>) = page_ok s"
  "page_ok (s\<lparr>mem := m\<rparr>) = page_ok s"
  "page_ok (s\<lparr>hw := h\<rparr>) = page_ok s"
  "page_ok (s\<lparr>use_lock := b\<rparr>) = page_ok s"
  by (auto simp: page_ok_def fun_eq_iff)

lemma kmem_ready_simps [simp]:
  "kmem_ready (s\<lparr>freelist := f\<rparr>) = kmem_ready s"
  "kmem_ready (s\<lparr>mem := m\<rparr>) = kmem_ready s"
  by (auto simp: kmem_ready_def)

lemma kmem_ok_null: "kmem_ok s ps \<Longrightarrow> freelist s = 0 \<longleftrightarrow> ps = []"
  by (cases ps) (auto simp: kmem_ok_def)

lemma kmem_ok_alloc:
  "kmem_ok s (p # ps) \<Longrightarrow> freelist s = p \<and> p \<noteq> 0 \<and> page_ok s p \<and> p \<notin> set ps \<and>
     kmem_ok (s\<lparr>freelist := load32 (mem s) p\<rparr>) ps"
  by (auto simp: kmem_ok_def)

lemma page_ok_disjoint:
  "page_ok s p \<Longrightarrow> page_ok s q \<Longrightarrow> p \<noteq> q \<Longrightarrow> disjoint_runs p 4096 q 4096"
  by (rule pages_disjoint) (auto dest: page_ok_bounds)

lemma kmem_ok_free:
  assumes "kmem_ok s ps" and "page_ok s v" and "v \<notin> set ps"
  shows "kmem_ok (s\<lparr>mem := kfree_mem (mem s) v (freelist s), freelist := v\<rparr>) (v # ps)"
proof -
  have eq: "load32 (kfree_mem (mem s) v (freelist s)) p = load32 (mem s) p" if "p \<in> set ps" for p
  proof (rule kfree_mem_load)
    have "page_ok s p" and "p \<noteq> v" using assms that by (auto simp: kmem_ok_def)
    with assms(2) show "disjoint_runs p 4 v 4096"
      using disjoint_runs_mono [OF page_ok_disjoint [of s p v], of 4 4096] by auto
  qed
  have "load32 (kfree_mem (mem s) v (freelist s)) v = freelist s"
    by (simp add: kfree_mem_def)
  with assms page_ok_bounds(3) [OF assms(2)] flist_cong [OF _ eq] show ?thesis
    by (auto simp: kmem_ok_def)
qed

interpretation kmem: page_allocator kalloc kfree 0 page_ok kmem_pool
proof unfold_locales
  fix s env
  assume "kmem_pool s []"
  then show "\<exists>s'. kalloc env s = Ret 0 env s' \<and> kmem_pool s' []"
    by (auto simp: kmem_pool_def exec kmem_ok_def)
next
  fix s p ps env
  assume "kmem_pool s (p # ps)"
  then show "\<exists>s'. kalloc env s = Ret p env s' \<and> kmem_pool s' ps \<and> page_ok s' = page_ok s"
    using kmem_ok_alloc [of s p ps] by (auto simp: kmem_pool_def exec)
next
  fix s ps p env
  assume "kmem_pool s ps" and "page_ok s p" and "p \<notin> set ps"
  then show "\<exists>s'. kfree p env s = Ret () env s' \<and> kmem_pool s' (p # ps) \<and> page_ok s' = page_ok s"
    using kmem_ok_free [of s ps p] by (auto simp: kmem_pool_def exec)
next
  fix s p
  show "\<not> page_ok s 0"
    using page_ok_bounds(3) by blast
qed (auto simp: kmem_pool_def kmem_ok_def)

section \<open>Filling the pool\<close>

definition pages_from :: "uint \<Rightarrow> nat \<Rightarrow> uint list" where
  "pages_from p n = map (\<lambda>i. p + of_nat i * PGSIZE) [0..<n]"

lemma pages_from_0 [simp]: "pages_from p 0 = []"
  by (simp add: pages_from_def)

lemma pages_from_Suc: "pages_from p (Suc n) = p # pages_from (p + PGSIZE) n"
  by (simp add: pages_from_def upt_conv_Cons map_Suc_upt [symmetric] algebra_simps del: upt_Suc)

lemma page_in_range:
  assumes "unat p mod 4096 = 0" and "k_end s \<le> p" and "unat KERNBASE \<le> unat p" and "unat p < 0x8E000000"
  shows "page_ok s p"
proof -
  have "unat (V2P p) = unat p - unat KERNBASE"
    using assms(3) by (simp add: V2P_def KERNBASE_def unat_sub word_le_nat_alt)
  then show ?thesis
    using assms by (simp add: page_ok_def PGSIZE_def word_less_nat_alt PHYSTOP_def KERNBASE_def)
qed

lemma freerange_from_pool:
  assumes "kmem_pool s ps" and "unat p mod 4096 = 0" and "k_end s \<le> p"
    and "unat KERNBASE \<le> unat p" and "unat vend \<le> 0x8E000000"
    and "unat p \<le> unat vend"
    and "\<And>q. q \<in> set ps \<Longrightarrow> unat q < unat p \<or> unat vend \<le> unat q"
  shows "\<exists>s'. freerange_from p vend env s = Ret () env s' \<and>
     kmem_pool s' (rev (pages_from p ((unat vend - unat p) div 4096)) @ ps) \<and> k_end s' = k_end s"
  using assms
proof (induction "(unat vend - unat p) div 4096" arbitrary: s ps p)
  case 0
  then have "unat vend < unat p + 4096" and "unat p + 4096 < 2 ^ 32" by simp_all
  then have "\<not> p + PGSIZE \<le> vend"
    by (simp add: word_le_nat_alt PGSIZE_def unat_word_ariths)
  with 0 show ?case by (auto simp: freerange_from.simps [of p])
next
  case (Suc n)
  have le: "unat p + 4096 \<le> unat vend" using Suc.hyps(2) by simp
  then have pb: "unat p < 0x8E000000" using Suc.prems(5) by linarith
  have pn: "unat (p + PGSIZE) = unat p + 4096" by (rule unat_plus_PGSIZE [OF pb])
  have ok: "page_ok s p" by (rule page_in_range) (use Suc.prems pb in auto)
  have new: "p \<notin> set ps" using Suc.prems(7) [of p] le by auto
  let ?s = "s\<lparr>mem := kfree_mem (mem s) p (freelist s), freelist := p\<rparr>"
  have pool: "kmem_pool ?s (p # ps)"
    using Suc.prems(1) kmem_ok_free [OF _ ok new] by (simp add: kmem_pool_def)
  have cnt: "n = (unat vend - unat (p + PGSIZE)) div 4096"
    using Suc.hyps(2) le by (simp add: pn) 
  have nxt: "unat (p + PGSIZE) mod 4096 = 0" "k_end ?s \<le> p + PGSIZE"
    "unat KERNBASE \<le> unat (p + PGSIZE)" "unat (p + PGSIZE) \<le> unat vend"
    using Suc.prems le by (simp_all add: pn word_le_nat_alt)
  have old: "unat q < unat (p + PGSIZE) \<or> unat vend \<le> unat q" if "q \<in> set (p # ps)" for q
    using that Suc.prems(7) [of q] by (auto simp: pn)
  from Suc.hyps(1) [OF cnt pool nxt(1-3) Suc.prems(5) nxt(4) old]
  obtain s' where "freerange_from (p + PGSIZE) vend env ?s = Ret () env s'"
    "kmem_pool s' (rev (pages_from (p + PGSIZE) n) @ p # ps)" "k_end s' = k_end s"
    unfolding cnt by auto
  moreover have "p + PGSIZE \<le> vend" using le by (simp add: pn word_le_nat_alt)
  moreover have "kmem_ready s" using Suc.prems(1) by (simp add: kmem_pool_def)
  ultimately show ?case
    by (simp add: freerange_from.simps [of p] kfree_exec ok Suc.hyps(2) [symmetric] pages_from_Suc)
qed

section \<open>Properties\<close>

text \<open>C3: Freeing the pages of a range puts each of them on the free list once: after
  \<^verbatim>\<open>freerange(vstart, vend)\<close> over memory of the kernel that is not free yet, the free
  list holds exactly the pages between the two addresses, the highest first, in front of what
  was free before, and \<^verbatim>\<open>freerange\<close> returns.\<close>

theorem freerange_fills:
  assumes "kmem_pool s ps" and "k_end s \<le> vstart" and "unat KERNBASE \<le> unat vstart"
    and "unat (PGROUNDUP vstart) \<le> unat vend" and "vend \<le> P2V PHYSTOP" and "vstart \<le> PGROUNDUP vstart"
    and "\<forall>q \<in> set ps. q < PGROUNDUP vstart \<or> vend \<le> q"
  shows "\<exists>s'. freerange vstart vend env s = Ret () env s' \<and> k_end s' = k_end s \<and>
     kmem_pool s' (rev (pages_from (PGROUNDUP vstart)
       ((unat vend - unat (PGROUNDUP vstart)) div 4096)) @ ps)"
proof -
  have "unat vend \<le> 0x8E000000"
    using assms(5) by (simp add: word_le_nat_alt P2V_def PHYSTOP_def KERNBASE_def)
  moreover have "k_end s \<le> PGROUNDUP vstart" and "unat KERNBASE \<le> unat (PGROUNDUP vstart)"
    using assms(2,3,6) by (simp_all add: word_le_nat_alt)
  ultimately have "\<exists>s'. freerange_from (PGROUNDUP vstart) vend env s = Ret () env s' \<and>
     kmem_pool s' (rev (pages_from (PGROUNDUP vstart)
       ((unat vend - unat (PGROUNDUP vstart)) div 4096)) @ ps) \<and> k_end s' = k_end s"
    using assms(1,4,7) by (intro freerange_from_pool PGROUNDUP_aligned)
      (auto simp: word_less_nat_alt word_le_nat_alt)
  then show ?thesis by (auto simp: freerange_def)
qed

lemma boot_pool: "kmem_pool boot_kernel []"
  by (simp add: kmem_pool_def kmem_ready_def kmem_ok_def)

theorem freerange_fills_witness:
  "\<exists>s'. freerange 0x80200001 0x80204000 [] boot_kernel = Ret () [] s' \<and> k_end s' = 0x801154A8 \<and>
     kmem_pool s' [0x80203000, 0x80202000, 0x80201000]"
proof -
  have r: "PGROUNDUP 0x80200001 = 0x80201000"
    by (simp add: PGROUNDUP_def PGSIZE_def)
  have k: "unat KERNBASE = 0x80000000" "P2V PHYSTOP = 0x8E000000"
    by (simp_all add: KERNBASE_def P2V_def PHYSTOP_def)
  have p: "pages_from 0x80201000 3 = [0x80201000, 0x80202000, 0x80203000]"
    by (simp add: pages_from_def PGSIZE_def numeral_3_eq_3)
  show ?thesis
    using freerange_fills [of boot_kernel "[]" "0x80200001" "0x80204000" "[]", OF boot_pool]
    by (simp add: r k p)
qed

text \<open>C4: The allocator hands out every free page exactly once: as many calls of
  \<^verbatim>\<open>kalloc\<close> as there are free pages return the pages of the free list in order, all
  different, page-aligned, above the kernel's own data and below the top of physical memory,
  and the next call returns the null pointer.\<close>

theorem kalloc_each_page_once:
  assumes "kmem_pool s ps"
  shows "\<exists>s' s''. kcollect (length ps) kalloc env s = Ret ps env s' \<and> distinct ps \<and>
     (\<forall>p \<in> set ps. page_ok s p) \<and> kalloc env s' = Ret 0 env s''"
  using kmem.alloc_all_then_null [OF assms, of env] kmem.pool_managed [OF assms] by blast

lemma load32_zero: "load32 (\<lambda>_. 0) a = 0"
  by (simp add: load32_def read_bytes_def map_replicate_const replicate_4 le_word32_def)

lemma two_page_pool:
  "kmem_pool (boot_kernel\<lparr>mem := store32 (\<lambda>_. 0) 0x80300000 0x80301000, freelist := 0x80300000\<rparr>)
     [0x80300000, 0x80301000]"
proof -
  have "load32 (store32 (\<lambda>_. 0) 0x80300000 0x80301000) (0x80301000 :: uint) = load32 (\<lambda>_. 0) (0x80301000 :: uint)"
    by (rule load32_store32_disjoint, rule disjoint_runs_unat) simp_all
  also have "\<dots> = 0" by (rule load32_zero)
  finally show ?thesis
    by (simp add: kmem_pool_def kmem_ready_def kmem_ok_def page_ok_def PGSIZE_def V2P_def
        KERNBASE_def PHYSTOP_def)
qed

theorem kalloc_each_page_once_witness:
  "let s = boot_kernel\<lparr>mem := store32 (\<lambda>_. 0) 0x80300000 0x80301000, freelist := 0x80300000\<rparr> in
     \<exists>s' s''. kcollect 2 kalloc [] s = Ret [0x80300000, 0x80301000] [] s' \<and>
       kalloc [] s' = Ret 0 [] s''"
  using kalloc_each_page_once [OF two_page_pool, of "[]"]
  by (simp add: Let_def numeral_2_eq_2 del: kcollect.simps) blast

text \<open>C5: A page that was freed is the next one to be allocated, and the rest of the free list
  is unchanged; a pointer that is not page-aligned, lies inside the kernel or beyond physical
  memory makes \<^verbatim>\<open>kfree\<close> panic.\<close>

theorem kfree_kalloc:
  assumes "kmem_pool s ps" and "p \<notin> set ps"
  shows "(page_ok s p \<longrightarrow>
      (\<exists>s' s''. kfree p env s = Ret () env s' \<and> kalloc env s' = Ret p env s'' \<and> kmem_pool s'' ps))
    \<and> (\<not> page_ok s p \<longrightarrow> kfree p env s = Panic ''kfree'')"
  using kmem.free_then_alloc [OF assms(1) _ assms(2)] kfree_panic by blast

theorem kfree_kalloc_witness:
  "(\<exists>s' s''. kfree 0x80300000 [] boot_kernel = Ret () [] s' \<and> kalloc [] s' = Ret 0x80300000 [] s'' \<and>
     kmem_pool s'' []) \<and> kfree 0x80300001 [] boot_kernel = Panic ''kfree''"
  using kfree_kalloc [OF boot_pool, of "0x80300000" "[]"] kfree_kalloc [OF boot_pool, of "0x80300001" "[]"]
  by (simp add: page_ok_def PGSIZE_def V2P_def KERNBASE_def PHYSTOP_def)

end
