(* ===== verification/Kprint.thy ===== *)
theory Kprint
  imports Locks Mmu
begin

text \<open>
  Output to the console (the output half of \<^verbatim>\<open>console.c\<close>, and
  \<^verbatim>\<open>uartputc\<close> of \<^verbatim>\<open>uart.c\<close>): the screen with its cursor and scrolling, the
  serial port, and \<^verbatim>\<open>cprintf\<close>. A string is given by its bytes.
\<close>

section \<open>Characters\<close>

definition nl :: string where
  "nl = [CHR 0x0A]"

definition BACKSPACE :: uint where "BACKSPACE = 0x100"

text \<open>The wait for the transmitter changes nothing, so only the character sent remains.\<close>

definition uartputc :: "uint \<Rightarrow> unit kernel_op" where
  "uartputc c = kmod (\<lambda>s. if uart s then s\<lparr>console_out := console_out s @ [c AND 0xFF]\<rparr> else s)"

definition cga_scroll :: "int \<Rightarrow> (nat \<Rightarrow> ushort) \<Rightarrow> (nat \<Rightarrow> ushort)" where
  "cga_scroll pos m = (\<lambda>i. if pos \<le> int i \<and> i < 24 * 80 then 0
                            else if i < 23 * 80 then m (i + 80) else m i)"

definition cga_place :: "uint \<Rightarrow> int \<Rightarrow> int kernel_op" where
  "cga_place c pos =
     (if c = 10 then kret (pos + (80 - pos mod 80))
      else if c = BACKSPACE then kret (if 0 < pos then pos - 1 else pos)
      else kthen (kmod (\<lambda>s. s\<lparr>crt := (crt s)(nat pos := ucast (c AND 0xFF) OR 0x0700)\<rparr>))
             (kret (pos + 1)))"

definition cga_settle :: "int \<Rightarrow> unit kernel_op" where
  "cga_settle pos =
     kthen (kassert (\<not> (pos < 0 \<or> 25 * 80 < pos)) ''pos under/overflow'') (
     kbind (if 24 \<le> pos div 80
            then kthen (kmod (\<lambda>s. s\<lparr>crt := cga_scroll (pos - 80) (crt s)\<rparr>)) (kret (pos - 80))
            else kret pos) (\<lambda>pos'.
     kmod (\<lambda>s. s\<lparr>crt_pos := pos', crt := (crt s)(nat pos' := 32 OR 0x0700)\<rparr>)))"

definition cgaputc :: "uint \<Rightarrow> unit kernel_op" where
  "cgaputc c = kbind (kget crt_pos) (\<lambda>pos. kbind (cga_place c pos) cga_settle)"

text \<open>After a panic every CPU that prints stops for good.\<close>

definition consputc :: "uint \<Rightarrow> unit kernel_op" where
  "consputc c =
     kbind (kget panicked) (\<lambda>pk.
     if pk then (\<lambda>env s. Blocked)
     else kthen (if c = BACKSPACE then kthen (uartputc 8) (kthen (uartputc 32) (uartputc 8))
                 else uartputc c)
            (cgaputc c))"

section \<open>Formatted output\<close>

definition digits :: "uchar list" where
  "digits = map (of_char :: char \<Rightarrow> uchar) ''0123456789abcdef''"

text \<open>
  The \<^verbatim>\<open>do\<close> loop of \<^verbatim>\<open>printint\<close> fills \<^verbatim>\<open>buf[16]\<close> from the last digit on;
  the first argument counts the places left in the buffer.
\<close>

fun printint_loop :: "nat \<Rightarrow> uint \<Rightarrow> uint \<Rightarrow> uchar list" where
  "printint_loop 0 x base = []"
| "printint_loop (Suc n) x base =
     digits ! unat (x mod base) # (if x div base \<noteq> 0 then printint_loop n (x div base) base else [])"

definition printint_buf :: "cint \<Rightarrow> uint \<Rightarrow> bool \<Rightarrow> uchar list" where
  "printint_buf xx base sign =
     (let sign' = (sign \<and> sint xx < 0);
          x = (if sign' then - xx else xx)
      in printint_loop 16 x base @ (if sign' then [of_char (CHR ''-'')] else []))"

definition printint :: "cint \<Rightarrow> uint \<Rightarrow> bool \<Rightarrow> unit kernel_op" where
  "printint xx base sign = kfor (rev (printint_buf xx base sign)) (\<lambda>c. consputc (ucast c))"

text \<open>
  The arguments after the format: a number, or a pointer to a string (\<open>None\<close> the null
  pointer). A missing argument, or one of the wrong sort, is undefined in C.
\<close>

datatype farg = FNum cint | FStr "uchar list option"

fun cprintf_loop :: "char list \<Rightarrow> farg list \<Rightarrow> unit kernel_op" where
  "cprintf_loop [] args = kret ()"
| "cprintf_loop [c] args =
     (if c \<noteq> CHR ''%'' then consputc (of_char c) else kret ())"
| "cprintf_loop (c # c2 # cs) args =
     (if c \<noteq> CHR ''%'' then kthen (consputc (of_char c)) (cprintf_loop (c2 # cs) args)
      else if c2 = CHR ''d'' then
        (case args of FNum x # args' \<Rightarrow> kthen (printint x 10 True) (cprintf_loop cs args')
         | _ \<Rightarrow> kpanic ''undefined'')
      else if c2 = CHR ''x'' \<or> c2 = CHR ''p'' then
        (case args of FNum x # args' \<Rightarrow> kthen (printint x 16 False) (cprintf_loop cs args')
         | _ \<Rightarrow> kpanic ''undefined'')
      else if c2 = CHR ''s'' then
        (case args of
           FStr p # args' \<Rightarrow>
             kthen (kfor (case p of None \<Rightarrow> map of_char ''(null)'' | Some t \<Rightarrow> t) (\<lambda>b. consputc (ucast b)))
               (cprintf_loop cs args')
         | _ \<Rightarrow> kpanic ''undefined'')
      else if c2 = CHR ''%'' then kthen (consputc (of_char c2)) (cprintf_loop cs args)
      else kthen (consputc (of_char (CHR ''%''))) (kthen (consputc (of_char c2)) (cprintf_loop cs args)))"

definition cprintf :: "string \<Rightarrow> farg list \<Rightarrow> unit kernel_op" where
  "cprintf fmt args =
     kbind (kget cons_locking) (\<lambda>locking.
     kthen (kwhen locking (acquire ConsLock)) (
     kthen (cprintf_loop fmt args)
       (kwhen locking (release ConsLock))))"

section \<open>The cursor stays on the screen\<close>

definition cga_ok :: "kernel \<Rightarrow> bool" where
  "cga_ok s \<longleftrightarrow> 0 \<le> crt_pos s \<and> crt_pos s < 24 * 80"

text \<open>Output only changes what it shows: the rest of the state is what it was.\<close>

definition only_output :: "kernel \<Rightarrow> kernel \<Rightarrow> bool" where
  "only_output s s' \<longleftrightarrow> (\<exists>out pos m.
     s' = s\<lparr>console_out := out, crt_pos := pos, crt := m\<rparr> \<and> 0 \<le> pos \<and> pos < 24 * 80 \<and>
     (\<forall>i \<ge> 25 * 80. m i = crt s i))"

lemma only_outputE:
  assumes "only_output s s'"
  obtains out pos m where "s' = s\<lparr>console_out := out, crt_pos := pos, crt := m\<rparr>"
    and "0 \<le> pos" and "pos < 24 * 80" and "\<And>i. 25 * 80 \<le> i \<Longrightarrow> m i = crt s i"
  using assms unfolding only_output_def by auto

lemma only_output_refl: "cga_ok s \<Longrightarrow> only_output s s"
  unfolding only_output_def cga_ok_def by (intro exI [of _ "console_out s"] exI [of _ "crt_pos s"] exI [of _ "crt s"]) simp

lemma only_output_trans:
  assumes "only_output s t" and "only_output t u"
  shows "only_output s u"
proof -
  obtain out pos m where t: "t = s\<lparr>console_out := out, crt_pos := pos, crt := m\<rparr>"
    "\<And>i. 25 * 80 \<le> i \<Longrightarrow> m i = crt s i"
    using assms(1) by (auto elim: only_outputE)
  obtain out' pos' m' where u: "u = t\<lparr>console_out := out', crt_pos := pos', crt := m'\<rparr>"
    "0 \<le> pos'" "pos' < 24 * 80" "\<And>i. 25 * 80 \<le> i \<Longrightarrow> m' i = crt t i"
    using assms(2) by (auto elim: only_outputE)
  show ?thesis
    unfolding only_output_def
    by (intro exI [of _ out'] exI [of _ pos'] exI [of _ m']) (use t u in simp)
qed

lemma only_output_keeps:
  assumes "only_output s s'"
  shows "cga_ok s'" "panicked s' = panicked s" "hw s' = hw s" "mem s' = mem s"
    "freelist s' = freelist s" "use_lock s' = use_lock s" "k_end s' = k_end s"
  using assms by (auto elim!: only_outputE simp: cga_ok_def)

lemma uartputc_exec [exec]:
  "uartputc c env s = Ret () env (s\<lparr>console_out :=
     console_out s @ (if uart s then [c AND 0xFF] else [])\<rparr>)"
  by (simp add: uartputc_def)

text \<open>
  Whatever character is written, the checks of \<^verbatim>\<open>cgaputc\<close> pass, the cursor ends up on one
  of the 24 rows, and nothing is written beyond the screen's memory.
\<close>

lemma cga_settle_output:
  assumes "0 \<le> pos" and "pos \<le> 24 * 80"
  shows "\<exists>m p. cga_settle pos env s = Ret () env (s\<lparr>crt_pos := p, crt := m\<rparr>) \<and>
     0 \<le> p \<and> p < 24 * 80 \<and> (\<forall>i \<ge> 25 * 80. m i = crt s i)"
proof (cases "24 \<le> pos div 80")
  case True
  then have "80 \<le> pos" by simp
  with assms True show ?thesis
    by (intro exI [of _ "(cga_scroll (pos - 80) (crt s))(nat (pos - 80) := 32 OR 0x0700)"]
        exI [of _ "pos - 80"]) (auto simp: cga_settle_def cga_scroll_def exec)
next
  case False
  then have "pos < 24 * 80" by linarith
  with assms False show ?thesis
    by (intro exI [of _ "(crt s)(nat pos := 32 OR 0x0700)"] exI [of _ pos])
      (auto simp: cga_settle_def exec)
qed

lemma cga_place_output:
  assumes "cga_ok s"
  shows "\<exists>m p. cga_place c (crt_pos s) env s = Ret p env (s\<lparr>crt := m\<rparr>) \<and>
     0 \<le> p \<and> p \<le> 24 * 80 \<and> (\<forall>i \<ge> 25 * 80. m i = crt s i)"
proof -
  let ?p = "crt_pos s"
  have p: "0 \<le> ?p" "?p < 1920" using assms by (simp_all add: cga_ok_def)
  have "?p div 80 < 24" using p by simp
  moreover have "?p + (80 - ?p mod 80) = 80 * (?p div 80) + 80"
    using mult_div_mod_eq [of 80 ?p] by linarith
  ultimately have "?p + (80 - ?p mod 80) \<le> 1920" by linarith
  then have nl: "cga_place c ?p env s = Ret (?p + (80 - ?p mod 80)) env (s\<lparr>crt := crt s\<rparr>)"
    "0 \<le> ?p + (80 - ?p mod 80)" "?p + (80 - ?p mod 80) \<le> 24 * 80" if "c = 10"
    using that p by (simp_all add: cga_place_def)
  have bs: "cga_place c ?p env s = Ret (if 0 < ?p then ?p - 1 else ?p) env (s\<lparr>crt := crt s\<rparr>)"
    if "c \<noteq> 10" "c = BACKSPACE"
    using that by (simp add: cga_place_def BACKSPACE_def)
  have ch: "cga_place c ?p env s = Ret (?p + 1) env
      (s\<lparr>crt := (crt s)(nat ?p := ucast (c AND 0xFF) OR 0x0700)\<rparr>)" if "c \<noteq> 10" "c \<noteq> BACKSPACE"
    using that by (simp add: cga_place_def)
  consider "c = 10" | "c \<noteq> 10" "c = BACKSPACE" | "c \<noteq> 10" "c \<noteq> BACKSPACE" by blast
  then show ?thesis
  proof cases
    case 1
    then show ?thesis using nl by blast
  next
    case 2
    then show ?thesis using bs p
      by (intro exI [of _ "crt s"] exI [of _ "if 0 < ?p then ?p - 1 else ?p"]) simp
  next
    case 3
    moreover have "nat ?p < 2000" using p by simp
    ultimately show ?thesis using ch p
      by (intro exI [of _ "(crt s)(nat ?p := ucast (c AND 0xFF) OR 0x0700)"] exI [of _ "?p + 1"]) auto
  qed
qed

lemma cgaputc_output:
  assumes "cga_ok s"
  shows "\<exists>s'. cgaputc c env s = Ret () env s' \<and> only_output s s'"
proof -
  obtain m p where 1: "cga_place c (crt_pos s) env s = Ret p env (s\<lparr>crt := m\<rparr>)"
    "0 \<le> p" "p \<le> 24 * 80" "\<forall>i \<ge> 25 * 80. m i = crt s i"
    using cga_place_output [OF assms] by blast
  obtain m' p' where 2: "cga_settle p env (s\<lparr>crt := m\<rparr>) =
      Ret () env (s\<lparr>crt := m\<rparr>\<lparr>crt_pos := p', crt := m'\<rparr>)"
    "0 \<le> p'" "p' < 24 * 80" "\<forall>i \<ge> 25 * 80. m' i = m i"
    using cga_settle_output [OF 1(2,3), of env "s\<lparr>crt := m\<rparr>"] by auto
  have "only_output s (s\<lparr>crt := m\<rparr>\<lparr>crt_pos := p', crt := m'\<rparr>)"
    unfolding only_output_def
    by (intro exI [of _ "console_out s"] exI [of _ p'] exI [of _ m']) (use 1 2 in simp)
  with 1 2 show ?thesis by (simp add: cgaputc_def exec)
qed

lemma consputc_output:
  assumes "cga_ok s" and "\<not> panicked s"
  shows "\<exists>s'. consputc c env s = Ret () env s' \<and> only_output s s'"
proof -
  define u where "u x = (if uart s then [x AND 0xFF] else [])" for x :: uint
  define out where "out = console_out s @ (if c = BACKSPACE then u 8 @ u 32 @ u 8 else u c)"
  have u: "(if c = BACKSPACE then kthen (uartputc 8) (kthen (uartputc 32) (uartputc 8))
      else uartputc c) env s = Ret () env (s\<lparr>console_out := out\<rparr>)"
    by (simp add: exec out_def u_def)
  have ok: "cga_ok (s\<lparr>console_out := out\<rparr>)" using assms(1) by (simp add: cga_ok_def)
  from cgaputc_output [OF ok] obtain s'
    where g: "cgaputc c env (s\<lparr>console_out := out\<rparr>) = Ret () env s'" "only_output (s\<lparr>console_out := out\<rparr>) s'"
    by blast
  moreover have "only_output s (s\<lparr>console_out := out\<rparr>)"
    unfolding only_output_def
    by (intro exI [of _ out] exI [of _ "crt_pos s"] exI [of _ "crt s"])
      (use assms(1) in \<open>simp add: cga_ok_def\<close>)
  ultimately show ?thesis
    using assms(2) u by (auto simp: consputc_def exec intro: only_output_trans)
qed

text \<open>Sequences of output: each part keeps the output-only frame, so the whole does.\<close>

definition prints :: "unit kernel_op \<Rightarrow> bool" where
  "prints m \<longleftrightarrow> (\<forall>env s. cga_ok s \<longrightarrow> \<not> panicked s \<longrightarrow>
     (\<exists>s'. m env s = Ret () env s' \<and> only_output s s'))"

lemma prints_consputc: "prints (consputc c)"
  using consputc_output by (auto simp: prints_def)

lemma prints_kret: "prints (kret ())"
  by (auto simp: prints_def only_output_refl)

lemma prints_kthen:
  assumes "prints m" and "prints n"
  shows "prints (kthen m n)"
  unfolding prints_def
proof (intro allI impI)
  fix env s
  assume "cga_ok s" and "\<not> panicked s"
  with assms(1) obtain t where t: "m env s = Ret () env t" "only_output s t"
    unfolding prints_def by blast
  then have "cga_ok t" and "\<not> panicked t"
    using only_output_keeps(1,2) [OF t(2)] \<open>\<not> panicked s\<close> by auto
  with assms(2) obtain u where "n env t = Ret () env u" "only_output t u"
    unfolding prints_def by blast
  with t show "\<exists>s'. kthen m n env s = Ret () env s' \<and> only_output s s'"
    by (auto simp: exec intro: only_output_trans)
qed

lemma prints_kfor: "(\<And>x. x \<in> set xs \<Longrightarrow> prints (f x)) \<Longrightarrow> prints (kfor xs f)"
  by (induction xs) (auto intro: prints_kret prints_kthen)

lemma prints_printint: "prints (printint x base sign)"
  unfolding printint_def by (rule prints_kfor) (rule prints_consputc)

text \<open>A format matches its arguments when each conversion finds one of its sort.\<close>

fun fmt_ok :: "char list \<Rightarrow> farg list \<Rightarrow> bool" where
  "fmt_ok [] args = True"
| "fmt_ok [c] args = True"
| "fmt_ok (c # c2 # cs) args =
     (if c \<noteq> CHR ''%'' then fmt_ok (c2 # cs) args
      else if c2 \<in> {CHR ''d'', CHR ''x'', CHR ''p''}
        then (case args of FNum x # args' \<Rightarrow> fmt_ok cs args' | _ \<Rightarrow> False)
      else if c2 = CHR ''s'' then (case args of FStr p # args' \<Rightarrow> fmt_ok cs args' | _ \<Rightarrow> False)
      else fmt_ok cs args)"

lemma prints_cprintf_loop: "fmt_ok fmt args \<Longrightarrow> prints (cprintf_loop fmt args)"
  by (induction fmt args rule: cprintf_loop.induct)
    (auto intro!: prints_kret prints_kthen prints_consputc prints_printint prints_kfor
      split: if_splits list.splits farg.splits option.splits)

lemma cprintf_output:
  assumes "fmt_ok fmt args" and "cga_ok s" and "\<not> panicked s"
    and "cons_locking s \<Longrightarrow> cpu_ok (hw s) \<and> lock_free ConsLock (hw s)"
  shows "\<exists>s'. cprintf fmt args env s = Ret () env s' \<and> only_output s s'"
proof (cases "cons_locking s")
  case True
  with assms(4) have l: "cpu_ok (hw s)" "lock_free ConsLock (hw s)" by auto
  let ?s = "s\<lparr>hw := hold ConsLock (hw s)\<rparr>"
  have "cga_ok ?s" "\<not> panicked ?s" using assms(2,3) by (simp_all add: cga_ok_def)
  then obtain t where t: "cprintf_loop fmt args env ?s = Ret () env t" "only_output ?s t"
    using prints_cprintf_loop [OF assms(1)] unfolding prints_def by blast
  then obtain out pos m where t': "t = ?s\<lparr>console_out := out, crt_pos := pos, crt := m\<rparr>"
    and m: "0 \<le> pos" "pos < 24 * 80" "\<And>i. 25 * 80 \<le> i \<Longrightarrow> m i = crt s i"
    by (auto elim!: only_outputE)
  have "only_output s (s\<lparr>console_out := out, crt_pos := pos, crt := m\<rparr>)"
    unfolding only_output_def using m by blast
  moreover have "cprintf fmt args env s = Ret () env (s\<lparr>console_out := out, crt_pos := pos, crt := m\<rparr>)"
    using True l t(1) t' by (simp add: cprintf_def exec)
  ultimately show ?thesis by blast
next
  case False
  obtain s' where "cprintf_loop fmt args env s = Ret () env s'" "only_output s s'"
    using prints_cprintf_loop [OF assms(1)] assms(2,3) unfolding prints_def by blast
  with False show ?thesis by (simp add: cprintf_def exec)
qed

section \<open>Numbers read back\<close>

text \<open>The value of a sequence of digits with the lowest first, and of a printed number.\<close>

definition digit_val :: "uchar \<Rightarrow> nat" where
  "digit_val c = length (takeWhile (\<lambda>d. d \<noteq> c) digits)"

fun digits_val :: "nat \<Rightarrow> uchar list \<Rightarrow> nat" where
  "digits_val b [] = 0"
| "digits_val b (c # cs) = digit_val c + b * digits_val b cs"

definition number_of_text :: "nat \<Rightarrow> uchar list \<Rightarrow> int" where
  "number_of_text b t =
     (if t \<noteq> [] \<and> hd t = of_char (CHR ''-'') then - int (digits_val b (rev (tl t)))
      else int (digits_val b (rev t)))"

lemma digits_eq: "digits = [48,49,50,51,52,53,54,55,56,57,97,98,99,100,101,102]"
  by (simp add: digits_def)

lemma digit_cases:
  assumes "n < 16"
  shows "digit_val (digits ! n) = n" and "digits ! n \<noteq> of_char (CHR ''-'')"
proof -
  have "n \<in> {0,1,2,3,4,5,6,7,8,9,10,11,12,13,14,15}" using assms by simp presburger
  then show "digit_val (digits ! n) = n" and "digits ! n \<noteq> of_char (CHR ''-'')"
    by (auto simp: digit_val_def digits_eq)
qed

lemma printint_loop_val:
  assumes "2 \<le> unat base" and "unat base \<le> 16"
  shows "unat x < unat base ^ n \<Longrightarrow> digits_val (unat base) (printint_loop n x base) = unat x"
proof (induction n arbitrary: x)
  case 0
  then show ?case by simp
next
  case (Suc n)
  have lt: "unat x mod unat base < 16"
    using assms by (intro less_le_trans [OF mod_less_divisor]) auto
  have "unat x div unat base < unat base ^ n"
    using Suc.prems assms by (simp add: div_less_iff_less_mult mult.commute)
  then have ih: "digits_val (unat base) (printint_loop n (x div base) base) = unat x div unat base"
    using Suc.IH [of "x div base"] by (simp add: unat_div)
  have "unat x mod unat base = unat x" if "x div base = 0"
  proof -
    have "unat x div unat base = 0" using that by (metis unat_0 unat_div)
    then show ?thesis by (metis add_0 mult_0_right mult_div_mod_eq)
  qed
  then show ?case
    using ih lt by (simp add: digit_cases unat_mod)
qed

lemma printint_loop_digits:
  assumes "2 \<le> unat base" and "unat base \<le> 16"
  shows "set (printint_loop n x base) \<subseteq> (\<lambda>i. digits ! i) ` {..<16}"
proof (induction n arbitrary: x)
  case (Suc n)
  have "unat x mod unat base < 16"
    using assms by (intro less_le_trans [OF mod_less_divisor]) auto
  with Suc show ?case by (auto simp: unat_mod)
qed simp

lemma printint_loop_length:
  assumes "2 \<le> unat base"
  shows "unat x < unat base ^ Suc k \<Longrightarrow> length (printint_loop n x base) \<le> Suc k"
proof (induction k arbitrary: x n)
  case 0
  then have "unat x div unat base = 0" by simp
  then have "x div base = 0" by (metis unat_div unat_eq_zero)
  then show ?case by (cases n) auto
next
  case (Suc k)
  have "unat (x div base) < unat base ^ Suc k"
    using Suc.prems assms by (simp add: unat_div div_less_iff_less_mult mult.commute)
  from Suc.IH [OF this] show ?case by (cases n) auto
qed

text \<open>C8: Printing a number and reading the text back gives the number: for every 32-bit value,
  with \<^verbatim>\<open>%d\<close> its signed value (the most negative one included), with \<^verbatim>\<open>%x\<close> its unsigned
  value; the digits never overrun \<^verbatim>\<open>buf[16]\<close>.\<close>

theorem printint_roundtrip:
  "number_of_text 10 (rev (printint_buf xx 10 True)) = sint xx \<and>
   number_of_text 16 (rev (printint_buf xx 16 False)) = int (unat xx) \<and>
   length (printint_buf xx 10 True) \<le> 16 \<and> length (printint_buf xx 16 False) \<le> 16"
proof -
  have val: "digits_val 10 (printint_loop 16 x 10) = unat x" "digits_val 16 (printint_loop 16 x 16) = unat x"
    for x :: uint
    using printint_loop_val [of 10 x 16] printint_loop_val [of 16 x 16] unat_less_2p32 [of x] by simp_all
  have nonminus: "hd (rev (printint_loop 16 x b)) \<noteq> of_char (CHR ''-'')" if "b = 10 \<or> b = 16" for x b :: uint
  proof -
    have "rev (printint_loop 16 x b) \<noteq> []" by (simp add: numeral_eq_Suc)
    then have "hd (rev (printint_loop 16 x b)) \<in> set (printint_loop 16 x b)"
      by (metis hd_in_set set_rev)
    moreover have "set (printint_loop 16 x b) \<subseteq> (\<lambda>i. digits ! i) ` {..<16}"
      using that by (intro printint_loop_digits) auto
    ultimately obtain i where "i < 16" "hd (rev (printint_loop 16 x b)) = digits ! i" by blast
    with digit_cases(2) show ?thesis by simp
  qed
  have len: "length (printint_loop 16 x 10) \<le> 10" "length (printint_loop 16 x 16) \<le> 8" for x :: uint
    using printint_loop_length [of 10 x 9 16] printint_loop_length [of 16 x 7 16] unat_less_2p32 [of x]
    by simp_all
  have neg: "int (unat (- xx)) = - sint xx" if "sint xx < 0"
    using that uint_lt2p [of xx] by (simp add: sint32 uint_word_ariths zmod_zminus1_eq_if split: if_splits)
  have pos: "int (unat xx) = sint xx" if "\<not> sint xx < 0"
    using that uint_lt2p [of xx] by (simp add: sint32 split: if_splits)
  have ne: "printint_loop 16 x b \<noteq> []" for x b by (simp add: numeral_eq_Suc)
  show ?thesis
    using val nonminus neg pos len ne
    by (auto simp: number_of_text_def printint_buf_def Let_def le_trans [OF len(1)] le_trans [OF len(2)])
qed

text \<open>C9: Printing never leaves the screen: for every format that matches its arguments,
  \<^verbatim>\<open>cprintf\<close> returns, the cursor is on one of the 24 text rows again, nothing beyond the
  screen memory is written, and apart from the screen and the serial port the kernel state
  is what it was, the console lock included.\<close>

theorem cprintf_stays_on_screen:
  assumes "fmt_ok fmt args" and "cga_ok s" and "\<not> panicked s"
    and "cpu_ok (hw s)" and "lock_free ConsLock (hw s)"
  shows "\<exists>out pos m. cprintf fmt args env s =
      Ret () env (s\<lparr>console_out := out, crt_pos := pos, crt := m\<rparr>) \<and>
    0 \<le> pos \<and> pos < 24 * 80 \<and> (\<forall>i \<ge> 25 * 80. m i = crt s i)"
  using cprintf_output [OF assms(1-3), of env] assms(4,5) unfolding only_output_def by auto

theorem cprintf_stays_on_screen_witness:
  "\<exists>out pos m. cprintf ''cpu%d: %s'' [FNum 0, FStr None] [] (boot_kernel\<lparr>crt_pos := 24 * 80 - 1\<rparr>) =
      Ret () [] (boot_kernel\<lparr>console_out := out, crt_pos := pos, crt := m\<rparr>) \<and> 0 \<le> pos \<and> pos < 24 * 80"
  using cprintf_stays_on_screen
    [of "''cpu%d: %s''" "[FNum 0, FStr None]" "boot_kernel\<lparr>crt_pos := 24 * 80 - 1\<rparr>" "[]"]
  by (auto simp: cga_ok_def)

end
