(* ===== verification/Vm.thy ===== *)
theory Vm
  imports Kalloc Kprint
begin

text \<open>
  Page tables (\<^verbatim>\<open>vm.c\<close>). A page directory and its page tables are pages of the byte
  memory; an entry is the word the code reads and writes there. The lemmas describe an
  address space by the entry each virtual address leads to (\<open>pte_of\<close>) and say which pages
  it owns, so that an operation on one address space is seen to leave the others alone.
\<close>

section \<open>Operations\<close>

definition mload :: "uint \<Rightarrow> uint kernel_op" where
  "mload a = kget (\<lambda>s. load32 (mem s) a)"

definition mstore :: "uint \<Rightarrow> uint \<Rightarrow> unit kernel_op" where
  "mstore a v = kmod (\<lambda>s. s\<lparr>mem := store32 (mem s) a v\<rparr>)"

definition mfill :: "uint \<Rightarrow> cint \<Rightarrow> uint \<Rightarrow> unit kernel_op" where
  "mfill a c n = kmod (\<lambda>s. s\<lparr>mem := memset (mem s) a c n\<rparr>)"

definition lcr3 :: "uint \<Rightarrow> unit kernel_op" where
  "lcr3 a = kmod (\<lambda>s. s\<lparr>hw := (hw s)\<lparr>hw_cr3 := a\<rparr>\<rparr>)"

definition ltr :: "ushort \<Rightarrow> unit kernel_op" where
  "ltr sel = kmod (\<lambda>s. s\<lparr>hw := (hw s)\<lparr>hw_tr := sel\<rparr>\<rparr>)"

definition lgdt :: "nat \<Rightarrow> unit kernel_op" where
  "lgdt c = kmod (\<lambda>s. s\<lparr>hw := (hw s)\<lparr>hw_gdt := Some c\<rparr>\<rparr>)"

definition seginit :: "unit kernel_op" where
  "seginit =
     kbind cpuid (\<lambda>c.
     kthen (upd_cpu c (\<lambda>x. x\<lparr>c_gdt := (c_gdt x)(SEG_KCODE := SEG (STA_X OR STA_R) 0 0xffffffff 0)\<rparr>)) (
     kthen (upd_cpu c (\<lambda>x. x\<lparr>c_gdt := (c_gdt x)(SEG_KDATA := SEG STA_W 0 0xffffffff 0)\<rparr>)) (
     kthen (upd_cpu c (\<lambda>x. x\<lparr>c_gdt := (c_gdt x)(SEG_UCODE := SEG (STA_X OR STA_R) 0 0xffffffff (ucast DPL_USER))\<rparr>)) (
     kthen (upd_cpu c (\<lambda>x. x\<lparr>c_gdt := (c_gdt x)(SEG_UDATA := SEG STA_W 0 0xffffffff (ucast DPL_USER))\<rparr>))
       (lgdt c)))))"

text \<open>The address of the entry, or the null pointer.\<close>

definition walkpgdir :: "uint \<Rightarrow> uint \<Rightarrow> bool \<Rightarrow> uint kernel_op" where
  "walkpgdir pgdir va alloc =
     (let pde = pgdir + 4 * PDX va in
      kbind (mload pde) (\<lambda>e.
      if e AND PTE_P \<noteq> 0 then kret (P2V (PTE_ADDR e) + 4 * PTX va)
      else if \<not> alloc then kret 0
      else kbind kalloc (\<lambda>pgtab.
        if pgtab = 0 then kret 0
        else kthen (mfill pgtab 0 PGSIZE) (
             kthen (mstore pde (V2P pgtab OR PTE_P OR PTE_W OR PTE_U))
               (kret (pgtab + 4 * PTX va))))))"

text \<open>
  The loop of \<^verbatim>\<open>mappages\<close>; the first argument is the number of turns, which for the
  page-aligned bounds that \<^verbatim>\<open>mappages\<close> computes is the number of pages from one to the
  other.
\<close>

fun mappages_from :: "nat \<Rightarrow> uint \<Rightarrow> uint \<Rightarrow> uint \<Rightarrow> uint \<Rightarrow> uint \<Rightarrow> int kernel_op" where
  "mappages_from 0 pgdir a last_a pa perm = (\<lambda>env s. Blocked)"
| "mappages_from (Suc n) pgdir a last_a pa perm =
     kbind (walkpgdir pgdir a True) (\<lambda>pte.
     if pte = 0 then kret (- 1)
     else kbind (mload pte) (\<lambda>e.
       kthen (kassert (e AND PTE_P = 0) ''remap'') (
       kthen (mstore pte (pa OR perm OR PTE_P)) (
       if a = last_a then kret 0
       else mappages_from n pgdir (a + PGSIZE) last_a (pa + PGSIZE) perm))))"

definition mappages :: "uint \<Rightarrow> uint \<Rightarrow> uint \<Rightarrow> uint \<Rightarrow> uint \<Rightarrow> int kernel_op" where
  "mappages pgdir va sz pa perm =
     (let a = PGROUNDDOWN va; last_a = PGROUNDDOWN (va + sz - 1)
      in mappages_from (Suc (unat (last_a - a) div unat PGSIZE)) pgdir a last_a pa perm)"

text \<open>
  The loop of \<^verbatim>\<open>deallocuvm\<close> moves up by at least a page each turn, so the number of pages
  of the address space bounds its turns; beyond it the address has wrapped around and the
  code would loop for ever.
\<close>

fun deallocuvm_from :: "nat \<Rightarrow> uint \<Rightarrow> uint \<Rightarrow> uint \<Rightarrow> unit kernel_op" where
  "deallocuvm_from 0 pgdir a oldsz = (if a < oldsz then (\<lambda>env s. Blocked) else kret ())"
| "deallocuvm_from (Suc n) pgdir a oldsz =
     (if a < oldsz then
        kbind (walkpgdir pgdir a False) (\<lambda>pte.
        if pte = 0 then
          deallocuvm_from n pgdir (PGADDR (PDX a + 1) 0 0 - PGSIZE + PGSIZE) oldsz
        else
          kbind (mload pte) (\<lambda>e.
          kthen (kwhen (e AND PTE_P \<noteq> 0)
            (let pa = PTE_ADDR e in
             kthen (kassert (pa \<noteq> 0) ''kfree'') (
             kthen (kfree (P2V pa))
               (mstore pte 0))))
          (deallocuvm_from n pgdir (a + PGSIZE) oldsz)))
      else kret ())"

definition deallocuvm :: "uint \<Rightarrow> uint \<Rightarrow> uint \<Rightarrow> uint kernel_op" where
  "deallocuvm pgdir oldsz newsz =
     (if newsz \<ge> oldsz then kret oldsz
      else kthen (deallocuvm_from (2 ^ 20) pgdir (PGROUNDUP newsz) oldsz) (kret newsz))"

definition freevm :: "uint \<Rightarrow> unit kernel_op" where
  "freevm pgdir =
     kthen (kassert (pgdir \<noteq> 0) ''freevm: no pgdir'') (
     kthen (deallocuvm pgdir KERNBASE 0) (
     kthen (kfor [0..<NPDENTRIES] (\<lambda>i.
       kbind (mload (pgdir + 4 * of_nat i)) (\<lambda>e.
       kwhen (e AND PTE_P \<noteq> 0) (kfree (P2V (PTE_ADDR e))))))
     (kfree pgdir)))"

text \<open>The kernel's mappings: virtual address, physical start and end, permissions.\<close>

definition kmap :: "uint \<Rightarrow> (uint \<times> uint \<times> uint \<times> uint) list" where
  "kmap data =
     [(KERNBASE, 0, EXTMEM, PTE_W),
      (KERNLINK, V2P KERNLINK, V2P data, 0),
      (data, V2P data, PHYSTOP, PTE_W),
      (DEVSPACE, DEVSPACE, 0, PTE_W)]"

fun setupkvm_map :: "uint \<Rightarrow> (uint \<times> uint \<times> uint \<times> uint) list \<Rightarrow> uint kernel_op" where
  "setupkvm_map pgdir [] = kret pgdir"
| "setupkvm_map pgdir ((virt, pstart, pend, perm) # ks) =
     kbind (mappages pgdir virt (pend - pstart) pstart perm) (\<lambda>r.
     if r < 0 then kthen (freevm pgdir) (kret 0)
     else setupkvm_map pgdir ks)"

definition setupkvm :: "uint kernel_op" where
  "setupkvm =
     kbind kalloc (\<lambda>pgdir.
     if pgdir = 0 then kret 0
     else
       kthen (mfill pgdir 0 PGSIZE) (
       kthen (kassert (\<not> P2V PHYSTOP > DEVSPACE) ''PHYSTOP too high'') (
       kbind (kget k_data) (\<lambda>data. setupkvm_map pgdir (kmap data)))))"

definition switchkvm :: "unit kernel_op" where
  "switchkvm = kbind (kget kpgdir) (\<lambda>d. lcr3 (V2P d))"

definition kvmalloc :: "unit kernel_op" where
  "kvmalloc = kbind setupkvm (\<lambda>d. kthen (kmod (\<lambda>s. s\<lparr>kpgdir := d\<rparr>)) switchkvm)"

text \<open>\<^verbatim>\<open>struct cpu\<close> takes 176 bytes with its task state (104 bytes) at offset 8.\<close>

definition ts_addr :: "uint \<Rightarrow> nat \<Rightarrow> uint" where
  "ts_addr cpus c = cpus + of_nat (176 * c + 8)"

definition switchuvm :: "nat option \<Rightarrow> unit kernel_op" where
  "switchuvm po =
     (case po of
        None \<Rightarrow> kpanic ''switchuvm: no process''
      | Some p \<Rightarrow>
          kbind (kget (\<lambda>s. ptable s p)) (\<lambda>pr.
          kthen (kassert (p_kstack pr \<noteq> 0) ''switchuvm: no kstack'') (
          kthen (kassert (p_pgdir pr \<noteq> 0) ''switchuvm: no pgdir'') (
          kthen pushcli (
          kbind mycpu (\<lambda>c.
          kbind (kget k_cpus) (\<lambda>base.
          kthen (upd_cpu c (\<lambda>x. x\<lparr>c_gdt := (c_gdt x)(SEG_TSS :=
             (SEG16 STS_T32A (ts_addr base c) (104 - 1) 0)\<lparr>sd_s := 0\<rparr>)\<rparr>)) (
          kthen (upd_cpu c (\<lambda>x. x\<lparr>c_ts_ss0 := of_nat (SEG_KDATA * 8)\<rparr>)) (
          kthen (upd_cpu c (\<lambda>x. x\<lparr>c_ts_esp0 := p_kstack pr + KSTACKSIZE\<rparr>)) (
          kthen (upd_cpu c (\<lambda>x. x\<lparr>c_ts_iomb := 0xFFFF\<rparr>)) (
          kthen (ltr (of_nat (SEG_TSS * 8))) (
          kthen (lcr3 (V2P (p_pgdir pr)))
            popcli))))))))))))"

text \<open>The bytes of the program to load are an argument.\<close>

definition inituvm :: "uint \<Rightarrow> uchar list \<Rightarrow> unit kernel_op" where
  "inituvm pgdir init =
     kthen (kassert (of_nat (length init) < PGSIZE) ''inituvm: more than a page'') (
     kbind kalloc (\<lambda>m.
     kthen (mfill m 0 PGSIZE) (
     kbind (mappages pgdir 0 PGSIZE (V2P m) (PTE_W OR PTE_U)) (\<lambda>_.
     kmod (\<lambda>s. s\<lparr>mem := write_bytes (mem s) m init\<rparr>)))))"

fun allocuvm_from :: "nat \<Rightarrow> uint \<Rightarrow> uint \<Rightarrow> uint \<Rightarrow> uint \<Rightarrow> uint kernel_op" where
  "allocuvm_from 0 pgdir a oldsz newsz = (if a < newsz then (\<lambda>env s. Blocked) else kret newsz)"
| "allocuvm_from (Suc n) pgdir a oldsz newsz =
     (if a < newsz then
        kbind kalloc (\<lambda>m.
        if m = 0 then
          kthen (cprintf (''allocuvm out of memory'' @ nl) []) (
          kthen (deallocuvm pgdir newsz oldsz) (kret 0))
        else
          kthen (mfill m 0 PGSIZE) (
          kbind (mappages pgdir a PGSIZE (V2P m) (PTE_W OR PTE_U)) (\<lambda>r.
          if r < 0 then
            kthen (cprintf (''allocuvm out of memory (2)'' @ nl) []) (
            kthen (deallocuvm pgdir newsz oldsz) (
            kthen (kfree m) (kret 0)))
          else allocuvm_from n pgdir (a + PGSIZE) oldsz newsz)))
      else kret newsz)"

definition allocuvm :: "uint \<Rightarrow> uint \<Rightarrow> uint \<Rightarrow> uint kernel_op" where
  "allocuvm pgdir oldsz newsz =
     (if newsz \<ge> KERNBASE then kret 0
      else if newsz < oldsz then kret oldsz
      else allocuvm_from (2 ^ 20) pgdir (PGROUNDUP oldsz) oldsz newsz)"

definition clearpteu :: "uint \<Rightarrow> uint \<Rightarrow> unit kernel_op" where
  "clearpteu pgdir uva =
     kbind (walkpgdir pgdir uva False) (\<lambda>pte.
     kthen (kassert (pte \<noteq> 0) ''clearpteu'') (
     kbind (mload pte) (\<lambda>e. mstore pte (e AND NOT PTE_U))))"

fun copyuvm_from :: "nat \<Rightarrow> uint \<Rightarrow> uint \<Rightarrow> uint \<Rightarrow> uint \<Rightarrow> uint kernel_op" where
  "copyuvm_from 0 d pgdir i sz = (if i < sz then (\<lambda>env s. Blocked) else kret d)"
| "copyuvm_from (Suc n) d pgdir i sz =
     (if i < sz then
        kbind (walkpgdir pgdir i False) (\<lambda>pte.
        kthen (kassert (pte \<noteq> 0) ''copyuvm: pte should exist'') (
        kbind (mload pte) (\<lambda>e.
        kthen (kassert (e AND PTE_P \<noteq> 0) ''copyuvm: page not present'') (
        let pa = PTE_ADDR e; flags = PTE_FLAGS e in
        kbind kalloc (\<lambda>m.
        if m = 0 then kthen (freevm d) (kret 0)
        else
          kthen (kmod (\<lambda>s. s\<lparr>mem := memmove (mem s) m (P2V pa) (unat PGSIZE)\<rparr>)) (
          kbind (mappages d i PGSIZE (V2P m) flags) (\<lambda>r.
          if r < 0 then kthen (kfree m) (kthen (freevm d) (kret 0))
          else copyuvm_from n d pgdir (i + PGSIZE) sz)))))))
      else kret d)"

definition copyuvm :: "uint \<Rightarrow> uint \<Rightarrow> uint kernel_op" where
  "copyuvm pgdir sz =
     kbind setupkvm (\<lambda>d.
     if d = 0 then kret 0
     else copyuvm_from (2 ^ 20) d pgdir 0 sz)"

text \<open>
  The kernel reads and writes low addresses through the page table that is in force; an
  address it does not map is a fault in the kernel, which \<^verbatim>\<open>trap\<close> turns into a panic.
  Kernel addresses are mapped to themselves.
\<close>

definition pde_of :: "32 bytes \<Rightarrow> uint \<Rightarrow> uint \<Rightarrow> uint" where
  "pde_of m pgdir va = load32 m (pgdir + 4 * PDX va)"

definition pte_of :: "32 bytes \<Rightarrow> uint \<Rightarrow> uint \<Rightarrow> uint" where
  "pte_of m pgdir va =
     (if pde_of m pgdir va AND PTE_P \<noteq> 0
      then load32 m (P2V (PTE_ADDR (pde_of m pgdir va)) + 4 * PTX va) else 0)"

definition virt :: "kernel \<Rightarrow> uint \<Rightarrow> uint option" where
  "virt s va =
     (if va \<ge> KERNBASE then Some va
      else let e = pte_of (mem s) (P2V (hw_cr3 (hw s))) va in
        if e AND PTE_P \<noteq> 0 then Some (P2V (PTE_ADDR e) + page_off va) else None)"

definition vload8 :: "uint \<Rightarrow> uchar kernel_op" where
  "vload8 va = kbind (kget (\<lambda>s. (virt s va, s))) (\<lambda>(a, s).
     case a of None \<Rightarrow> kpanic ''trap'' | Some k \<Rightarrow> kret (mem s k))"

definition vstore8 :: "uint \<Rightarrow> uchar \<Rightarrow> unit kernel_op" where
  "vstore8 va b = kbind (kget (\<lambda>s. virt s va)) (\<lambda>a.
     case a of None \<Rightarrow> kpanic ''trap'' | Some k \<Rightarrow> kmod (\<lambda>s. s\<lparr>mem := (mem s)(k := b)\<rparr>))"

fun vload :: "uint \<Rightarrow> nat \<Rightarrow> uchar list kernel_op" where
  "vload va 0 = kret []"
| "vload va (Suc n) = kbind (vload8 va) (\<lambda>b. kbind (vload (va + 1) n) (\<lambda>bs. kret (b # bs)))"

fun vstore :: "uint \<Rightarrow> uchar list \<Rightarrow> unit kernel_op" where
  "vstore va [] = kret ()"
| "vstore va (b # bs) = kthen (vstore8 va b) (vstore (va + 1) bs)"

definition vload32 :: "uint \<Rightarrow> uint kernel_op" where
  "vload32 va = kbind (vload va 4) (\<lambda>bs. kret (le_word32 bs))"

definition vstore32 :: "uint \<Rightarrow> uint \<Rightarrow> unit kernel_op" where
  "vstore32 va v = vstore va (le_bytes32 v)"

definition uva2ka :: "uint \<Rightarrow> uint \<Rightarrow> uint kernel_op" where
  "uva2ka pgdir uva =
     kbind (walkpgdir pgdir uva False) (\<lambda>pte.
     kbind (vload32 pte) (\<lambda>e.
     if e AND PTE_P = 0 then kret 0
     else if e AND PTE_U = 0 then kret 0
     else kret (P2V (PTE_ADDR e))))"

lemma minus_PGROUNDDOWN: "va - PGROUNDDOWN va = page_off va"
  using PGROUNDDOWN_plus_off [of va] by (simp add: diff_eq_eq add.commute)

lemma page_off_less: "unat (page_off va) < 4096"
  by (simp add: page_unats)

lemma unat_page_rest: "unat (PGSIZE - page_off va) = 4096 - unat (page_off va)"
  using page_off_less [of va] by (subst unat_sub) (simp_all add: PGSIZE_def word_le_nat_alt)

lemma page_rest_pos: "0 < unat (PGSIZE - (va - PGROUNDDOWN va))"
  using page_off_less [of va] by (simp add: minus_PGROUNDDOWN unat_page_rest)

text \<open>The data to copy is given by its bytes.\<close>

function copyout :: "uint \<Rightarrow> uint \<Rightarrow> uchar list \<Rightarrow> int kernel_op" where
  "copyout pgdir va buf =
     (if buf = [] then kret 0
      else
        let va0 = PGROUNDDOWN va in
        kbind (uva2ka pgdir va0) (\<lambda>pa0.
        if pa0 = 0 then kret (- 1)
        else
          let n = min (unat (PGSIZE - (va - va0))) (length buf) in
          kthen (kmod (\<lambda>s. s\<lparr>mem := write_bytes (mem s) (pa0 + (va - va0)) (take n buf)\<rparr>))
            (copyout pgdir (va0 + PGSIZE) (drop n buf))))"
  by pat_completeness auto

termination
  by (relation "measure (\<lambda>(pgdir, va, buf). length buf)") (simp_all add: page_rest_pos)

end
