(* ===== verification/Sched.thy ===== *)
theory Sched
  imports Vm
begin

text \<open>
  Switching between processes (\<^verbatim>\<open>proc.c\<close>: \<^verbatim>\<open>sched\<close>, \<^verbatim>\<open>yield\<close>,
  \<^verbatim>\<open>sleep\<close>, \<^verbatim>\<open>wakeup\<close>, \<^verbatim>\<open>scheduler\<close>) and the sleep locks built on it
  (\<^verbatim>\<open>sleeplock.c\<close>). The states of a process change by compare-and-swap; a switch to
  the scheduler, and from the scheduler to a process, is a wait for the environment, which
  runs the other side until it switches back.
\<close>

section \<open>Access to the process table\<close>

definition upd_proc :: "nat \<Rightarrow> (proc \<Rightarrow> proc) \<Rightarrow> unit kernel_op" where
  "upd_proc p f = kmod (\<lambda>s. s\<lparr>ptable := (ptable s)(p := f (ptable s p))\<rparr>)"

text \<open>\<^verbatim>\<open>cas(&p->state, expected, newval)\<close>.\<close>

definition cas_state :: "nat \<Rightarrow> procstate \<Rightarrow> procstate \<Rightarrow> bool kernel_op" where
  "cas_state p expected newval =
     kbind (kget (\<lambda>s. p_state (ptable s p))) (\<lambda>st.
     if st = expected
     then kthen (upd_proc p (\<lambda>x. x\<lparr>p_state := newval\<rparr>)) (kret True)
     else kret False)"

text \<open>The current process, where the code uses the pointer without a check.\<close>

definition curproc :: "nat kernel_op" where
  "curproc = kbind myproc (\<lambda>p. case p of None \<Rightarrow> kpanic ''trap'' | Some i \<Rightarrow> kret i)"

definition pinit :: "unit kernel_op" where
  "pinit = initlock PtableLock ''ptable''"

section \<open>Giving up the CPU\<close>

definition sched :: "unit kernel_op" where
  "sched =
     kbind curproc (\<lambda>p.
     kbind mycpu (\<lambda>c.
     kbind (kget (\<lambda>s. c_ncli (hw_cpus (hw s) c))) (\<lambda>n.
     kthen (kassert (n = 1) ''sched locks'') (
     kbind (kget (\<lambda>s. p_state (ptable s p))) (\<lambda>st.
     kthen (kassert (st \<noteq> RUNNING) ''sched running'') (
     kbind (kget (\<lambda>s. hw_if (hw s))) (\<lambda>fl.
     kthen (kassert (\<not> fl) ''sched interruptible'') (
     kbind (kget (\<lambda>s. c_intena (hw_cpus (hw s) c))) (\<lambda>intena.
     kthen kwait (
     kbind mycpu (\<lambda>c'.
     upd_cpu c' (\<lambda>x. x\<lparr>c_intena := intena\<rparr>))))))))))))"

definition yield :: "unit kernel_op" where
  "yield =
     kthen pushcli (
     kbind curproc (\<lambda>p.
     kbind (cas_state p RUNNING MINUS_RUNNABLE) (\<lambda>ok.
     kthen (kassert ok ''cas failed at yiled, process state should be running!'') (
     kthen sched popcli))))"

text \<open>The channel is never null; the lock is a pointer that the code checks.\<close>

definition sleep :: "channel option \<Rightarrow> lockid option \<Rightarrow> unit kernel_op" where
  "sleep chan lko =
     kbind myproc (\<lambda>po.
     case po of None \<Rightarrow> kpanic ''sleep'' | Some p \<Rightarrow>
     (case lko of None \<Rightarrow> kpanic ''sleep without lk'' | Some lk \<Rightarrow>
     kthen pushcli (
     kthen (upd_proc p (\<lambda>x. x\<lparr>p_chan := chan\<rparr>)) (
     kbind (cas_state p RUNNING MINUS_SLEEPING) (\<lambda>ok.
     kthen (kassert ok ''cas failed at sleeping, should be running state!'') (
     kthen (kwhen (lk \<noteq> PtableLock) (release lk)) (
     kthen sched (
     kthen (acquire lk)
       popcli))))))))"

section \<open>Waking up\<close>

text \<open>
  \<^verbatim>\<open>while(!cas(&p->state, SLEEPING, MINUS_RUNNABLE)) if(p->state == RUNNING) break;\<close>
  -- a process on its way to sleep is waited for.
\<close>

fun wakeup1_spin :: "nat \<Rightarrow> unit kernel_op" where
  "wakeup1_spin p env s =
     (if p_state (ptable s p) = SLEEPING
      then Ret () env (s\<lparr>ptable := (ptable s)(p := (ptable s p)\<lparr>p_state := MINUS_RUNNABLE\<rparr>)\<rparr>)
      else if p_state (ptable s p) = RUNNING then Ret () env s
      else (case env of [] \<Rightarrow> Blocked | e # es \<Rightarrow> wakeup1_spin p es (e s)))"

declare wakeup1_spin.simps [simp del]

definition wakeup1_one :: "channel option \<Rightarrow> nat \<Rightarrow> unit kernel_op" where
  "wakeup1_one chan p =
     kbind (kget (\<lambda>s. ptable s p)) (\<lambda>x.
     kwhen ((p_state x = SLEEPING \<or> p_state x = MINUS_SLEEPING) \<and> p_chan x = chan)
       (kthen (wakeup1_spin p) (
        kbind (kget (\<lambda>s. p_state (ptable s p))) (\<lambda>st.
        kwhen (st \<noteq> RUNNING)
          (kbind (cas_state p MINUS_RUNNABLE RUNNABLE) (\<lambda>_. kret ()))))))"

definition wakeup1 :: "channel option \<Rightarrow> unit kernel_op" where
  "wakeup1 chan = kthen pushcli (kthen (kfor [0..<NPROC] (wakeup1_one chan)) popcli)"

definition wakeup :: "channel option \<Rightarrow> unit kernel_op" where
  "wakeup chan = kthen pushcli (kthen (wakeup1 chan) popcli)"

section \<open>The scheduler\<close>

definition sig_bit :: "nat \<Rightarrow> uint" where
  "sig_bit sig = push_bit sig 1"

fun canRun_from :: "proc \<Rightarrow> nat list \<Rightarrow> bool" where
  "canRun_from p [] = False"
| "canRun_from p (sig # sigs) =
     (if p_psignals p AND sig_bit sig \<noteq> 0 \<and>
         ((p_sig_handlers p sig = SIG_DFL \<and> (sig = SIGCONT \<or> sig = SIGKILL)) \<or>
          p_sig_handlers p sig = of_nat SIGCONT \<or> p_sig_handlers p sig = of_nat SIGKILL)
      then True else canRun_from p sigs)"

definition canRunEvenIfFrozen :: "proc \<Rightarrow> bool" where
  "canRunEvenIfFrozen p = canRun_from p [SIG_MIN..<Suc SIG_MAX]"

text \<open>What the scheduler does when a process has switched back to it.\<close>

definition sched_after :: "nat \<Rightarrow> unit kernel_op" where
  "sched_after p =
     kbind (cas_state p MINUS_SLEEPING SLEEPING) (\<lambda>slept.
     kthen (kbind (kget (\<lambda>s. p_killed (ptable s p))) (\<lambda>k.
        kwhen (slept \<and> k) (kbind (cas_state p SLEEPING RUNNABLE) (\<lambda>_. kret ())))) (
     kbind (cas_state p MINUS_RUNNABLE RUNNABLE) (\<lambda>_.
     kbind (kget (\<lambda>s. p_state (ptable s p))) (\<lambda>st.
     kwhen (st = MINUS_ZOMBIE)
       (kthen (upd_proc p (\<lambda>x. x\<lparr>p_chan := None\<rparr>)) (
        kbind (cas_state p MINUS_ZOMBIE ZOMBIE) (\<lambda>ok.
        kbind (kget (\<lambda>s. p_parent (ptable s p))) (\<lambda>par.
        kwhen ok (wakeup1 (map_option ChanProc par))))))))))"

text \<open>One entry of the table; the switch to the process is the wait.\<close>

definition sched_slot :: "nat \<Rightarrow> nat \<Rightarrow> unit kernel_op" where
  "sched_slot c p =
     kbind (cas_state p RUNNABLE RUNNING) (\<lambda>ok.
     kwhen ok (
       kbind (kget (\<lambda>s. ptable s p)) (\<lambda>x.
       if p_frozen x \<and> \<not> canRunEvenIfFrozen x
       then kbind (cas_state p RUNNING RUNNABLE) (\<lambda>_. kret ())
       else
         kthen (upd_cpu c (\<lambda>y. y\<lparr>c_proc := Some p\<rparr>)) (
         kthen (switchuvm (Some p)) (
         kthen kwait (
         kthen switchkvm (
         kthen (upd_cpu c (\<lambda>y. y\<lparr>c_proc := None\<rparr>))
           (sched_after p))))))))"

definition scheduler_round :: "nat \<Rightarrow> unit kernel_op" where
  "scheduler_round c = kthen sti (kthen pushcli (kthen (kfor [0..<NPROC] (sched_slot c)) popcli))"

text \<open>\<^verbatim>\<open>scheduler\<close> never returns; \<open>scheduler n\<close> is its first \<open>n\<close> rounds.\<close>

definition scheduler :: "nat \<Rightarrow> unit kernel_op" where
  "scheduler n =
     kbind mycpu (\<lambda>c.
     kthen (upd_cpu c (\<lambda>y. y\<lparr>c_proc := None\<rparr>))
       (kfor [0..<n] (\<lambda>_. scheduler_round c)))"

section \<open>Sleep locks\<close>

definition upd_slock :: "slid \<Rightarrow> (sleeplock \<Rightarrow> sleeplock) \<Rightarrow> unit kernel_op" where
  "upd_slock l f = kmod (\<lambda>s. s\<lparr>hw := (hw s)\<lparr>hw_slocks := (hw_slocks (hw s))(l := f (hw_slocks (hw s) l))\<rparr>\<rparr>)"

definition initsleeplock :: "slid \<Rightarrow> string \<Rightarrow> unit kernel_op" where
  "initsleeplock l name =
     kthen (initlock (SleepLk l) ''sleep lock'')
       (upd_slock l (\<lambda>x. x\<lparr>sl_name := name, sl_locked := 0, sl_pid := 0\<rparr>))"

definition acquiresleep :: "slid \<Rightarrow> unit kernel_op" where
  "acquiresleep l =
     kthen (acquire (SleepLk l)) (
     kthen (kwhile (\<lambda>s. sl_locked (hw_slocks (hw s) l) \<noteq> 0)
        (sleep (Some (ChanSleepLock l)) (Some (SleepLk l)))) (
     kthen (upd_slock l (\<lambda>x. x\<lparr>sl_locked := 1\<rparr>)) (
     kbind curproc (\<lambda>p.
     kbind (kget (\<lambda>s. p_pid (ptable s p))) (\<lambda>pid.
     kthen (upd_slock l (\<lambda>x. x\<lparr>sl_pid := pid\<rparr>))
       (release (SleepLk l)))))))"

definition releasesleep :: "slid \<Rightarrow> unit kernel_op" where
  "releasesleep l =
     kthen (acquire (SleepLk l)) (
     kthen (upd_slock l (\<lambda>x. x\<lparr>sl_locked := 0, sl_pid := 0\<rparr>)) (
     kthen (wakeup (Some (ChanSleepLock l)))
       (release (SleepLk l))))"

definition holdingsleep :: "slid \<Rightarrow> bool kernel_op" where
  "holdingsleep l =
     kthen (acquire (SleepLk l)) (
     kbind (kget (\<lambda>s. hw_slocks (hw s) l)) (\<lambda>x.
     kbind (if sl_locked x = 0 then kret False
            else kbind curproc (\<lambda>p. kget (\<lambda>s. sl_pid x = p_pid (ptable s p)))) (\<lambda>r.
     kthen (release (SleepLk l)) (kret r))))"

section \<open>What waking up does\<close>

definition cur_proc :: "hwstate \<Rightarrow> nat option" where
  "cur_proc h = c_proc (hw_cpus h (cpu_of h))"

lemma cur_proc_simps [simp]:
  "cur_proc (cli_push h) = cur_proc h"
  "cur_proc (cli_pop h) = cur_proc h"
  "cur_proc (set_lock lk v c h) = cur_proc h"
  "cur_proc (hold lk h) = cur_proc h"
  "cur_proc (unhold lk h) = cur_proc h"
  "cur_proc (h\<lparr>hw_slocks := sl\<rparr>) = cur_proc h"
  by (simp_all add: cur_proc_def hold_def unhold_def)
     (simp_all add: cli_push_def cli_pop_def set_lock_def cpu_of_def cur_cpu_def)

lemma curproc_exec [exec]:
  "cpu_ok (hw s) \<Longrightarrow> cur_proc (hw s) = Some p \<Longrightarrow> curproc env s = Ret p env s"
  by (simp add: curproc_def exec cur_proc_def)

lemma curproc_none: "cpu_ok (hw s) \<Longrightarrow> cur_proc (hw s) = None \<Longrightarrow> curproc env s = Panic ''trap''"
  by (simp add: curproc_def exec cur_proc_def)

definition sleeps_on :: "channel option \<Rightarrow> proc \<Rightarrow> bool" where
  "sleeps_on chan x \<longleftrightarrow> p_state x = SLEEPING \<and> p_chan x = chan"

definition wake :: "channel option \<Rightarrow> (nat \<Rightarrow> proc) \<Rightarrow> nat \<Rightarrow> proc" where
  "wake chan pt p = (if p < NPROC \<and> sleeps_on chan (pt p) then (pt p)\<lparr>p_state := RUNNABLE\<rparr> else pt p)"

text \<open>No process is on its way to sleep on the channel: the waker need not wait for it.\<close>

definition settled :: "channel option \<Rightarrow> (nat \<Rightarrow> proc) \<Rightarrow> bool" where
  "settled chan pt \<longleftrightarrow> (\<forall>p < NPROC. p_state (pt p) = MINUS_SLEEPING \<longrightarrow> p_chan (pt p) \<noteq> chan)"

lemma wakeup1_one_exec [exec]:
  assumes "p_state (ptable s p) = MINUS_SLEEPING \<longrightarrow> p_chan (ptable s p) \<noteq> chan"
  shows "wakeup1_one chan p env s = Ret () env
    (s\<lparr>ptable := (ptable s)(p := if sleeps_on chan (ptable s p) then (ptable s p)\<lparr>p_state := RUNNABLE\<rparr>
        else ptable s p)\<rparr>)"
  using assms
  by (auto simp: wakeup1_one_def sleeps_on_def wakeup1_spin.simps cas_state_def upd_proc_def exec)

definition wake_slots :: "channel option \<Rightarrow> nat set \<Rightarrow> (nat \<Rightarrow> proc) \<Rightarrow> nat \<Rightarrow> proc" where
  "wake_slots chan A pt p = (if p \<in> A \<and> sleeps_on chan (pt p) then (pt p)\<lparr>p_state := RUNNABLE\<rparr> else pt p)"

lemma wakeup1_exec [exec]:
  assumes "cpu_ok (hw s)" and "settled chan (ptable s)"
  shows "wakeup1 chan env s = Ret () env (s\<lparr>ptable := wake chan (ptable s)\<rparr>)"
proof -
  let ?S = "\<lambda>ys. s\<lparr>hw := cli_push (hw s), ptable := wake_slots chan (set ys) (ptable s)\<rparr>"
  have "kfor [0..<NPROC] (wakeup1_one chan) env (?S []) = Ret () env (?S [0..<NPROC])"
  proof (rule kfor_exec)
    fix ys y zs assume x: "[0..<NPROC] = ys @ y # zs"
    then have y: "y < NPROC" "y \<notin> set ys"
      by (metis atLeastLessThan_iff in_set_conv_decomp set_upt)
         (metis distinct_append distinct_upt not_distinct_conv_prefix x)
    then have "wake_slots chan (set ys) (ptable s) y = ptable s y"
      by (simp add: wake_slots_def)
    moreover from y assms(2) have
      "p_state (ptable s y) = MINUS_SLEEPING \<longrightarrow> p_chan (ptable s y) \<noteq> chan"
      by (simp add: settled_def)
    ultimately show "wakeup1_one chan y env (?S ys) = Ret () env (?S (ys @ [y]))"
      by (subst wakeup1_one_exec) (auto simp: wake_slots_def fun_eq_iff)
  qed
  moreover have "wake_slots chan (set []) (ptable s) = ptable s"
    by (simp add: wake_slots_def fun_eq_iff)
  then have "?S [] = s\<lparr>hw := cli_push (hw s)\<rparr>"
    by simp
  moreover have "wake_slots chan (set [0..<NPROC]) (ptable s) = wake chan (ptable s)"
    by (auto simp: wake_slots_def wake_def)
  ultimately show ?thesis
    using assms(1) by (simp add: wakeup1_def exec)
qed

lemma wakeup_exec [exec]:
  assumes "cpu_ok (hw s)" and "settled chan (ptable s)"
  shows "wakeup chan env s = Ret () env (s\<lparr>ptable := wake chan (ptable s)\<rparr>)"
  using assms by (simp add: wakeup_def exec)

lemma wake_simps [simp]:
  "p_pid (wake chan pt p) = p_pid (pt p)" "p_chan (wake chan pt p) = p_chan (pt p)"
  "p_tf (wake chan pt p) = p_tf (pt p)" "p_killed (wake chan pt p) = p_killed (pt p)"
  "p_pgdir (wake chan pt p) = p_pgdir (pt p)" "p_sz (wake chan pt p) = p_sz (pt p)"
  "p_ofile (wake chan pt p) = p_ofile (pt p)" "p_cwd (wake chan pt p) = p_cwd (pt p)"
  by (simp_all add: wake_def)

lemma wake_not_sleeping: "\<not> sleeps_on chan (pt p) \<Longrightarrow> wake chan pt p = pt p"
  by (simp add: wake_def)

lemma settled_wake [simp]: "settled c pt \<Longrightarrow> settled c (wake chan pt)"
  by (auto simp: settled_def wake_def)

section \<open>What the sleep locks do\<close>

definition slock_set :: "slid \<Rightarrow> uint \<Rightarrow> cint \<Rightarrow> hwstate \<Rightarrow> hwstate" where
  "slock_set l v pid h = h\<lparr>hw_slocks := (hw_slocks h)(l := (hw_slocks h l)\<lparr>sl_locked := v, sl_pid := pid\<rparr>)\<rparr>"

definition slock_mine :: "slid \<Rightarrow> kernel \<Rightarrow> bool" where
  "slock_mine l s \<longleftrightarrow> sl_locked (hw_slocks (hw s) l) \<noteq> 0 \<and>
     (\<exists>p. cur_proc (hw s) = Some p \<and> sl_pid (hw_slocks (hw s) l) = p_pid (ptable s p))"

lemma slock_set_simps [simp]:
  "hw_slocks (slock_set l v pid h) = (hw_slocks h)(l := (hw_slocks h l)\<lparr>sl_locked := v, sl_pid := pid\<rparr>)"
  "cpu_ok (slock_set l v pid h) = cpu_ok h" "cpu_of (slock_set l v pid h) = cpu_of h"
  "cur_proc (slock_set l v pid h) = cur_proc h" "hw_if (slock_set l v pid h) = hw_if h"
  "lock_free lk (slock_set l v pid h) = lock_free lk h" "hw_cr3 (slock_set l v pid h) = hw_cr3 h"
  by (simp_all add: slock_set_def)

lemma slock_set_hold: "slock_set l v pid (hold lk h) = hold lk (slock_set l v pid h)"
  by (simp add: slock_set_def hold_slocks)

lemma upd_slock_set: "upd_slock l (\<lambda>x. x\<lparr>sl_locked := v, sl_pid := pid\<rparr>) env s =
    Ret () env (s\<lparr>hw := slock_set l v pid (hw s)\<rparr>)"
  by (simp add: upd_slock_def slock_set_def)

lemma acquiresleep_exec [exec]:
  assumes "cpu_ok (hw s)" and "lock_free (SleepLk l) (hw s)" and "sl_locked (hw_slocks (hw s) l) = 0"
    and "cur_proc (hw s) = Some p"
  shows "acquiresleep l env s = Ret () env (s\<lparr>hw := slock_set l 1 (p_pid (ptable s p)) (hw s)\<rparr>)"
proof -
  let ?s = "s\<lparr>hw := hold (SleepLk l) (slock_set l 1 (p_pid (ptable s p)) (hw s))\<rparr>"
  have "acquiresleep l env s = release (SleepLk l) env ?s"
    using assms
    by (simp add: acquiresleep_def exec upd_slock_def) (simp add: slock_set_def hold_slocks)
  also have "\<dots> = Ret () env (s\<lparr>hw := slock_set l 1 (p_pid (ptable s p)) (hw s)\<rparr>)"
    using assms by (subst release_hold [where h = "slock_set l 1 (p_pid (ptable s p)) (hw s)"]) simp_all
  finally show ?thesis .
qed

lemma releasesleep_exec [exec]:
  assumes "cpu_ok (hw s)" and "lock_free (SleepLk l) (hw s)"
    and "settled (Some (ChanSleepLock l)) (ptable s)"
  shows "releasesleep l env s = Ret () env
    (s\<lparr>hw := slock_set l 0 0 (hw s), ptable := wake (Some (ChanSleepLock l)) (ptable s)\<rparr>)"
proof -
  have "releasesleep l env s = release (SleepLk l) env
     (s\<lparr>hw := hold (SleepLk l) (slock_set l 0 0 (hw s)), ptable := wake (Some (ChanSleepLock l)) (ptable s)\<rparr>)"
    using assms
    by (simp add: releasesleep_def exec upd_slock_set slock_set_hold)
  also have "\<dots> = Ret () env
    (s\<lparr>hw := slock_set l 0 0 (hw s), ptable := wake (Some (ChanSleepLock l)) (ptable s)\<rparr>)"
    using assms by (subst release_hold [where h = "slock_set l 0 0 (hw s)"]) simp_all
  finally show ?thesis .
qed

lemma holdingsleep_exec [exec]:
  assumes "cpu_ok (hw s)" and "lock_free (SleepLk l) (hw s)" and "cur_proc (hw s) = Some p"
  shows "holdingsleep l env s = Ret (slock_mine l s) env s"
  using assms by (auto simp: holdingsleep_def exec slock_mine_def)

text \<open>A machine with one CPU on which process 0 runs.\<close>

definition proc_hw :: hwstate where
  "proc_hw = boot_hw\<lparr>hw_cpus := (\<lambda>_. zero_cpu\<lparr>c_proc := Some 0\<rparr>)\<rparr>"

definition one_proc :: kernel where
  "one_proc = boot_kernel\<lparr>hw := proc_hw, nextpid := 2,
     ptable := (\<lambda>_. zero_proc)(0 := zero_proc\<lparr>p_state := RUNNING, p_pid := 1\<rparr>)\<rparr>"

lemma proc_hw_simps [simp]:
  "cpu_ok proc_hw" "lock_free lk proc_hw" "cur_proc proc_hw = Some 0" "cpu_of proc_hw = 0"
  "hw_slocks proc_hw = hw_slocks boot_hw"
  by (simp_all add: proc_hw_def boot_hw_def cur_cpu_def cpu_of_def cpu_ok_def lock_free_def
      zero_cpu_def cur_proc_def upt_rec)

lemma one_proc_simps [simp]:
  "hw one_proc = proc_hw" "ptable one_proc 0 = zero_proc\<lparr>p_state := RUNNING, p_pid := 1\<rparr>"
  "p \<noteq> 0 \<Longrightarrow> ptable one_proc p = zero_proc"
  by (simp_all add: one_proc_def)

lemma one_proc_settled: "settled chan (ptable one_proc)"
proof -
  have "p_state (ptable one_proc p) \<noteq> MINUS_SLEEPING" for p
    by (cases "p = 0") (simp_all add: zero_proc_def)
  then show ?thesis by (simp add: settled_def)
qed





end
