(* ===== verification/Bio.thy ===== *)
theory Bio
  imports Sched
begin

text \<open>
  The buffer cache (\<^verbatim>\<open>bio.c\<close>) over the memory disk (\<^verbatim>\<open>memide.c\<close>). The buffers are
  numbered, and the number after the last one stands for the list head, \<^verbatim>\<open>bcache.head\<close>.
  A walk along the list takes at most one turn per buffer; a list that does not come back to
  its head would keep the code in the loop for ever.
\<close>

section \<open>The memory disk\<close>

definition upd_buf :: "nat \<Rightarrow> (buf \<Rightarrow> buf) \<Rightarrow> unit kernel_op" where
  "upd_buf b f = kmod (\<lambda>s. s\<lparr>bufs := (bufs s)(b := f (bufs s b))\<rparr>)"

definition iderw :: "nat \<Rightarrow> unit kernel_op" where
  "iderw b =
     kbind (holdingsleep (BufLock b)) (\<lambda>h.
     kthen (kassert h ''iderw: buf not locked'') (
     kbind (kget (\<lambda>s. bufs s b)) (\<lambda>x.
     kthen (kassert (\<not> b_flags x AND (B_VALID OR B_DIRTY) = B_VALID) ''iderw: nothing to do'') (
     kthen (kassert (\<not> b_dev x \<noteq> 1) ''iderw: request not for disk 1'') (
     kbind (kget disksize) (\<lambda>n.
     kthen (kassert (\<not> b_blockno x \<ge> n) ''iderw: block out of range'') (
     kthen (if b_flags x AND B_DIRTY \<noteq> 0
            then kthen (upd_buf b (\<lambda>y. y\<lparr>b_flags := b_flags y AND NOT B_DIRTY\<rparr>))
                   (kmod (\<lambda>s. s\<lparr>disk := (disk s)(1 := (disk s 1)(b_blockno x := b_data (bufs s b))),
                                disk_history := disk_history s @ [(b_blockno x, b_data (bufs s b))]\<rparr>))
            else kmod (\<lambda>s. s\<lparr>bufs := (bufs s)(b := (bufs s b)\<lparr>b_data := disk s 1 (b_blockno x)\<rparr>)\<rparr>))
       (upd_buf b (\<lambda>y. y\<lparr>b_flags := b_flags y OR B_VALID\<rparr>)))))))))"

text \<open>\<^verbatim>\<open>ideinit\<close> with the image linked into the kernel and its size in bytes; no interrupts.\<close>

definition ideinit :: "(uint \<Rightarrow> block) \<Rightarrow> uint \<Rightarrow> unit kernel_op" where
  "ideinit img imgsize =
     kthen (kmod (\<lambda>s. s\<lparr>disk := (disk s)(1 := img)\<rparr>))
       (kmod (\<lambda>s. s\<lparr>disksize := imgsize div of_nat BSIZE\<rparr>))"

definition ideintr :: "unit kernel_op" where
  "ideintr = kret ()"

section \<open>The cache\<close>

definition bhead :: nat where "bhead = NBUF"

definition binit_one :: "nat \<Rightarrow> unit kernel_op" where
  "binit_one b =
     kbind (kget (\<lambda>s. b_next (bufs s bhead))) (\<lambda>n.
     kthen (upd_buf b (\<lambda>x. x\<lparr>b_next := n\<rparr>)) (
     kthen (upd_buf b (\<lambda>x. x\<lparr>b_prev := bhead\<rparr>)) (
     kthen (initsleeplock (BufLock b) ''buffer'') (
     kthen (upd_buf n (\<lambda>x. x\<lparr>b_prev := b\<rparr>))
       (upd_buf bhead (\<lambda>x. x\<lparr>b_next := b\<rparr>))))))"

definition binit :: "unit kernel_op" where
  "binit =
     kthen (initlock BcacheLock ''bcache'') (
     kthen (upd_buf bhead (\<lambda>x. x\<lparr>b_prev := bhead\<rparr>)) (
     kthen (upd_buf bhead (\<lambda>x. x\<lparr>b_next := bhead\<rparr>))
       (kfor [0..<NBUF] binit_one)))"

text \<open>The two searches of \<^verbatim>\<open>bget\<close>: along \<open>next\<close> for the block, along \<open>prev\<close> for a free buffer.\<close>

fun bfind :: "nat \<Rightarrow> (buf \<Rightarrow> bool) \<Rightarrow> (buf \<Rightarrow> nat) \<Rightarrow> nat \<Rightarrow> nat option kernel_op" where
  "bfind 0 ok nxt b = (if b = bhead then kret None else (\<lambda>env s. Blocked))"
| "bfind (Suc n) ok nxt b =
     (if b = bhead then kret None
      else kbind (kget (\<lambda>s. bufs s b)) (\<lambda>x.
        if ok x then kret (Some b) else bfind n ok nxt (nxt x)))"

definition bget :: "uint \<Rightarrow> uint \<Rightarrow> nat kernel_op" where
  "bget dev blockno =
     kthen (acquire BcacheLock) (
     kbind (kget (\<lambda>s. b_next (bufs s bhead))) (\<lambda>b0.
     kbind (bfind NBUF (\<lambda>x. b_dev x = dev \<and> b_blockno x = blockno) b_next b0) (\<lambda>r.
     case r of
       Some b \<Rightarrow>
         kthen (upd_buf b (\<lambda>x. x\<lparr>b_refcnt := b_refcnt x + 1\<rparr>)) (
         kthen (release BcacheLock) (
         kthen (acquiresleep (BufLock b))
           (kret b)))
     | None \<Rightarrow>
         kbind (kget (\<lambda>s. b_prev (bufs s bhead))) (\<lambda>b1.
         kbind (bfind NBUF (\<lambda>x. b_refcnt x = 0 \<and> b_flags x AND B_DIRTY = 0) b_prev b1) (\<lambda>r'.
         case r' of
           Some b \<Rightarrow>
             kthen (upd_buf b (\<lambda>x. x\<lparr>b_dev := dev, b_blockno := blockno, b_flags := 0, b_refcnt := 1\<rparr>)) (
             kthen (release BcacheLock) (
             kthen (acquiresleep (BufLock b))
               (kret b)))
         | None \<Rightarrow> kpanic ''bget: no buffers'')))))"

definition bread :: "uint \<Rightarrow> uint \<Rightarrow> nat kernel_op" where
  "bread dev blockno =
     kbind (bget dev blockno) (\<lambda>b.
     kbind (kget (\<lambda>s. b_flags (bufs s b))) (\<lambda>f.
     kthen (kwhen (f AND B_VALID = 0) (iderw b))
       (kret b)))"

definition bwrite :: "nat \<Rightarrow> unit kernel_op" where
  "bwrite b =
     kbind (holdingsleep (BufLock b)) (\<lambda>h.
     kthen (kassert h ''bwrite'') (
     kthen (upd_buf b (\<lambda>x. x\<lparr>b_flags := b_flags x OR B_DIRTY\<rparr>))
       (iderw b)))"

text \<open>Moving a buffer to the front of the list, one pointer at a time.\<close>

definition bfront :: "nat \<Rightarrow> unit kernel_op" where
  "bfront b =
     kbind (kget (\<lambda>s. bufs s b)) (\<lambda>x.
     kthen (upd_buf (b_next x) (\<lambda>y. y\<lparr>b_prev := b_prev x\<rparr>)) (
     kthen (upd_buf (b_prev x) (\<lambda>y. y\<lparr>b_next := b_next x\<rparr>)) (
     kbind (kget (\<lambda>s. b_next (bufs s bhead))) (\<lambda>n.
     kthen (upd_buf b (\<lambda>y. y\<lparr>b_next := n\<rparr>)) (
     kthen (upd_buf b (\<lambda>y. y\<lparr>b_prev := bhead\<rparr>)) (
     kthen (upd_buf n (\<lambda>y. y\<lparr>b_prev := b\<rparr>))
       (upd_buf bhead (\<lambda>y. y\<lparr>b_next := b\<rparr>))))))))"

definition brelse :: "nat \<Rightarrow> unit kernel_op" where
  "brelse b =
     kbind (holdingsleep (BufLock b)) (\<lambda>h.
     kthen (kassert h ''brelse'') (
     kthen (releasesleep (BufLock b)) (
     kthen (acquire BcacheLock) (
     kthen (upd_buf b (\<lambda>x. x\<lparr>b_refcnt := b_refcnt x - 1\<rparr>)) (
     kbind (kget (\<lambda>s. b_refcnt (bufs s b))) (\<lambda>r.
     kthen (kwhen (r = 0) (bfront b))
       (release BcacheLock)))))))"

end
