(* ===== verification/Log.thy ===== *)
theory Log
  imports Bio
begin

text \<open>
  The log that makes file system calls atomic (\<^verbatim>\<open>log.c\<close>): the header block on disk, the
  copying of logged blocks, commit and recovery, and the bracketing of operations. Reads and
  writes of an array out of its bounds are undefined in C; they stop the model.
\<close>

section \<open>The log on disk\<close>

definition readsb :: "uint \<Rightarrow> superblock kernel_op" where
  "readsb dev =
     kbind (bread dev 1) (\<lambda>bp.
     kbind (kget (\<lambda>s. b_data (bufs s bp))) (\<lambda>d.
     kthen (brelse bp)
       (kret \<lparr>sb_size = load32 d 0, sb_nblocks = load32 d 4, sb_ninodes = load32 d 8,
              sb_nlog = load32 d 12, sb_logstart = load32 d 16, sb_inodestart = load32 d 20,
              sb_bmapstart = load32 d 24\<rparr>)))"

definition upd_log :: "(logst \<Rightarrow> logst) \<Rightarrow> unit kernel_op" where
  "upd_log f = kmod (\<lambda>s. s\<lparr>log := f (log s)\<rparr>)"

text \<open>\<^verbatim>\<open>memmove(to->data, from->data, BSIZE)\<close> between two buffers.\<close>

definition bcopy :: "nat \<Rightarrow> nat \<Rightarrow> unit kernel_op" where
  "bcopy to from = kmod (\<lambda>s. s\<lparr>bufs := (bufs s)(to := (bufs s to)\<lparr>b_data := b_data (bufs s from)\<rparr>)\<rparr>)"

definition install_one :: "nat \<Rightarrow> unit kernel_op" where
  "install_one tail =
     kbind (kget log) (\<lambda>lg.
     kbind (bread (lg_dev lg) (lg_start lg + of_nat tail + 1)) (\<lambda>lbuf.
     kbind (bread (lg_dev lg) (lg_block lg tail)) (\<lambda>dbuf.
     kthen (bcopy dbuf lbuf) (
     kthen (bwrite dbuf) (
     kthen (brelse lbuf)
       (brelse dbuf))))))"

definition install_trans :: "unit kernel_op" where
  "install_trans = kbind (kget (\<lambda>s. lg_n (log s))) (\<lambda>n. kfor [0..<nat n] install_one)"

definition read_head :: "unit kernel_op" where
  "read_head =
     kbind (kget log) (\<lambda>lg.
     kbind (bread (lg_dev lg) (lg_start lg)) (\<lambda>bf.
     kbind (kget (\<lambda>s. b_data (bufs s bf))) (\<lambda>d.
     kthen (upd_log (\<lambda>l. l\<lparr>lg_n := sint (load32 d 0)\<rparr>)) (
     kthen (kassert (sint (load32 d 0) \<le> int LOGSIZE) ''undefined'') (
     kthen (kfor [0..<nat (sint (load32 d 0))] (\<lambda>i.
        upd_log (\<lambda>l. l\<lparr>lg_block := (lg_block l)(i := load32 d (of_nat (4 + 4 * i)))\<rparr>)))
       (brelse bf))))))"

definition upd_bdata :: "nat \<Rightarrow> (block \<Rightarrow> block) \<Rightarrow> unit kernel_op" where
  "upd_bdata b f = upd_buf b (\<lambda>x. x\<lparr>b_data := f (b_data x)\<rparr>)"

definition write_head :: "unit kernel_op" where
  "write_head =
     kbind (kget log) (\<lambda>lg.
     kbind (bread (lg_dev lg) (lg_start lg)) (\<lambda>bf.
     kthen (upd_bdata bf (\<lambda>d. store32 d 0 (of_int (lg_n lg)))) (
     kthen (kfor [0..<nat (lg_n lg)] (\<lambda>i.
        upd_bdata bf (\<lambda>d. store32 d (of_nat (4 + 4 * i)) (lg_block lg i)))) (
     kthen (bwrite bf)
       (brelse bf)))))"

definition recover_from_log :: "unit kernel_op" where
  "recover_from_log =
     kthen read_head (
     kthen install_trans (
     kthen (upd_log (\<lambda>l. l\<lparr>lg_n := 0\<rparr>))
       write_head))"

text \<open>\<^verbatim>\<open>sizeof(struct logheader)\<close> is 4 bytes for the count and 4 for each block number.\<close>

definition initlog :: "uint \<Rightarrow> unit kernel_op" where
  "initlog dev =
     kthen (kassert (\<not> 4 + 4 * LOGSIZE \<ge> BSIZE) ''initlog: too big logheader'') (
     kthen (initlock LogLock ''log'') (
     kbind (readsb dev) (\<lambda>sb'.
     kthen (upd_log (\<lambda>l. l\<lparr>lg_start := sb_logstart sb', lg_size := sint (sb_nlog sb'), lg_dev := dev\<rparr>))
       recover_from_log)))"

section \<open>Transactions\<close>

definition write_log_one :: "nat \<Rightarrow> unit kernel_op" where
  "write_log_one tail =
     kbind (kget log) (\<lambda>lg.
     kbind (bread (lg_dev lg) (lg_start lg + of_nat tail + 1)) (\<lambda>to.
     kbind (bread (lg_dev lg) (lg_block lg tail)) (\<lambda>from.
     kthen (bcopy to from) (
     kthen (bwrite to) (
     kthen (brelse from)
       (brelse to))))))"

definition write_log :: "unit kernel_op" where
  "write_log = kbind (kget (\<lambda>s. lg_n (log s))) (\<lambda>n. kfor [0..<nat n] write_log_one)"

definition commit :: "unit kernel_op" where
  "commit =
     kbind (kget (\<lambda>s. lg_n (log s))) (\<lambda>n.
     kwhen (0 < n)
       (kthen write_log (
        kthen write_head (
        kthen install_trans (
        kthen (upd_log (\<lambda>l. l\<lparr>lg_n := 0\<rparr>))
          write_head)))))"

definition log_full :: "logst \<Rightarrow> bool" where
  "log_full lg \<longleftrightarrow> lg_n lg + (lg_outstanding lg + 1) * int MAXOPBLOCKS > int LOGSIZE"

definition begin_op :: "unit kernel_op" where
  "begin_op =
     kthen (acquire LogLock) (
     kthen (kwhile (\<lambda>s. lg_committing (log s) \<or> log_full (log s)) (sleep (Some ChanLog) (Some LogLock))) (
     kthen (upd_log (\<lambda>l. l\<lparr>lg_outstanding := lg_outstanding l + 1\<rparr>))
       (release LogLock)))"

definition end_op :: "unit kernel_op" where
  "end_op =
     kthen (acquire LogLock) (
     kthen (upd_log (\<lambda>l. l\<lparr>lg_outstanding := lg_outstanding l - 1\<rparr>)) (
     kbind (kget log) (\<lambda>lg.
     kthen (kassert (\<not> lg_committing lg) ''log.committing'') (
     let do_commit = (lg_outstanding lg = 0) in
     kthen (if do_commit then upd_log (\<lambda>l. l\<lparr>lg_committing := True\<rparr>) else wakeup (Some ChanLog)) (
     kthen (release LogLock)
       (kwhen do_commit
          (kthen commit (
           kthen (acquire LogLock) (
           kthen (upd_log (\<lambda>l. l\<lparr>lg_committing := False\<rparr>)) (
           kthen (wakeup (Some ChanLog))
             (release LogLock))))))))))) "

text \<open>The index at which \<^verbatim>\<open>log_write\<close> leaves its search loop.\<close>

definition log_slot :: "logst \<Rightarrow> uint \<Rightarrow> nat" where
  "log_slot lg blockno =
     (case find (\<lambda>i. lg_block lg i = blockno) [0..<nat (lg_n lg)] of
        Some i \<Rightarrow> i | None \<Rightarrow> nat (lg_n lg))"

definition log_write :: "nat \<Rightarrow> unit kernel_op" where
  "log_write b =
     kbind (kget log) (\<lambda>lg0.
     kthen (kassert (\<not> (lg_n lg0 \<ge> int LOGSIZE \<or> lg_n lg0 \<ge> lg_size lg0 - 1)) ''too big a transaction'') (
     kthen (kassert (\<not> lg_outstanding lg0 < 1) ''log_write outside of trans'') (
     kthen (acquire LogLock) (
     kbind (kget log) (\<lambda>lg.
     kbind (kget (\<lambda>s. b_blockno (bufs s b))) (\<lambda>bn.
     let i = log_slot lg bn in
     kthen (upd_log (\<lambda>l. l\<lparr>lg_block := (lg_block l)(i := bn)\<rparr>)) (
     kthen (kwhen (int i = lg_n lg) (upd_log (\<lambda>l. l\<lparr>lg_n := lg_n l + 1\<rparr>))) (
     kthen (upd_buf b (\<lambda>x. x\<lparr>b_flags := b_flags x OR B_DIRTY\<rparr>))
       (release LogLock)))))))))"

end
