(* ===== verification/Inode.thy ===== *)
theory Inode
  imports Log Kprint
begin

text \<open>
  Disk blocks and inodes (the first half of \<^verbatim>\<open>fs.c\<close>): the bitmap allocator, the on-disk
  inodes, the inode cache with its reference counts and locks, and the map from the blocks
  of a file to disk blocks. A pointer to an inode is its number in the cache.
\<close>

section \<open>Blocks\<close>

definition IBLOCK :: "uint \<Rightarrow> superblock \<Rightarrow> uint" where
  "IBLOCK i sb' = i div of_nat IPB + sb_inodestart sb'"

definition BBLOCK :: "uint \<Rightarrow> superblock \<Rightarrow> uint" where
  "BBLOCK b sb' = b div of_nat BPB + sb_bmapstart sb'"

definition bzero :: "uint \<Rightarrow> uint \<Rightarrow> unit kernel_op" where
  "bzero dev bno =
     kbind (bread dev bno) (\<lambda>bp.
     kthen (upd_bdata bp (\<lambda>_ _. 0)) (
     kthen (log_write bp)
       (brelse bp)))"

text \<open>The bit of block \<open>bi\<close> of a bitmap block.\<close>

definition bmask :: "nat \<Rightarrow> uchar" where
  "bmask bi = push_bit (bi mod 8) 1"

definition bit_free :: "block \<Rightarrow> nat \<Rightarrow> bool" where
  "bit_free d bi \<longleftrightarrow> d (of_nat (bi div 8)) AND bmask bi = 0"

definition set_bit_used :: "nat \<Rightarrow> block \<Rightarrow> block" where
  "set_bit_used bi d = d(of_nat (bi div 8) := d (of_nat (bi div 8)) OR bmask bi)"

definition set_bit_free :: "nat \<Rightarrow> block \<Rightarrow> block" where
  "set_bit_free bi d = d(of_nat (bi div 8) := d (of_nat (bi div 8)) AND NOT (bmask bi))"

text \<open>The outer loop of \<^verbatim>\<open>balloc\<close>, over the bitmap blocks; \<open>find\<close> is the inner loop.\<close>

fun balloc_from :: "nat list \<Rightarrow> uint \<Rightarrow> uint kernel_op" where
  "balloc_from [] dev = kpanic ''balloc: out of blocks''"
| "balloc_from (g # gs) dev =
     kbind (kget sb) (\<lambda>sb'.
     let b = g * BPB in
     kbind (bread dev (BBLOCK (of_nat b) sb')) (\<lambda>bp.
     kbind (kget (\<lambda>s. b_data (bufs s bp))) (\<lambda>d.
     case find (bit_free d) [0..<min BPB (unat (sb_size sb') - b)] of
       Some bi \<Rightarrow>
         kthen (upd_bdata bp (set_bit_used bi)) (
         kthen (log_write bp) (
         kthen (brelse bp) (
         kthen (bzero dev (of_nat (b + bi)))
           (kret (of_nat (b + bi))))))
     | None \<Rightarrow> kthen (brelse bp) (balloc_from gs dev))))"

definition balloc :: "uint \<Rightarrow> uint kernel_op" where
  "balloc dev =
     kbind (kget (\<lambda>s. sb_size (sb s))) (\<lambda>n.
     balloc_from [0..<(unat n + BPB - 1) div BPB] dev)"

definition bfree :: "uint \<Rightarrow> uint \<Rightarrow> unit kernel_op" where
  "bfree dev b =
     kbind (kget sb) (\<lambda>sb'.
     kbind (bread dev (BBLOCK b sb')) (\<lambda>bp.
     let bi = unat b mod BPB in
     kbind (kget (\<lambda>s. b_data (bufs s bp))) (\<lambda>d.
     kthen (kassert (\<not> bit_free d bi) ''freeing free block'') (
     kthen (upd_bdata bp (set_bit_free bi)) (
     kthen (log_write bp)
       (brelse bp))))))"

section \<open>Inodes on disk\<close>

text \<open>A \<^verbatim>\<open>struct dinode\<close> takes 64 bytes.\<close>

definition dinode_off :: "uint \<Rightarrow> nat" where
  "dinode_off inum = (unat inum mod IPB) * 64"

definition get_dinode :: "block \<Rightarrow> nat \<Rightarrow> dinode" where
  "get_dinode d off = \<lparr>di_type = load16 d (of_nat off), di_major = load16 d (of_nat (off + 2)),
     di_minor = load16 d (of_nat (off + 4)), di_nlink = load16 d (of_nat (off + 6)),
     di_size = load32 d (of_nat (off + 8)),
     di_addrs = (\<lambda>i. if i < Suc NDIRECT then load32 d (of_nat (off + 12 + 4 * i)) else 0)\<rparr>"

definition put_addrs :: "nat \<Rightarrow> (nat \<Rightarrow> uint) \<Rightarrow> block \<Rightarrow> block" where
  "put_addrs off a d = fold (\<lambda>i d. store32 d (of_nat (off + 12 + 4 * i)) (a i)) [0..<Suc NDIRECT] d"

definition put_dinode :: "nat \<Rightarrow> dinode \<Rightarrow> block \<Rightarrow> block" where
  "put_dinode off di d =
     put_addrs off (di_addrs di)
       (store32 (store16 (store16 (store16 (store16 d
          (of_nat off) (di_type di))
          (of_nat (off + 2)) (di_major di))
          (of_nat (off + 4)) (di_minor di))
          (of_nat (off + 6)) (di_nlink di))
          (of_nat (off + 8)) (di_size di))"

definition zero_dinode :: dinode where
  "zero_dinode = \<lparr>di_type = 0, di_major = 0, di_minor = 0, di_nlink = 0, di_size = 0,
     di_addrs = (\<lambda>_. 0)\<rparr>"

section \<open>The inode cache\<close>

definition upd_inode :: "nat \<Rightarrow> (inode \<Rightarrow> inode) \<Rightarrow> unit kernel_op" where
  "upd_inode ip f = kmod (\<lambda>s. s\<lparr>icache := (icache s)(ip := f (icache s ip))\<rparr>)"

definition iinit :: "uint \<Rightarrow> unit kernel_op" where
  "iinit dev =
     kthen (initlock IcacheLock ''icache'') (
     kthen (kfor [0..<NINODE] (\<lambda>i. initsleeplock (InodeLock i) ''inode'')) (
     kbind (readsb dev) (\<lambda>sb'.
     kthen (kmod (\<lambda>s. s\<lparr>sb := sb'\<rparr>))
       (cprintf (''sb: size %d nblocks %d ninodes %d nlog %d logstart %d inodestart %d bmap start %d'' @ nl)
          [FNum (sb_size sb'), FNum (sb_nblocks sb'), FNum (sb_ninodes sb'), FNum (sb_nlog sb'),
           FNum (sb_logstart sb'), FNum (sb_inodestart sb'), FNum (sb_bmapstart sb')]))))"

definition iget :: "uint \<Rightarrow> uint \<Rightarrow> nat kernel_op" where
  "iget dev inum =
     kthen (acquire IcacheLock) (
     kbind (kget icache) (\<lambda>ic.
     case find (\<lambda>i. 0 < i_ref (ic i) \<and> i_dev (ic i) = dev \<and> i_inum (ic i) = inum) [0..<NINODE] of
       Some ip \<Rightarrow>
         kthen (upd_inode ip (\<lambda>x. x\<lparr>i_ref := i_ref x + 1\<rparr>)) (
         kthen (release IcacheLock) (kret ip))
     | None \<Rightarrow>
         (case find (\<lambda>i. i_ref (ic i) = 0) [0..<NINODE] of
            None \<Rightarrow> kpanic ''iget: no inodes''
          | Some ip \<Rightarrow>
              kthen (upd_inode ip (\<lambda>x. x\<lparr>i_dev := dev, i_inum := inum, i_ref := 1, i_valid := False\<rparr>)) (
              kthen (release IcacheLock) (kret ip)))))"

fun ialloc_from :: "nat list \<Rightarrow> uint \<Rightarrow> cshort \<Rightarrow> nat kernel_op" where
  "ialloc_from [] dev ty = kpanic ''ialloc: no inodes''"
| "ialloc_from (i # is) dev ty =
     kbind (kget sb) (\<lambda>sb'.
     let inum = of_nat i in
     kbind (bread dev (IBLOCK inum sb')) (\<lambda>bp.
     kbind (kget (\<lambda>s. b_data (bufs s bp))) (\<lambda>d.
     if di_type (get_dinode d (dinode_off inum)) = 0 then
       kthen (upd_bdata bp (\<lambda>d. write_bytes d (of_nat (dinode_off inum)) (replicate 64 0))) (
       kthen (upd_bdata bp (\<lambda>d. store16 d (of_nat (dinode_off inum)) ty)) (
       kthen (log_write bp) (
       kthen (brelse bp)
         (iget dev inum))))
     else kthen (brelse bp) (ialloc_from is dev ty))))"

definition ialloc :: "uint \<Rightarrow> cshort \<Rightarrow> nat kernel_op" where
  "ialloc dev ty = kbind (kget (\<lambda>s. sb_ninodes (sb s))) (\<lambda>n. ialloc_from [1..<unat n] dev ty)"

definition dinode_of :: "inode \<Rightarrow> dinode" where
  "dinode_of x = \<lparr>di_type = i_type x, di_major = i_major x, di_minor = i_minor x,
     di_nlink = i_nlink x, di_size = i_size x, di_addrs = i_addrs x\<rparr>"

definition iupdate :: "nat \<Rightarrow> unit kernel_op" where
  "iupdate ip =
     kbind (kget (\<lambda>s. (icache s ip, sb s))) (\<lambda>(x, sb').
     kbind (bread (i_dev x) (IBLOCK (i_inum x) sb')) (\<lambda>bp.
     kthen (upd_bdata bp (put_dinode (dinode_off (i_inum x)) (dinode_of x))) (
     kthen (log_write bp)
       (brelse bp))))"

definition idup :: "nat \<Rightarrow> nat kernel_op" where
  "idup ip =
     kthen (acquire IcacheLock) (
     kthen (upd_inode ip (\<lambda>x. x\<lparr>i_ref := i_ref x + 1\<rparr>)) (
     kthen (release IcacheLock) (kret ip)))"

definition ilock :: "nat option \<Rightarrow> unit kernel_op" where
  "ilock ipo =
     (case ipo of None \<Rightarrow> kpanic ''ilock'' | Some ip \<Rightarrow>
      kbind (kget (\<lambda>s. i_ref (icache s ip))) (\<lambda>r.
      kthen (kassert (\<not> r < 1) ''ilock'') (
      kthen (acquiresleep (InodeLock ip)) (
      kbind (kget (\<lambda>s. (icache s ip, sb s))) (\<lambda>(x, sb').
      kwhen (\<not> i_valid x)
        (kbind (bread (i_dev x) (IBLOCK (i_inum x) sb')) (\<lambda>bp.
         kbind (kget (\<lambda>s. get_dinode (b_data (bufs s bp)) (dinode_off (i_inum x)))) (\<lambda>di.
         kthen (upd_inode ip (\<lambda>y. y\<lparr>i_type := di_type di, i_major := di_major di,
            i_minor := di_minor di, i_nlink := di_nlink di, i_size := di_size di,
            i_addrs := di_addrs di\<rparr>)) (
         kthen (brelse bp) (
         kthen (upd_inode ip (\<lambda>y. y\<lparr>i_valid := True\<rparr>))
           (kassert (di_type di \<noteq> 0) ''ilock: no type'')))))))))))"

definition iunlock :: "nat option \<Rightarrow> unit kernel_op" where
  "iunlock ipo =
     (case ipo of None \<Rightarrow> kpanic ''iunlock'' | Some ip \<Rightarrow>
      kbind (holdingsleep (InodeLock ip)) (\<lambda>h.
      kbind (kget (\<lambda>s. i_ref (icache s ip))) (\<lambda>r.
      kthen (kassert (h \<and> \<not> r < 1) ''iunlock'')
        (releasesleep (InodeLock ip)))))"

section \<open>The blocks of a file\<close>

definition bmap :: "nat \<Rightarrow> uint \<Rightarrow> uint kernel_op" where
  "bmap ip bn =
     kbind (kget (\<lambda>s. icache s ip)) (\<lambda>x.
     if unat bn < NDIRECT then
       (let addr = i_addrs x (unat bn) in
        if addr = 0 then
          kbind (balloc (i_dev x)) (\<lambda>a.
          kthen (upd_inode ip (\<lambda>y. y\<lparr>i_addrs := (i_addrs y)(unat bn := a)\<rparr>)) (kret a))
        else kret addr)
     else
       let bn' = unat bn - NDIRECT in
       if bn' < NINDIRECT then
         kbind (let addr = i_addrs x NDIRECT in
                if addr = 0 then
                  kbind (balloc (i_dev x)) (\<lambda>a.
                  kthen (upd_inode ip (\<lambda>y. y\<lparr>i_addrs := (i_addrs y)(NDIRECT := a)\<rparr>)) (kret a))
                else kret addr) (\<lambda>ind.
         kbind (bread (i_dev x) ind) (\<lambda>bp.
         kbind (kget (\<lambda>s. load32 (b_data (bufs s bp)) (of_nat (4 * bn')))) (\<lambda>addr.
         kbind (if addr = 0 then
                  kbind (balloc (i_dev x)) (\<lambda>a.
                  kthen (upd_bdata bp (\<lambda>d. store32 d (of_nat (4 * bn')) a)) (
                  kthen (log_write bp) (kret a)))
                else kret addr) (\<lambda>addr'.
         kthen (brelse bp) (kret addr')))))
       else kpanic ''bmap: out of range'')"

definition itrunc :: "nat \<Rightarrow> unit kernel_op" where
  "itrunc ip =
     kthen (kfor [0..<NDIRECT] (\<lambda>i.
       kbind (kget (\<lambda>s. icache s ip)) (\<lambda>x.
       kwhen (i_addrs x i \<noteq> 0)
         (kthen (bfree (i_dev x) (i_addrs x i))
            (upd_inode ip (\<lambda>y. y\<lparr>i_addrs := (i_addrs y)(i := 0)\<rparr>)))))) (
     kthen (kbind (kget (\<lambda>s. icache s ip)) (\<lambda>x.
       kwhen (i_addrs x NDIRECT \<noteq> 0)
         (kbind (bread (i_dev x) (i_addrs x NDIRECT)) (\<lambda>bp.
          kthen (kfor [0..<NINDIRECT] (\<lambda>j.
            kbind (kget (\<lambda>s. load32 (b_data (bufs s bp)) (of_nat (4 * j)))) (\<lambda>a.
            kwhen (a \<noteq> 0) (bfree (i_dev x) a)))) (
          kthen (brelse bp) (
          kthen (bfree (i_dev x) (i_addrs x NDIRECT))
            (upd_inode ip (\<lambda>y. y\<lparr>i_addrs := (i_addrs y)(NDIRECT := 0)\<rparr>)))))))) (
     kthen (upd_inode ip (\<lambda>y. y\<lparr>i_size := 0\<rparr>))
       (iupdate ip)))"

definition iput :: "nat \<Rightarrow> unit kernel_op" where
  "iput ip =
     kthen (acquiresleep (InodeLock ip)) (
     kbind (kget (\<lambda>s. icache s ip)) (\<lambda>x.
     kthen (kwhen (i_valid x \<and> i_nlink x = 0)
       (kthen (acquire IcacheLock) (
        kbind (kget (\<lambda>s. i_ref (icache s ip))) (\<lambda>r.
        kthen (release IcacheLock)
          (kwhen (r = 1)
            (kthen (itrunc ip) (
             kthen (upd_inode ip (\<lambda>y. y\<lparr>i_type := 0\<rparr>)) (
             kthen (iupdate ip)
               (upd_inode ip (\<lambda>y. y\<lparr>i_valid := False\<rparr>)))))))))) (
     kthen (releasesleep (InodeLock ip)) (
     kthen (acquire IcacheLock) (
     kthen (upd_inode ip (\<lambda>y. y\<lparr>i_ref := i_ref y - 1\<rparr>))
       (release IcacheLock))))))"

definition iunlockput :: "nat \<Rightarrow> unit kernel_op" where
  "iunlockput ip = kthen (iunlock (Some ip)) (iput ip)"

record stat =
  st_type :: cshort
  st_dev :: cint
  st_ino :: uint
  st_nlink :: cshort
  st_size :: uint

definition stati :: "nat \<Rightarrow> stat kernel_op" where
  "stati ip = kget (\<lambda>s. \<lparr>st_type = i_type (icache s ip), st_dev = i_dev (icache s ip),
     st_ino = i_inum (icache s ip), st_nlink = i_nlink (icache s ip), st_size = i_size (icache s ip)\<rparr>)"

end
