(* ===== verification/Signals.thy ===== *)
theory Signals
  imports Sched
begin

text \<open>
  Signals (\<^verbatim>\<open>proc.c\<close>): sending one (\<^verbatim>\<open>kill\<close>), the mask and the handlers of a
  process, the delivery of pending signals on the way back to user mode, and the return
  from a user handler. A trap frame is read and written as a whole record; the user stack
  is reached through the page table in force.
\<close>

section \<open>Sending\<close>

text \<open>
  \<^verbatim>\<open>cas(&p->psignals, expected, newval)\<close> on the word of pending signals.
\<close>

definition cas_psignals :: "nat \<Rightarrow> uint \<Rightarrow> uint \<Rightarrow> bool kernel_op" where
  "cas_psignals p expected newval =
     kbind (kget (\<lambda>s. p_psignals (ptable s p))) (\<lambda>old.
     if old = expected
     then kthen (upd_proc p (\<lambda>x. x\<lparr>p_psignals := newval\<rparr>)) (kret True)
     else kret False)"

fun kill_from :: "nat list \<Rightarrow> cint \<Rightarrow> nat \<Rightarrow> int kernel_op" where
  "kill_from [] pid signum = kret (- 1)"
| "kill_from (p # ps) pid signum =
     kbind (kget (\<lambda>s. ptable s p)) (\<lambda>x.
     if p_pid x = pid then
       let expected_on = p_psignals x OR sig_bit signum in
       kbind (cas_psignals p expected_on expected_on) (\<lambda>ok.
       if \<not> ok then
         kthen (kwhen (signum \<noteq> 1)
                  (upd_proc p (\<lambda>y. y\<lparr>p_psignals := p_psignals y OR sig_bit signum\<rparr>)))
           (kret 0)
       else kill_from ps pid signum)
     else kill_from ps pid signum)"

definition kill :: "cint \<Rightarrow> int \<Rightarrow> int kernel_op" where
  "kill pid signum =
     (if signum < int SIG_MIN \<or> int SIG_MAX < signum then kret (- 1)
      else kill_from [0..<NPROC] pid (nat signum))"

section \<open>Mask and handlers\<close>

definition sigprocmask :: "uint \<Rightarrow> uint kernel_op" where
  "sigprocmask m =
     kbind curproc (\<lambda>p.
     kbind (kget (\<lambda>s. p_sigmask (ptable s p))) (\<lambda>old.
     kthen (upd_proc p (\<lambda>x. x\<lparr>p_sigmask := m\<rparr>)) (kret old)))"

definition sigkill_handler :: "unit kernel_op" where
  "sigkill_handler =
     kbind curproc (\<lambda>p.
     kthen (upd_proc p (\<lambda>x. x\<lparr>p_killed := True\<rparr>)) (
     kbind (kget (\<lambda>s. p_state (ptable s p))) (\<lambda>st.
     kwhen (st = SLEEPING) (kbind (cas_state p SLEEPING RUNNABLE) (\<lambda>_. kret ())))))"

definition sigstop_handler :: "unit kernel_op" where
  "sigstop_handler =
     kbind curproc (\<lambda>p.
     kbind (kget (\<lambda>s. p_state (ptable s p))) (\<lambda>st.
     if st = SLEEPING then kret ()
     else upd_proc p (\<lambda>x. x\<lparr>p_frozen := True\<rparr>)))"

definition sigcont_handler :: "unit kernel_op" where
  "sigcont_handler = kbind curproc (\<lambda>p. upd_proc p (\<lambda>x. x\<lparr>p_frozen := False\<rparr>))"

fun copySigHandlers_from :: "nat list \<Rightarrow> (nat \<Rightarrow> uint) \<Rightarrow> (nat \<Rightarrow> uint) \<Rightarrow> (nat \<Rightarrow> uint)" where
  "copySigHandlers_from [] new_h old_h = new_h"
| "copySigHandlers_from (i # is) new_h old_h = copySigHandlers_from is (new_h(i := old_h i)) old_h"

definition copySigHandlers :: "(nat \<Rightarrow> uint) \<Rightarrow> (nat \<Rightarrow> uint) \<Rightarrow> (nat \<Rightarrow> uint)" where
  "copySigHandlers new_h old_h = copySigHandlers_from [0..<SIG_HANDLERS_NUM] new_h old_h"

text \<open>
  \<^verbatim>\<open>sigaction\<close> reads and writes a \<^verbatim>\<open>struct sigaction\<close> (handler and mask, 8 bytes) at
  \<^verbatim>\<open>&sig_handlers[signum]\<close>. The table has 4 bytes per signal, so the mask is the word of the
  next signal, and for the last signal the field after the table, \<^verbatim>\<open>tf_backup\<close>.
\<close>

definition handler_word :: "proc \<Rightarrow> nat \<Rightarrow> uint" where
  "handler_word p i = (if i < SIG_HANDLERS_NUM then p_sig_handlers p i else p_tf_backup p)"

definition set_handler_word :: "nat \<Rightarrow> uint \<Rightarrow> proc \<Rightarrow> proc" where
  "set_handler_word i v p =
     (if i < SIG_HANDLERS_NUM then p\<lparr>p_sig_handlers := (p_sig_handlers p)(i := v)\<rparr>
      else p\<lparr>p_tf_backup := v\<rparr>)"

definition sigaction :: "int \<Rightarrow> uint \<Rightarrow> uint \<Rightarrow> int kernel_op" where
  "sigaction signum act oldact =
     kbind curproc (\<lambda>p.
     if signum = int SIGSTOP \<or> signum = int SIGKILL then kret 1
     else if signum > int SIG_MAX \<or> signum < int SIG_MIN then kret 1
     else
       let i = nat signum in
       kthen (kwhen (oldact \<noteq> 0)
         (kbind (kget (\<lambda>s. ptable s p)) (\<lambda>x.
          kthen (vstore32 oldact (handler_word x i))
            (vstore32 (oldact + 4) (handler_word x (Suc i)))))) (
       kbind (vload32 act) (\<lambda>h.
       kthen (upd_proc p (set_handler_word i h)) (
       kbind (vload32 (act + 4)) (\<lambda>m.
       kthen (upd_proc p (set_handler_word (Suc i) m)) (
       kbind (vload32 (act + 4)) (\<lambda>m'.
       kret (if m' \<le> 0 then 1 else 0))))))))"

section \<open>Delivery\<close>

definition upd_tf :: "uint \<Rightarrow> (trapframe \<Rightarrow> trapframe) \<Rightarrow> unit kernel_op" where
  "upd_tf a f = kmod (\<lambda>s. s\<lparr>tframes := (tframes s)(a := f (tframes s a))\<rparr>)"

definition user_handler :: "nat \<Rightarrow> nat \<Rightarrow> unit kernel_op" where
  "user_handler p sig =
     kbind (kget (\<lambda>s. ptable s p)) (\<lambda>x.
     kthen (kmod (\<lambda>s. s\<lparr>tframes := (tframes s)(p_kstack x := tframes s (p_tf x))\<rparr>)) (
     kthen (upd_proc p (\<lambda>y. y\<lparr>p_tf_backup := p_kstack x\<rparr>)) (
     kbind (vload32 (p_sig_handlers x sig + 4)) (\<lambda>m.
     kbind (sigprocmask m) (\<lambda>old.
     kthen (upd_proc p (\<lambda>y. y\<lparr>p_sigmask_backup := old\<rparr>)) (
     kbind (kget sigret_code) (\<lambda>code.
     kthen (upd_tf (p_tf x) (\<lambda>t. t\<lparr>tf_esp := tf_esp t - of_nat (length code)\<rparr>)) (
     kbind (kget (\<lambda>s. tf_esp (tframes s (p_tf x)))) (\<lambda>sigret_caller_addr.
     kthen (vstore sigret_caller_addr code) (
     kthen (upd_tf (p_tf x) (\<lambda>t. t\<lparr>tf_esp := tf_esp t - UINT_SIZE\<rparr>)) (
     kbind (kget (\<lambda>s. tf_esp (tframes s (p_tf x)))) (\<lambda>sp1.
     kthen (vstore32 sp1 (of_nat sig)) (
     kthen (upd_tf (p_tf x) (\<lambda>t. t\<lparr>tf_esp := tf_esp t - UINT_SIZE\<rparr>)) (
     kbind (kget (\<lambda>s. tf_esp (tframes s (p_tf x)))) (\<lambda>sp2.
     kthen (vstore32 sp2 sigret_caller_addr)
       (upd_tf (p_tf x) (\<lambda>t. t\<lparr>tf_eip := p_sig_handlers x sig\<rparr>)))))))))))))))))"

definition handleSignal :: "nat \<Rightarrow> unit kernel_op" where
  "handleSignal sig =
     kbind curproc (\<lambda>p.
     kbind (kget (\<lambda>s. p_sig_handlers (ptable s p) sig)) (\<lambda>h.
     if h = SIG_IGN then kret ()
     else if h = SIG_DFL then
       (if sig = SIGCONT then sigcont_handler
        else if sig = SIGSTOP then sigstop_handler
        else sigkill_handler)
     else user_handler p sig))"

definition deliver_one :: "nat \<Rightarrow> nat \<Rightarrow> unit kernel_op" where
  "deliver_one p sig =
     kbind (kget (\<lambda>s. ptable s p)) (\<lambda>x.
     let expected = p_psignals x OR sig_bit sig in
     kbind (if p_sigmask x AND sig_bit sig \<noteq> 0 \<and> sig \<noteq> SIGSTOP \<and> sig \<noteq> SIGKILL
            then cas_psignals p expected (expected XOR sig_bit sig) else kret False) (\<lambda>skip.
     if skip then kret ()
     else kbind (cas_psignals p expected (expected XOR sig_bit sig)) (\<lambda>ok.
       kwhen ok (handleSignal sig))))"

text \<open>\<^verbatim>\<open>handle_signals(tf)\<close>, with the address of the trap frame.\<close>

definition handle_signals :: "uint \<Rightarrow> unit kernel_op" where
  "handle_signals tf =
     kbind myproc (\<lambda>po.
     case po of None \<Rightarrow> kret () | Some p \<Rightarrow>
     kbind (kget (\<lambda>s. tf_cs (tframes s tf))) (\<lambda>cs.
     if cs AND 3 \<noteq> DPL_USER then kret ()
     else kfor [SIG_MIN..<Suc SIG_MAX] (deliver_one p)))"

definition sigret :: "int kernel_op" where
  "sigret =
     kbind curproc (\<lambda>p.
     kbind (kget (\<lambda>s. ptable s p)) (\<lambda>x.
     kthen (kmod (\<lambda>s. s\<lparr>tframes := (tframes s)(p_tf x := tframes s (p_tf_backup x))\<rparr>)) (
     kthen (upd_proc p (\<lambda>y. y\<lparr>p_sigmask := p_sigmask_backup y\<rparr>)) (
     kthen (handle_signals (p_tf x))
       (kret 0)))))"

section \<open>Bits of the pending word\<close>

lemma bit_sig_bit: "n < 32 \<Longrightarrow> bit (sig_bit n) k \<longleftrightarrow> k = n"
  by (auto simp: sig_bit_def bit_simps bit_1_iff)

lemma sig_bit_set: "n < 32 \<Longrightarrow> x AND sig_bit n \<noteq> 0 \<longleftrightarrow> bit x n"
proof
  assume n: "n < 32" and "x AND sig_bit n \<noteq> 0"
  then obtain k where "bit (x AND sig_bit n) k" by (metis bit_eq_iff bit_0_eq bot_apply bot_bool_def)
  with n show "bit x n" by (auto simp: bit_and_iff bit_sig_bit)
next
  assume n: "n < 32" and "bit x n"
  then have "bit (x AND sig_bit n) n" by (simp add: bit_and_iff bit_sig_bit)
  then show "x AND sig_bit n \<noteq> 0" by (metis bit_0_eq bot_apply bot_bool_def)
qed

lemma or_sig_bit: "n < 32 \<Longrightarrow> x = x OR sig_bit n \<longleftrightarrow> bit x n"
proof
  assume "n < 32" and "x = x OR sig_bit n"
  then show "bit x n" by (metis bit_or_iff bit_sig_bit)
next
  assume "n < 32" and "bit x n"
  then show "x = x OR sig_bit n" by (intro bit_word_eqI) (auto simp: bit_or_iff bit_sig_bit)
qed

section \<open>Sending\<close>

text \<open>The process that \<^verbatim>\<open>kill\<close> finds: the first with the given number to which the signal is not
  pending yet.\<close>

definition kill_target :: "kernel \<Rightarrow> cint \<Rightarrow> nat \<Rightarrow> nat list \<Rightarrow> nat option" where
  "kill_target s pid n ps = List.find (\<lambda>p. p_pid (ptable s p) = pid \<and> \<not> bit (p_psignals (ptable s p)) n) ps"

definition post :: "nat \<Rightarrow> nat \<Rightarrow> kernel \<Rightarrow> kernel" where
  "post p n s = s\<lparr>ptable := (ptable s)(p := (ptable s p)\<lparr>p_psignals := p_psignals (ptable s p) OR sig_bit n\<rparr>)\<rparr>"

lemma kill_from_eq:
  assumes "n < 32"
  shows "kill_from ps pid n env s = (case kill_target s pid n ps of
      None \<Rightarrow> Ret (- 1) env s | Some p \<Rightarrow> Ret 0 env (if n = 1 then s else post p n s))"
proof (induction ps)
  case Nil
  then show ?case by (simp add: kill_target_def)
next
  case (Cons p ps)
  let ?x = "ptable s p"
  consider (skip) "p_pid ?x \<noteq> pid" | (pending) "p_pid ?x = pid" "bit (p_psignals ?x) n"
    | (hit) "p_pid ?x = pid" "\<not> bit (p_psignals ?x) n" by blast
  then show ?case
  proof cases
    case skip
    then show ?thesis using Cons.IH by (simp add: kill_target_def)
  next
    case pending
    have o: "p_psignals ?x OR sig_bit n = p_psignals ?x" using or_sig_bit [OF assms] pending(2) by metis
    have "ptable s = (ptable s)(p := ?x)" by simp
    then show ?thesis using pending Cons.IH
      by (simp add: kill_target_def cas_psignals_def upd_proc_def o Let_def exec)
  next
    case hit
    have o: "p_psignals ?x \<noteq> p_psignals ?x OR sig_bit n" using or_sig_bit [OF assms] hit(2) by metis
    show ?thesis using hit o
      by (simp add: kill_target_def cas_psignals_def upd_proc_def post_def Let_def exec)
  qed
qed

section \<open>Delivery to default handlers\<close>

definition set_proc :: "nat \<Rightarrow> proc \<Rightarrow> kernel \<Rightarrow> kernel" where
  "set_proc p x s = s\<lparr>ptable := (ptable s)(p := x)\<rparr>"

lemma set_proc_simps [simp]:
  "ptable (set_proc p x s) = (ptable s)(p := x)" "hw (set_proc p x s) = hw s" "mem (set_proc p x s) = mem s"
  "tframes (set_proc p x s) = tframes s" "set_proc p y (set_proc p x s) = set_proc p y s"
  "set_proc p (ptable s p) s = s"
  by (simp_all add: set_proc_def)

lemma upd_proc_exec [exec]: "upd_proc p f env s = Ret () env (set_proc p (f (ptable s p)) s)"
  by (simp add: upd_proc_def set_proc_def)

definition clear_pending :: "nat \<Rightarrow> proc \<Rightarrow> proc" where
  "clear_pending n x = x\<lparr>p_psignals := p_psignals x XOR sig_bit n\<rparr>"

definition blocks :: "nat \<Rightarrow> proc \<Rightarrow> bool" where
  "blocks n x \<longleftrightarrow> bit (p_sigmask x) n \<and> n \<noteq> SIGSTOP \<and> n \<noteq> SIGKILL"

lemma deliver_one_cases:
  assumes "n < 32"
  shows "\<not> bit (p_psignals (ptable s p)) n \<Longrightarrow> deliver_one p n env s = Ret () env s"
    and "bit (p_psignals (ptable s p)) n \<Longrightarrow> blocks n (ptable s p) \<Longrightarrow>
      deliver_one p n env s = Ret () env (set_proc p (clear_pending n (ptable s p)) s)"
    and "bit (p_psignals (ptable s p)) n \<Longrightarrow> \<not> blocks n (ptable s p) \<Longrightarrow>
      deliver_one p n env s = handleSignal n env (set_proc p (clear_pending n (ptable s p)) s)"
proof -
  let ?x = "ptable s p"
  have m: "p_sigmask ?x AND sig_bit n \<noteq> 0 \<longleftrightarrow> bit (p_sigmask ?x) n" by (rule sig_bit_set [OF assms])
  show "deliver_one p n env s = Ret () env s" if "\<not> bit (p_psignals ?x) n"
  proof -
    have "p_psignals ?x \<noteq> p_psignals ?x OR sig_bit n" using or_sig_bit [OF assms] that by metis
    then show ?thesis by (simp add: deliver_one_def cas_psignals_def Let_def exec)
  qed
  have o: "p_psignals ?x OR sig_bit n = p_psignals ?x" if "bit (p_psignals ?x) n"
    using or_sig_bit [OF assms] that by metis
  show "deliver_one p n env s = Ret () env (set_proc p (clear_pending n ?x) s)"
    if "bit (p_psignals ?x) n" "blocks n ?x"
    using o [OF that(1)] that(2) m
    by (simp add: deliver_one_def cas_psignals_def Let_def exec blocks_def clear_pending_def)
  show "deliver_one p n env s = handleSignal n env (set_proc p (clear_pending n ?x) s)"
    if "bit (p_psignals ?x) n" "\<not> blocks n ?x"
    using o [OF that(1)] that(2) m
    by (auto simp: deliver_one_def cas_psignals_def Let_def exec blocks_def clear_pending_def)
qed

text \<open>What the default handler of a signal does to the process.\<close>

definition default_action :: "nat \<Rightarrow> proc \<Rightarrow> proc" where
  "default_action n x =
     (if p_sig_handlers x n = SIG_IGN then x
      else if n = SIGCONT then x\<lparr>p_frozen := False\<rparr>
      else if n = SIGSTOP then x\<lparr>p_frozen := True\<rparr>
      else x\<lparr>p_killed := True\<rparr>)"

definition deliver_default :: "nat \<Rightarrow> proc \<Rightarrow> proc" where
  "deliver_default n x =
     (if \<not> bit (p_psignals x) n then x
      else if blocks n x then clear_pending n x
      else default_action n (clear_pending n x))"

definition defaults_only :: "proc \<Rightarrow> bool" where
  "defaults_only x \<longleftrightarrow> p_state x = RUNNING \<and>
     (\<forall>n < 32. p_sig_handlers x n = SIG_DFL \<or> p_sig_handlers x n = SIG_IGN)"

lemma clear_pending_simps [simp]:
  "p_state (clear_pending n x) = p_state x" "p_sig_handlers (clear_pending n x) = p_sig_handlers x"
  by (simp_all add: clear_pending_def)

lemma handleSignal_default:
  assumes "cpu_ok (hw s)" and "cur_proc (hw s) = Some p" and "defaults_only (ptable s p)" and "n < 32"
  shows "handleSignal n env s = Ret () env (set_proc p (default_action n (ptable s p)) s)"
proof -
  have "p_sig_handlers (ptable s p) n = SIG_DFL \<or> p_sig_handlers (ptable s p) n = SIG_IGN"
    "p_state (ptable s p) = RUNNING" using assms(3,4) by (auto simp: defaults_only_def)
  with assms(1,2) show ?thesis
    by (auto simp: handleSignal_def exec default_action_def sigcont_handler_def sigstop_handler_def
        sigkill_handler_def SIG_DFL_def SIG_IGN_def SIGSTOP_def SIGCONT_def)
qed

lemma deliver_one_default:
  assumes "cpu_ok (hw s)" and "cur_proc (hw s) = Some p" and "defaults_only (ptable s p)" and "n < 32"
  shows "deliver_one p n env s = Ret () env (set_proc p (deliver_default n (ptable s p)) s)"
proof -
  have "defaults_only (clear_pending n (ptable s p))" using assms(3) by (simp add: defaults_only_def)
  then show ?thesis
    using deliver_one_cases [OF assms(4), of s p env] handleSignal_default [of "set_proc p (clear_pending n (ptable s p)) s" p n env] assms
    by (simp add: deliver_default_def)
qed

lemma deliver_default_keeps: "defaults_only x \<Longrightarrow> defaults_only (deliver_default n x)"
  by (auto simp: deliver_default_def default_action_def defaults_only_def)

definition deliver_all :: "proc \<Rightarrow> proc" where
  "deliver_all x = fold deliver_default [0..<32] x"

lemma fold_keeps: "(\<And>i x. P x \<Longrightarrow> P (f i x)) \<Longrightarrow> P x \<Longrightarrow> P (fold f is x)"
  by (induction "is" arbitrary: x) auto

lemma handle_signals_exec:
  assumes "cpu_ok (hw s)" and "cur_proc (hw s) = Some p" and "defaults_only (ptable s p)"
    and "tf_cs (tframes s tf) AND 3 = DPL_USER"
  shows "handle_signals tf env s = Ret () env (set_proc p (deliver_all (ptable s p)) s)"
proof -
  let ?S = "\<lambda>is. set_proc p (fold deliver_default is (ptable s p)) s"
  have "kfor [0..<32] (deliver_one p) env (?S []) = Ret () env (?S [0..<32])"
  proof (rule kfor_exec)
    fix ys n zs assume "[0..<32] = ys @ n # zs"
    then have n: "n < 32" by (metis atLeastLessThan_iff in_set_conv_decomp set_upt)
    have "defaults_only (fold deliver_default ys (ptable s p))"
      by (rule fold_keeps [of defaults_only]) (auto intro: deliver_default_keeps assms(3))
    then show "deliver_one p n env (?S ys) = Ret () env (?S (ys @ [n]))"
      using assms(1,2) n by (subst deliver_one_default) simp_all
  qed
  moreover have "[SIG_MIN..<Suc SIG_MAX] = [0..<32]" by (simp add: SIG_MIN_def SIG_MAX_def)
  moreover have "myproc env s = Ret (Some p) env s" using assms(1,2) by (simp add: exec cur_proc_def)
  ultimately show ?thesis
    using assms(4) by (simp add: handle_signals_def kbind_apply deliver_all_def)
qed

text \<open>A pending signal that is neither blocked nor ignored.\<close>

definition strikes :: "proc \<Rightarrow> nat \<Rightarrow> bool" where
  "strikes x n \<longleftrightarrow> bit (p_psignals x) n \<and> \<not> blocks n x \<and> p_sig_handlers x n \<noteq> SIG_IGN"

definition kills :: "nat \<Rightarrow> proc \<Rightarrow> bool" where
  "kills k x \<longleftrightarrow> (\<exists>n < k. strikes x n \<and> n \<noteq> SIGSTOP \<and> n \<noteq> SIGCONT)"

definition freezes :: "nat \<Rightarrow> proc \<Rightarrow> bool" where
  "freezes k x \<longleftrightarrow>
     (if SIGCONT < k \<and> strikes x SIGCONT then False
      else if SIGSTOP < k \<and> strikes x SIGSTOP then True else p_frozen x)"

definition delivered :: "nat \<Rightarrow> proc \<Rightarrow> proc" where
  "delivered k x = x\<lparr>p_psignals := p_psignals x AND NOT (mask k), p_killed := p_killed x \<or> kills k x,
     p_frozen := freezes k x\<rparr>"

lemma psignals_step: "k < 32 \<Longrightarrow> w AND NOT (mask (Suc k)) =
    (if bit w k then (w AND NOT (mask k)) XOR sig_bit k else w AND NOT (mask k))" for w :: uint
proof (rule bit_word_eqI)
  fix n assume k: "k < 32" and n: "n < LENGTH(32)"
  have s: "bit (sig_bit k) n = (n = k)" using bit_sig_bit [OF k] .
  show "bit (w AND NOT (mask (Suc k))) n =
      bit (if bit w k then (w AND NOT (mask k)) XOR sig_bit k else w AND NOT (mask k)) n"
    using n s by (cases "n = k") (simp_all add: bit_and_iff bit_not_iff bit_mask_iff bit_xor_iff less_Suc_eq)
qed

lemma kills_Suc: "kills (Suc k) x \<longleftrightarrow> kills k x \<or> strikes x k \<and> k \<noteq> SIGSTOP \<and> k \<noteq> SIGCONT"
  by (auto simp: kills_def less_Suc_eq)

lemma freezes_Suc: "freezes (Suc k) x \<longleftrightarrow>
    (if strikes x k \<and> k = SIGCONT then False else if strikes x k \<and> k = SIGSTOP then True else freezes k x)"
  by (auto simp: freezes_def SIGSTOP_def SIGCONT_def less_Suc_eq)

lemma delivered_Suc:
  assumes "k < 32"
  shows "deliver_default k (delivered k x) = delivered (Suc k) x"
proof -
  let ?d = "delivered k x"
  have b: "bit (p_psignals ?d) k = bit (p_psignals x) k" "blocks k ?d = blocks k x" "p_sig_handlers ?d = p_sig_handlers x"
    using assms by (simp_all add: delivered_def bit_and_iff bit_not_iff bit_mask_iff blocks_def)
  note st = psignals_step [OF assms, of "p_psignals x"]
  consider (quiet) "\<not> bit (p_psignals x) k" | (dropped) "bit (p_psignals x) k" "\<not> strikes x k"
    | (struck) "bit (p_psignals x) k" "strikes x k" by blast
  then show ?thesis
  proof cases
    case quiet
    then have n: "\<not> strikes x k" by (simp add: strikes_def)
    have "deliver_default k ?d = ?d" using quiet by (simp add: deliver_default_def b)
    then show ?thesis using quiet n st by (simp add: delivered_def kills_Suc freezes_Suc)
  next
    case dropped
    then have "deliver_default k ?d = clear_pending k ?d"
      by (auto simp: deliver_default_def b strikes_def default_action_def)
    then show ?thesis using dropped st by (simp add: delivered_def clear_pending_def kills_Suc freezes_Suc)
  next
    case struck
    then have "deliver_default k ?d = default_action k (clear_pending k ?d)" "p_sig_handlers x k \<noteq> SIG_IGN"
      by (simp_all add: deliver_default_def b strikes_def)
    then show ?thesis using struck st
      by (auto simp: default_action_def b delivered_def clear_pending_def kills_Suc freezes_Suc)
  qed
qed

lemma deliver_all_eq: "deliver_all x = delivered 32 x"
proof -
  have "fold deliver_default [0..<k] x = delivered k x" if "k \<le> 32" for k
    using that
  proof (induction k)
    case 0
    then show ?case by (simp add: delivered_def kills_def freezes_def)
  next
    case (Suc k)
    then show ?case by (simp add: delivered_Suc)
  qed
  then show ?thesis by (simp add: deliver_all_def)
qed

lemma delivered_pending: "p_psignals (delivered 32 x) = 0"
proof (rule bit_word_eqI)
  fix n assume "n < LENGTH(32)"
  then show "bit (p_psignals (delivered 32 x)) n = bit (0 :: uint) n"
    by (simp add: delivered_def bit_and_iff bit_not_iff bit_mask_iff)
qed

section \<open>Properties of sending and delivery\<close>

text \<open>C22: \<^verbatim>\<open>kill\<close> refuses a signal number out of range; otherwise it looks for the first process with
  the given number to which the signal is not already pending, makes the signal pending for it and
  returns 0, and returns -1 when there is none. Signal 1 alone is accepted and not recorded.\<close>

theorem kill_posts_signal:
  "kill pid signum env s =
     (if signum < 0 \<or> 31 < signum then Ret (- 1) env s
      else case List.find (\<lambda>p. p_pid (ptable s p) = pid \<and> \<not> bit (p_psignals (ptable s p)) (nat signum)) [0..<NPROC] of
        None \<Rightarrow> Ret (- 1) env s
      | Some p \<Rightarrow> Ret 0 env (if signum = 1 then s else s\<lparr>ptable := (ptable s)
          (p := (ptable s p)\<lparr>p_psignals := p_psignals (ptable s p) OR push_bit (nat signum) 1\<rparr>)\<rparr>))"
proof (cases "signum < 0 \<or> 31 < signum")
  case True
  then show ?thesis by (auto simp: kill_def SIG_MIN_def SIG_MAX_def)
next
  case False
  then have n: "nat signum < 32" "(nat signum = 1) = (signum = 1)" by auto
  show ?thesis
    using False kill_from_eq [OF n(1), of "[0..<NPROC]" pid env s]
    unfolding kill_target_def n(2)
    by (simp add: kill_def SIG_MIN_def SIG_MAX_def post_def sig_bit_def split: option.split)
qed

text \<open>C23: On the way back to user mode a process whose handlers are all default or ignored receives every
  pending signal at once: afterwards nothing is pending, it is killed if one of the signals other than
  stop and continue was pending and neither blocked nor ignored, and it is stopped or not by the stop
  and continue signals, where continue wins. A blocked signal is no longer pending either, and has no
  effect; stop and kill are never blocked.\<close>

theorem default_signals_delivered:
  assumes "cpu_ok (hw s)" and "cur_proc (hw s) = Some p" and "tf_cs (tframes s tf) AND 3 = DPL_USER"
    and "p_state (ptable s p) = RUNNING"
    and "\<And>n. n < 32 \<Longrightarrow> p_sig_handlers (ptable s p) n = SIG_DFL \<or> p_sig_handlers (ptable s p) n = SIG_IGN"
  shows "let x = ptable s p;
      struck = (\<lambda>n. bit (p_psignals x) n \<and> p_sig_handlers x n = SIG_DFL \<and>
        (bit (p_sigmask x) n \<longrightarrow> n = SIGSTOP \<or> n = SIGKILL))
    in handle_signals tf env s = Ret () env (s\<lparr>ptable := (ptable s)(p := x\<lparr>p_psignals := 0,
      p_killed := p_killed x \<or> (\<exists>n < 32. struck n \<and> n \<noteq> SIGSTOP \<and> n \<noteq> SIGCONT),
      p_frozen := (p_frozen x \<or> struck SIGSTOP) \<and> \<not> struck SIGCONT\<rparr>)\<rparr>)"
proof -
  let ?x = "ptable s p"
  have d: "defaults_only ?x" using assms(4,5) by (simp add: defaults_only_def)
  have str: "strikes ?x n \<longleftrightarrow> bit (p_psignals ?x) n \<and> p_sig_handlers ?x n = SIG_DFL \<and>
      (bit (p_sigmask ?x) n \<longrightarrow> n = SIGSTOP \<or> n = SIGKILL)" if "n < 32" for n
    using assms(5) [OF that] by (auto simp: strikes_def blocks_def SIG_DFL_def SIG_IGN_def)
  have lt: "SIGSTOP < 32" "SIGCONT < 32" by (simp_all add: SIGSTOP_def SIGCONT_def)
  have "delivered 32 ?x = ?x\<lparr>p_psignals := 0, p_killed := p_killed ?x \<or> kills 32 ?x, p_frozen := freezes 32 ?x\<rparr>"
    using delivered_pending [of ?x] by (simp add: delivered_def)
  moreover have "freezes 32 ?x = ((p_frozen ?x \<or> strikes ?x SIGSTOP) \<and> \<not> strikes ?x SIGCONT)"
    using lt by (auto simp: freezes_def)
  moreover have "kills 32 ?x = (\<exists>n < 32. (bit (p_psignals ?x) n \<and> p_sig_handlers ?x n = SIG_DFL \<and>
      (bit (p_sigmask ?x) n \<longrightarrow> n = SIGSTOP \<or> n = SIGKILL)) \<and> n \<noteq> SIGSTOP \<and> n \<noteq> SIGCONT)"
    unfolding kills_def using str by blast
  ultimately show ?thesis
    using handle_signals_exec [OF assms(1,2) d assms(3), of env] str [OF lt(1)] str [OF lt(2)]
    unfolding Let_def deliver_all_eq set_proc_def by simp
qed

text \<open>A process with a kill and a stop signal pending, both blocked by its mask.\<close>

definition signalled :: kernel where
  "signalled = one_proc\<lparr>tframes := (\<lambda>_. zero_tf\<lparr>tf_cs := 0x1b\<rparr>), ptable := (\<lambda>_. zero_proc\<lparr>p_state := RUNNING,
     p_psignals := 0x20200, p_sigmask := 0xFFFFFFFF\<rparr>)\<rparr>"

theorem default_signals_delivered_witness:
  "\<exists>s'. handle_signals 0 [] signalled = Ret () [] s' \<and> p_killed (ptable s' 0) \<and> p_frozen (ptable s' 0) \<and>
     p_psignals (ptable s' 0) = 0"
proof -
  have "bit (0x20200 :: uint) 9" "bit (0x20200 :: uint) 17" "\<not> bit (0x20200 :: uint) 19"
    by (simp_all add: bit_iff_odd_drop_bit)
  moreover have "0x1b AND 3 = (3 :: ushort)" by simp
  ultimately show ?thesis
    using default_signals_delivered [of signalled 0 0 "[]"]
    by (auto simp: signalled_def Let_def zero_proc_def SIG_DFL_def DPL_USER_def SIGSTOP_def SIGKILL_def SIGCONT_def
        intro!: exI [of _ 9])
qed

end
