(* ===== verification/Devices.thy ===== *)
theory Devices
  imports Kprint
begin

text \<open>
  The devices the kernel sets up (\<^verbatim>\<open>mp.c\<close>, \<^verbatim>\<open>lapic.c\<close>, \<^verbatim>\<open>ioapic.c\<close>,
  \<^verbatim>\<open>picirq.c\<close>, \<^verbatim>\<open>uart.c\<close>). Reading a port or a register gives what the state says the
  device has; what the environment does at a wait may change it. Writing a port appends to
  \<open>port_out\<close>; the characters the serial port sends are in \<open>console_out\<close>.
\<close>

section \<open>Ports (x86.h)\<close>

definition inb :: "ushort \<Rightarrow> uchar kernel_op" where
  "inb port = kget (\<lambda>s. port_in s port)"

definition outb :: "ushort \<Rightarrow> uchar \<Rightarrow> unit kernel_op" where
  "outb port v = kmod (\<lambda>s. s\<lparr>port_out := port_out s @ [OutB port v]\<rparr>)"

definition outsl :: "ushort \<Rightarrow> block \<Rightarrow> unit kernel_op" where
  "outsl port bs = kmod (\<lambda>s. s\<lparr>port_out := port_out s @ [OutSL port bs]\<rparr>)"

section \<open>The multiprocessor tables (mp.c)\<close>

definition MPPROC :: uchar where [param_defs]: "MPPROC = 0"
definition MPBUS :: uchar where [param_defs]: "MPBUS = 1"
definition MPIOAPIC :: uchar where [param_defs]: "MPIOAPIC = 2"
definition MPIOINTR :: uchar where [param_defs]: "MPIOINTR = 3"
definition MPLINTR :: uchar where [param_defs]: "MPLINTR = 4"

text \<open>\<^verbatim>\<open>sum\<close>: the low byte of the sum of the bytes.\<close>

definition mpsum :: "32 bytes \<Rightarrow> uint \<Rightarrow> nat \<Rightarrow> uchar" where
  "mpsum m addr len = fold (\<lambda>i acc. acc + m (addr + of_nat i)) [0..<len] 0"

definition has_signature :: "32 bytes \<Rightarrow> uint \<Rightarrow> string \<Rightarrow> bool" where
  "has_signature m p t \<longleftrightarrow> map (\<lambda>i. m (p + of_nat i)) [0..<length t] = map of_char t"

definition mpsearch1 :: "32 bytes \<Rightarrow> uint \<Rightarrow> nat \<Rightarrow> uint option" where
  "mpsearch1 m a len =
     find (\<lambda>p. has_signature m p ''_MP_'' \<and> mpsum m p 16 = 0)
       (map (\<lambda>i. P2V a + of_nat (16 * i)) [0..<(len + 15) div 16])"

definition mpsearch :: "32 bytes \<Rightarrow> uint option" where
  "mpsearch m =
     (let bda = P2V 0x400;
          p = push_bit 4 (push_bit 8 (ucast (m (bda + 0x0F))) OR ucast (m (bda + 0x0E)));
          q = (push_bit 8 (ucast (m (bda + 0x14))) OR ucast (m (bda + 0x13))) * 1024
      in case (if p \<noteq> 0 then mpsearch1 m p 1024 else mpsearch1 m (q - 1024) 1024) of
           Some mp \<Rightarrow> Some mp
         | None \<Rightarrow> mpsearch1 m 0xF0000 0x10000)"

definition conf_length :: "32 bytes \<Rightarrow> uint \<Rightarrow> nat" where
  "conf_length m conf = unat (le_word16 [m (conf + 4), m (conf + 5)])"

text \<open>The floating structure and the configuration table.\<close>

definition mpconfig :: "32 bytes \<Rightarrow> (uint \<times> uint) option" where
  "mpconfig m =
     (case mpsearch m of None \<Rightarrow> None | Some mp \<Rightarrow>
      if load32 m (mp + 4) = 0 then None
      else
        let conf = P2V (load32 m (mp + 4)) in
        if \<not> has_signature m conf ''PCMP'' then None
        else if m (conf + 6) \<noteq> 1 \<and> m (conf + 6) \<noteq> 4 then None
        else if mpsum m conf (conf_length m conf) \<noteq> 0 then None
        else Some (mp, conf))"

text \<open>
  The loop over the entries. The \<^verbatim>\<open>break\<close> of the default case only leaves the \<^verbatim>\<open>switch\<close>,
  so an unknown entry is looked at again. A run of the loop that uses up the bound has not
  returned.
\<close>

fun mpinit_entries :: "nat \<Rightarrow> uint \<Rightarrow> uint \<Rightarrow> bool \<Rightarrow> bool kernel_op" where
  "mpinit_entries 0 p e ismp = (\<lambda>env s. Blocked)"
| "mpinit_entries (Suc n) p e ismp =
     (if p < e then
        kbind (kget (\<lambda>s. mem s p)) (\<lambda>ty.
        if ty = MPPROC then
          kthen (kmod (\<lambda>s. if hw_ncpu (hw s) < NCPU
                  then s\<lparr>hw := (hw s)\<lparr>hw_cpus := (hw_cpus (hw s))(hw_ncpu (hw s) :=
                           (hw_cpus (hw s) (hw_ncpu (hw s)))\<lparr>c_apicid := unat (mem s (p + 1))\<rparr>),
                         hw_ncpu := hw_ncpu (hw s) + 1\<rparr>\<rparr>
                  else s))
            (mpinit_entries n (p + 20) e ismp)
        else if ty = MPIOAPIC then
          kthen (kmod (\<lambda>s. s\<lparr>ioapicid := mem s (p + 1)\<rparr>))
            (mpinit_entries n (p + 8) e ismp)
        else if ty = MPBUS \<or> ty = MPIOINTR \<or> ty = MPLINTR then
          mpinit_entries n (p + 8) e ismp
        else mpinit_entries n p e False)
      else kret ismp)"

definition mpinit :: "unit kernel_op" where
  "mpinit =
     kbind (kget (\<lambda>s. mpconfig (mem s))) (\<lambda>r.
     case r of None \<Rightarrow> kpanic ''Expect to run on an SMP'' | Some (mp, conf) \<Rightarrow>
     kthen (kmod (\<lambda>s. s\<lparr>lapic := load32 (mem s) (conf + 36)\<rparr>)) (
     kbind (kget (\<lambda>s. conf_length (mem s) conf)) (\<lambda>len.
     kbind (mpinit_entries (Suc len) (conf + 44) (conf + of_nat len) True) (\<lambda>ismp.
     kthen (kassert ismp ''Didn't find a suitable machine'') (
     kbind (kget (\<lambda>s. mem s (mp + 12))) (\<lambda>imcrp.
     kwhen (imcrp \<noteq> 0)
       (kthen (outb 0x22 0x70) (
        kbind (inb 0x23) (\<lambda>v. outb 0x23 (v OR 1))))))))))"

section \<open>The local interrupt controller (lapic.c)\<close>

definition T_IRQ0 :: uint where [param_defs]: "T_IRQ0 = 32"
definition IRQ_TIMER :: uint where [param_defs]: "IRQ_TIMER = 0"
definition IRQ_KBD :: uint where [param_defs]: "IRQ_KBD = 1"
definition IRQ_COM1 :: uint where [param_defs]: "IRQ_COM1 = 4"
definition IRQ_IDE :: uint where [param_defs]: "IRQ_IDE = 14"
definition IRQ_ERROR :: uint where [param_defs]: "IRQ_ERROR = 19"
definition IRQ_SPURIOUS :: uint where [param_defs]: "IRQ_SPURIOUS = 31"

definition lapic_ID :: nat where "lapic_ID = 8"
definition lapic_VER :: nat where "lapic_VER = 12"
definition lapic_TPR :: nat where "lapic_TPR = 32"
definition lapic_EOI :: nat where "lapic_EOI = 44"
definition lapic_SVR :: nat where "lapic_SVR = 60"
definition lapic_ESR :: nat where "lapic_ESR = 160"
definition lapic_ICRLO :: nat where "lapic_ICRLO = 192"
definition lapic_ICRHI :: nat where "lapic_ICRHI = 196"
definition lapic_TIMER :: nat where "lapic_TIMER = 200"
definition lapic_PCINT :: nat where "lapic_PCINT = 208"
definition lapic_LINT0 :: nat where "lapic_LINT0 = 212"
definition lapic_LINT1 :: nat where "lapic_LINT1 = 216"
definition lapic_ERROR :: nat where "lapic_ERROR = 220"
definition lapic_TICR :: nat where "lapic_TICR = 224"
definition lapic_TDCR :: nat where "lapic_TDCR = 248"
definition lapic_ENABLE :: uint where "lapic_ENABLE = 0x100"
definition lapic_INIT :: uint where "lapic_INIT = 0x500"
definition lapic_STARTUP :: uint where "lapic_STARTUP = 0x600"
definition lapic_DELIVS :: uint where "lapic_DELIVS = 0x1000"
definition lapic_ASSERT :: uint where "lapic_ASSERT = 0x4000"
definition lapic_LEVEL :: uint where "lapic_LEVEL = 0x8000"
definition lapic_BCAST :: uint where "lapic_BCAST = 0x80000"
definition lapic_X1 :: uint where "lapic_X1 = 0xB"
definition lapic_PERIODIC :: uint where "lapic_PERIODIC = 0x20000"
definition lapic_MASKED :: uint where "lapic_MASKED = 0x10000"

definition lapicw :: "nat \<Rightarrow> uint \<Rightarrow> unit kernel_op" where
  "lapicw index value = kmod (\<lambda>s. s\<lparr>lapic_regs := (lapic_regs s)(index := value)\<rparr>)"

definition lapicinit :: "unit kernel_op" where
  "lapicinit =
     kbind (kget lapic) (\<lambda>l.
     kwhen (l \<noteq> 0) (
       kthen (lapicw lapic_SVR (lapic_ENABLE OR (T_IRQ0 + IRQ_SPURIOUS))) (
       kthen (lapicw lapic_TDCR lapic_X1) (
       kthen (lapicw lapic_TIMER (lapic_PERIODIC OR (T_IRQ0 + IRQ_TIMER))) (
       kthen (lapicw lapic_TICR 10000000) (
       kthen (lapicw lapic_LINT0 lapic_MASKED) (
       kthen (lapicw lapic_LINT1 lapic_MASKED) (
       kbind (kget (\<lambda>s. drop_bit 16 (lapic_regs s lapic_VER) AND 0xFF)) (\<lambda>ver.
       kthen (kwhen (ver \<ge> 4) (lapicw lapic_PCINT lapic_MASKED)) (
       kthen (lapicw lapic_ERROR (T_IRQ0 + IRQ_ERROR)) (
       kthen (lapicw lapic_ESR 0) (
       kthen (lapicw lapic_ESR 0) (
       kthen (lapicw lapic_EOI 0) (
       kthen (lapicw lapic_ICRHI 0) (
       kthen (lapicw lapic_ICRLO (lapic_BCAST OR lapic_INIT OR lapic_LEVEL)) (
       kthen (kwhile (\<lambda>s. lapic_regs s lapic_ICRLO AND lapic_DELIVS \<noteq> 0) kwait)
         (lapicw lapic_TPR 0)))))))))))))))))"

definition lapiceoi :: "unit kernel_op" where
  "lapiceoi = kbind (kget lapic) (\<lambda>l. kwhen (l \<noteq> 0) (lapicw lapic_EOI 0))"

definition microdelay :: "int \<Rightarrow> unit kernel_op" where
  "microdelay us = kret ()"

definition CMOS_PORT :: ushort where "CMOS_PORT = 0x70"

definition lapicstartap :: "uchar \<Rightarrow> uint \<Rightarrow> unit kernel_op" where
  "lapicstartap apicid addr =
     kthen (outb CMOS_PORT 0xF) (
     kthen (outb (CMOS_PORT + 1) 0x0A) (
     kthen (kmod (\<lambda>s. s\<lparr>mem := write_bytes (mem s) (P2V (push_bit 4 0x40 OR 0x67))
        (le_bytes16 0 @ le_bytes16 (ucast (drop_bit 4 addr)))\<rparr>)) (
     kthen (lapicw lapic_ICRHI (push_bit 24 (ucast apicid))) (
     kthen (lapicw lapic_ICRLO (lapic_INIT OR lapic_LEVEL OR lapic_ASSERT)) (
     kthen (microdelay 200) (
     kthen (lapicw lapic_ICRLO (lapic_INIT OR lapic_LEVEL)) (
     kthen (microdelay 100)
       (kfor [0..<2] (\<lambda>_.
          kthen (lapicw lapic_ICRHI (push_bit 24 (ucast apicid))) (
          kthen (lapicw lapic_ICRLO (lapic_STARTUP OR drop_bit 12 addr))
            (microdelay 200)))))))))))"

subsection \<open>The clock\<close>

record rtcdate =
  rtc_second :: uint
  rtc_minute :: uint
  rtc_hour :: uint
  rtc_day :: uint
  rtc_month :: uint
  rtc_year :: uint

text \<open>The clock runs while a register is being read.\<close>

definition cmos_read :: "uint \<Rightarrow> uint kernel_op" where
  "cmos_read reg =
     kthen (outb CMOS_PORT (ucast reg)) (
     kthen (microdelay 200) (
     kthen kwait
       (kget (\<lambda>s. ucast (cmos s reg)))))"

definition fill_rtcdate :: "rtcdate kernel_op" where
  "fill_rtcdate =
     kbind (cmos_read 0) (\<lambda>sec.
     kbind (cmos_read 2) (\<lambda>mi.
     kbind (cmos_read 4) (\<lambda>h.
     kbind (cmos_read 7) (\<lambda>d.
     kbind (cmos_read 8) (\<lambda>mo.
     kbind (cmos_read 9) (\<lambda>y.
     kret \<lparr>rtc_second = sec, rtc_minute = mi, rtc_hour = h, rtc_day = d, rtc_month = mo,
           rtc_year = y\<rparr>))))))"

definition rtc_try :: "rtcdate option kernel_op" where
  "rtc_try =
     kbind fill_rtcdate (\<lambda>t1.
     kbind (cmos_read 0x0a) (\<lambda>st.
     if st AND 0x80 \<noteq> 0 then kret None
     else kbind fill_rtcdate (\<lambda>t2. kret (if t1 = t2 then Some t1 else None))))"

definition bcd_conv :: "uint \<Rightarrow> uint" where
  "bcd_conv x = drop_bit 4 x * 10 + (x AND 0xf)"

definition rtc_conv :: "rtcdate \<Rightarrow> rtcdate" where
  "rtc_conv t = \<lparr>rtc_second = bcd_conv (rtc_second t), rtc_minute = bcd_conv (rtc_minute t),
     rtc_hour = bcd_conv (rtc_hour t), rtc_day = bcd_conv (rtc_day t),
     rtc_month = bcd_conv (rtc_month t), rtc_year = bcd_conv (rtc_year t)\<rparr>"

definition cmostime :: "rtcdate kernel_op" where
  "cmostime =
     kbind (cmos_read 0x0b) (\<lambda>sb.
     kbind (kloop rtc_try) (\<lambda>t1.
     let t = (if sb AND 4 = 0 then rtc_conv t1 else t1)
     in kret (t\<lparr>rtc_year := rtc_year t + 2000\<rparr>)))"

section \<open>The I/O interrupt controllers (ioapic.c, picirq.c)\<close>

definition REG_ID :: uint where "REG_ID = 0"
definition REG_VER :: uint where "REG_VER = 1"
definition REG_TABLE :: uint where "REG_TABLE = 0x10"
definition INT_DISABLED :: uint where "INT_DISABLED = 0x10000"

definition ioapicread :: "uint \<Rightarrow> uint kernel_op" where
  "ioapicread reg =
     kthen (kmod (\<lambda>s. s\<lparr>ioapic_reg := reg\<rparr>))
       (kget (\<lambda>s. ioapic_regs s (ioapic_reg s)))"

definition ioapicwrite :: "uint \<Rightarrow> uint \<Rightarrow> unit kernel_op" where
  "ioapicwrite reg data =
     kthen (kmod (\<lambda>s. s\<lparr>ioapic_reg := reg\<rparr>))
       (kmod (\<lambda>s. s\<lparr>ioapic_regs := (ioapic_regs s)(ioapic_reg s := data)\<rparr>))"

definition ioapicinit :: "unit kernel_op" where
  "ioapicinit =
     kbind (ioapicread REG_VER) (\<lambda>v.
     kbind (ioapicread REG_ID) (\<lambda>i.
     kbind (kget ioapicid) (\<lambda>me.
     kthen (kwhen (drop_bit 24 i \<noteq> ucast me)
       (cprintf (''ioapicinit: id isn't equal to ioapicid; not a MP'' @ nl) []))
     (kfor [0..<Suc (unat (drop_bit 16 v AND 0xFF))] (\<lambda>k.
        kthen (ioapicwrite (REG_TABLE + 2 * of_nat k) (INT_DISABLED OR (T_IRQ0 + of_nat k)))
          (ioapicwrite (REG_TABLE + 2 * of_nat k + 1) 0))))))"

definition ioapicenable :: "uint \<Rightarrow> uint \<Rightarrow> unit kernel_op" where
  "ioapicenable irq cpunum =
     kthen (ioapicwrite (REG_TABLE + 2 * irq) (T_IRQ0 + irq))
       (ioapicwrite (REG_TABLE + 2 * irq + 1) (push_bit 24 cpunum))"

definition IO_PIC1 :: ushort where "IO_PIC1 = 0x20"
definition IO_PIC2 :: ushort where "IO_PIC2 = 0xA0"

definition picinit :: "unit kernel_op" where
  "picinit = kthen (outb (IO_PIC1 + 1) 0xFF) (outb (IO_PIC2 + 1) 0xFF)"

section \<open>The serial port (uart.c)\<close>

definition COM1 :: ushort where "COM1 = 0x3f8"

definition uartinit :: "unit kernel_op" where
  "uartinit =
     kthen (outb (COM1 + 2) 0) (
     kthen (outb (COM1 + 3) 0x80) (
     kthen (outb COM1 12) (
     kthen (outb (COM1 + 1) 0) (
     kthen (outb (COM1 + 3) 3) (
     kthen (outb (COM1 + 4) 0) (
     kthen (outb (COM1 + 1) 1) (
     kbind (inb (COM1 + 5)) (\<lambda>st.
     kwhen (st \<noteq> 0xFF)
       (kthen (kmod (\<lambda>s. s\<lparr>uart := True\<rparr>)) (
        kbind (inb (COM1 + 2)) (\<lambda>_.
        kbind (inb COM1) (\<lambda>_.
        kthen (ioapicenable IRQ_COM1 0)
          (kfor (''xv6...'' @ nl) (\<lambda>c. uartputc (of_char c)))))))))))))))"

text \<open>
  The argument is the byte the port has received, \<open>None\<close> if there is none (bit 0 of the line
  status); the result \<open>None\<close> is the code's \<^verbatim>\<open>-1\<close>.
\<close>

definition uartgetc :: "uint option \<Rightarrow> uint option kernel_op" where
  "uartgetc inp = kbind (kget uart) (\<lambda>u. kret (if \<not> u then None else inp))"

end
