(* ===== verification/Console.thy ===== *)
theory Console
  imports Inode Signals Devices
begin

text \<open>
  The input half of \<^verbatim>\<open>console.c\<close>, the keyboard decoder \<^verbatim>\<open>kbd.c\<close> and the process
  listing of \<^verbatim>\<open>proc.c\<close>. The characters that an interrupt delivers are an argument; what a
  read hands to its caller is returned as the list of bytes stored.
\<close>

section \<open>The process listing\<close>

fun getcallerpcs_from :: "nat \<Rightarrow> 32 bytes \<Rightarrow> uint \<Rightarrow> uint list" where
  "getcallerpcs_from 0 m ebp = []"
| "getcallerpcs_from (Suc n) m ebp =
     (if ebp = 0 \<or> ebp < KERNBASE \<or> ebp = 0xffffffff then replicate (Suc n) 0
      else load32 m (ebp + 4) # getcallerpcs_from n m (load32 m ebp))"

definition getcallerpcs :: "32 bytes \<Rightarrow> uint \<Rightarrow> uint list" where
  "getcallerpcs m v = getcallerpcs_from 10 m (v - 8)"

fun state_name :: "procstate \<Rightarrow> string" where
  "state_name UNUSED = ''unused''"
| "state_name MINUS_UNUSED = ''minus_unused''"
| "state_name EMBRYO = ''embryo''"
| "state_name SLEEPING = ''sleep ''"
| "state_name MINUS_SLEEPING = ''minus_sleeping''"
| "state_name RUNNABLE = ''runble''"
| "state_name MINUS_RUNNABLE = ''minus_runnable''"
| "state_name RUNNING = ''run   ''"
| "state_name ZOMBIE = ''zombie''"
| "state_name MINUS_ZOMBIE = ''minus_zombie''"

definition procdump_one :: "nat \<Rightarrow> unit kernel_op" where
  "procdump_one p =
     kbind (kget (\<lambda>s. ptable s p)) (\<lambda>x.
     kwhen (p_state x \<noteq> UNUSED)
       (kthen (cprintf ''%d %s %s''
          [FNum (p_pid x), FStr (Some (map of_char (state_name (p_state x)))), FStr (Some (cstring (p_name x) 16))]) (
        kthen (kwhen (p_state x = SLEEPING)
          (kbind (kget (\<lambda>s. getcallerpcs (mem s) (cx_ebp (contexts s (p_context x)) + 8))) (\<lambda>pcs.
           kfor (takeWhile (\<lambda>pc. pc \<noteq> 0) pcs) (\<lambda>pc. cprintf '' %p'' [FNum pc]))))
          (cprintf nl []))))"

definition procdump :: "unit kernel_op" where
  "procdump = kfor [0..<NPROC] procdump_one"

section \<open>Input\<close>

definition INPUT_BUF :: nat where [param_defs]: "INPUT_BUF = 128"

definition upd_input :: "(inputbuf \<Rightarrow> inputbuf) \<Rightarrow> unit kernel_op" where
  "upd_input f = kmod (\<lambda>s. s\<lparr>inputb := f (inputb s)\<rparr>)"

text \<open>Control-x.\<close>

definition ctrl :: "char \<Rightarrow> uint" where
  "ctrl x = of_char x - of_char (CHR ''@'')"

text \<open>The kill-line loop runs at most once per character between \<open>w\<close> and \<open>e\<close>.\<close>

fun kill_line :: "nat \<Rightarrow> unit kernel_op" where
  "kill_line 0 = kret ()"
| "kill_line (Suc n) =
     kbind (kget inputb) (\<lambda>i.
     kwhen (in_e i \<noteq> in_w i \<and> in_buf i (unat (in_e i - 1) mod INPUT_BUF) \<noteq> 10)
       (kthen (upd_input (\<lambda>x. x\<lparr>in_e := in_e x - 1\<rparr>)) (
        kthen (consputc BACKSPACE)
          (kill_line n))))"

definition consoleintr_char :: "uint \<Rightarrow> unit kernel_op" where
  "consoleintr_char c =
     kbind (kget inputb) (\<lambda>i.
     if c = ctrl (CHR ''U'') then kill_line (unat (in_e i - in_w i))
     else if c = ctrl (CHR ''H'') \<or> c = 0x7f then
       kwhen (in_e i \<noteq> in_w i)
         (kthen (upd_input (\<lambda>x. x\<lparr>in_e := in_e x - 1\<rparr>)) (consputc BACKSPACE))
     else
       kwhen (c \<noteq> 0 \<and> in_e i - in_r i < of_nat INPUT_BUF)
         (let c' = (if c = 13 then 10 else c) in
          kthen (upd_input (\<lambda>x. x\<lparr>in_buf := (in_buf x)(unat (in_e x) mod INPUT_BUF := ucast c'),
                                   in_e := in_e x + 1\<rparr>)) (
          kthen (consputc c') (
          kbind (kget inputb) (\<lambda>j.
          kwhen (c' = 10 \<or> c' = ctrl (CHR ''D'') \<or> in_e j = in_r j + of_nat INPUT_BUF)
            (kthen (upd_input (\<lambda>x. x\<lparr>in_w := in_e x\<rparr>))
               (wakeup (Some ChanInput))))))))"

definition consoleintr :: "uint list \<Rightarrow> unit kernel_op" where
  "consoleintr cs =
     kthen (acquire ConsLock) (
     kthen (kfor cs (\<lambda>c. kwhen (c \<noteq> ctrl (CHR ''P'')) (consoleintr_char c))) (
     kthen (release ConsLock)
       (kwhen (ctrl (CHR ''P'') \<in> set cs) procdump)))"

text \<open>
  \<^verbatim>\<open>while(input.r == input.w) ... sleep\<close>; the loop is also left when the process was killed,
  which the caller sees by the buffer being still empty.
\<close>

definition cons_wait :: "nat \<Rightarrow> unit kernel_op" where
  "cons_wait p =
     kwhile (\<lambda>s. in_r (inputb s) = in_w (inputb s) \<and> \<not> p_killed (ptable s p))
       (sleep (Some ChanInput) (Some ConsLock))"

text \<open>The loop of \<^verbatim>\<open>consoleread\<close>: \<open>n\<close> bytes still wanted, \<open>got\<close> the bytes stored so far.\<close>

fun consoleread_loop :: "nat \<Rightarrow> nat \<Rightarrow> uchar list \<Rightarrow> (bool \<times> uchar list) kernel_op" where
  "consoleread_loop 0 target got = kret (True, got)"
| "consoleread_loop (Suc n) target got =
     kbind curproc (\<lambda>p.
     kthen (cons_wait p) (
     kbind (kget inputb) (\<lambda>i.
     if in_r i = in_w i then kret (False, got)
     else
       let c = in_buf i (unat (in_r i) mod INPUT_BUF) in
       kthen (upd_input (\<lambda>x. x\<lparr>in_r := in_r x + 1\<rparr>)) (
       if c = 4 then
         kthen (kwhen (Suc n < target) (upd_input (\<lambda>x. x\<lparr>in_r := in_r x - 1\<rparr>)))
           (kret (True, got))
       else if c = 10 then kret (True, got @ [c])
       else consoleread_loop n target (got @ [c])))))"

definition consoleread :: "nat \<Rightarrow> int \<Rightarrow> (int \<times> uchar list) kernel_op" where
  "consoleread ip n =
     kthen (iunlock (Some ip)) (
     kthen (acquire ConsLock) (
     kbind (consoleread_loop (nat n) (nat n) []) (\<lambda>(ok, got).
     kthen (release ConsLock) (
     kthen (ilock (Some ip))
       (kret (if ok then (if 0 \<le> n then int (length got) else 0, got) else (- 1, got)))))))"

definition consolewrite :: "nat \<Rightarrow> uchar list \<Rightarrow> int kernel_op" where
  "consolewrite ip bs =
     kthen (iunlock (Some ip)) (
     kthen (acquire ConsLock) (
     kthen (kfor bs (\<lambda>b. consputc (ucast b AND 0xff))) (
     kthen (release ConsLock) (
     kthen (ilock (Some ip))
       (kret (int (length bs)))))))"

definition consoleinit :: "unit kernel_op" where
  "consoleinit =
     kthen (initlock ConsLock ''console'') (
     kthen (kmod (\<lambda>s. s\<lparr>devsw_write := (devsw_write s)(CONSOLE := True),
                  devsw_read := (devsw_read s)(CONSOLE := True), cons_locking := True\<rparr>))
       (ioapicenable IRQ_KBD 0))"

section \<open>The keyboard\<close>

definition SHIFT :: uint where "SHIFT = 1"
definition CTL :: uint where "CTL = 2"
definition ALT :: uint where "ALT = 4"
definition CAPSLOCK :: uint where "CAPSLOCK = 8"
definition NUMLOCK :: uint where "NUMLOCK = 16"
definition SCROLLLOCK :: uint where "SCROLLLOCK = 32"
definition E0ESC :: uint where "E0ESC = 64"

definition shiftcode :: "uint \<Rightarrow> uint" where
  "shiftcode d = (if d = 0x1D \<or> d = 0x9D then CTL else if d = 0x2A \<or> d = 0x36 then SHIFT
     else if d = 0x38 \<or> d = 0xB8 then ALT else 0)"

definition togglecode :: "uint \<Rightarrow> uint" where
  "togglecode d = (if d = 0x3A then CAPSLOCK else if d = 0x45 then NUMLOCK
     else if d = 0x46 then SCROLLLOCK else 0)"

text \<open>The keys above the range of the tables that all three key maps share.\<close>

definition special_keys :: "uint \<Rightarrow> uint option" where
  "special_keys = map_of [(0xC8, 0xE2), (0xD0, 0xE3), (0xC9, 0xE6), (0xD1, 0xE7), (0xCB, 0xE4),
     (0xCD, 0xE5), (0x97, 0xE0), (0xCF, 0xE1), (0xD2, 0xE8), (0xD3, 0xE9)]"

definition map_entry :: "uint list \<Rightarrow> (uint \<times> uint) list \<Rightarrow> uint \<Rightarrow> uint" where
  "map_entry tab extra d =
     (if unat d < length tab then tab ! unat d
      else case map_of extra d of Some c \<Rightarrow> c
        | None \<Rightarrow> (case special_keys d of Some c \<Rightarrow> c | None \<Rightarrow> 0))"

definition keys :: "string \<Rightarrow> uint list" where
  "keys t = map of_char t"

definition keypad :: "uint list" where
  "keypad = keys ''789-456+1230.'' @ [0, 0, 0, 0]"

definition normalmap :: "uint \<Rightarrow> uint" where
  "normalmap = map_entry
     ([0, 0x1B] @ keys ''1234567890-='' @ [8, 9] @ keys ''qwertyuiop[]'' @ [10, 0] @
      keys ''asdfghjkl;'' @ [0x27, 0x60, 0, 0x5C] @ keys ''zxcvbnm,./'' @ [0, 0x2A, 0, 0x20] @
      replicate 13 0 @ keypad)
     [(0x9C, 10), (0xB5, of_char (CHR ''/''))]"

definition shiftmap :: "uint \<Rightarrow> uint" where
  "shiftmap = map_entry
     ([0, 0x1B] @ keys ''!@#$%^&*()_+'' @ [8, 9] @ keys ''QWERTYUIOP{}'' @ [10, 0] @
      keys ''ASDFGHJKL:'' @ [0x22, 0x7E, 0, 0x7C] @ keys ''ZXCVBNM<>?'' @ [0, 0x2A, 0, 0x20] @
      replicate 13 0 @ keypad)
     [(0x9C, 10), (0xB5, of_char (CHR ''/''))]"

definition ctlmap :: "uint \<Rightarrow> uint" where
  "ctlmap = map_entry
     (replicate 16 0 @ map ctrl ''QWERTYUIOP'' @ [0, 0, 13, 0] @ map ctrl ''ASDFGHJKL'' @
      [0, 0, 0, 0, 0x5C - 0x40] @ map ctrl ''ZXCVBNM'' @ [0, 0, 0x2F - 0x40, 0, 0])
     [(0x9C, 13), (0xB5, 0x2F - 0x40)]"

text \<open>
  The tables are arrays of bytes. The argument is the byte the controller has, \<open>None\<close> if there
  is none; the result \<open>None\<close> is the code's \<^verbatim>\<open>-1\<close>.
\<close>

definition kbdgetc :: "uint option \<Rightarrow> uint option kernel_op" where
  "kbdgetc inp =
     (case inp of None \<Rightarrow> kret None | Some data \<Rightarrow>
      kbind (kget kbd_shift) (\<lambda>shift.
      if data = 0xE0 then
        kthen (kmod (\<lambda>s. s\<lparr>kbd_shift := shift OR E0ESC\<rparr>)) (kret (Some 0))
      else if data AND 0x80 \<noteq> 0 then
        let data' = (if shift AND E0ESC \<noteq> 0 then data else data AND 0x7F) in
        kthen (kmod (\<lambda>s. s\<lparr>kbd_shift := shift AND NOT (shiftcode data' OR E0ESC)\<rparr>)) (kret (Some 0))
      else
        let (data', shift1) = (if shift AND E0ESC \<noteq> 0 then (data OR 0x80, shift AND NOT E0ESC)
                               else (data, shift));
            shift' = (shift1 OR shiftcode data') XOR togglecode data';
            tab = (if shift' AND (CTL OR SHIFT) = 0 then normalmap
                   else if shift' AND (CTL OR SHIFT) = SHIFT then shiftmap else ctlmap);
            c = tab data' AND 0xFF;
            c' = (if shift' AND CAPSLOCK \<noteq> 0 then
                    (if 97 \<le> c \<and> c \<le> 122 then c - 32
                     else if 65 \<le> c \<and> c \<le> 90 then c + 32 else c)
                  else c)
        in kthen (kmod (\<lambda>s. s\<lparr>kbd_shift := shift'\<rparr>)) (kret (Some c'))))"

text \<open>\<^verbatim>\<open>kbdintr\<close>: the bytes waiting in the controller, decoded one by one.\<close>

fun kbd_drain :: "uint list \<Rightarrow> uint list kernel_op" where
  "kbd_drain [] = kret []"
| "kbd_drain (b # bs) = kbind (kbdgetc (Some b)) (\<lambda>c. kbind (kbd_drain bs) (\<lambda>cs.
     kret (case c of None \<Rightarrow> cs | Some x \<Rightarrow> x # cs)))"

definition kbdintr :: "uint list \<Rightarrow> unit kernel_op" where
  "kbdintr bs = kbind (kbd_drain bs) consoleintr"

text \<open>\<^verbatim>\<open>uartintr\<close>: the same for the serial port.\<close>

fun uart_drain :: "uint list \<Rightarrow> uint list kernel_op" where
  "uart_drain [] = kret []"
| "uart_drain (b # bs) = kbind (uartgetc (Some b)) (\<lambda>c.
     case c of None \<Rightarrow> kret [] | Some x \<Rightarrow> kbind (uart_drain bs) (\<lambda>cs. kret (x # cs)))"

definition uartintr :: "uint list \<Rightarrow> unit kernel_op" where
  "uartintr bs = kbind (uart_drain bs) consoleintr"

end
