(* ===== verification/Fs.thy ===== *)
theory Fs
  imports Console
begin

text \<open>
  File contents, directories and paths (the second half of \<^verbatim>\<open>fs.c\<close>). The bytes read are
  returned and the bytes to write are given as lists; a path is the list of its bytes and a
  path element the list of at most \<^verbatim>\<open>DIRSIZ\<close> bytes that the code keeps in \<^verbatim>\<open>name\<close>.
\<close>

section \<open>Reading and writing files\<close>

text \<open>The loop of \<^verbatim>\<open>readi\<close>: \<open>n\<close> bytes still to read.\<close>

function readi_from :: "nat \<Rightarrow> uint \<Rightarrow> nat \<Rightarrow> uchar list kernel_op" where
  "readi_from ip off n =
     (if n = 0 then kret []
      else
        kbind (kget (\<lambda>s. i_dev (icache s ip))) (\<lambda>dev.
        kbind (bmap ip (off div of_nat BSIZE)) (\<lambda>a.
        kbind (bread dev a) (\<lambda>bp.
        let m = min n (BSIZE - unat off mod BSIZE) in
        kbind (kget (\<lambda>s. read_bytes (b_data (bufs s bp)) (of_nat (unat off mod BSIZE)) m)) (\<lambda>bs.
        kthen (brelse bp) (
        kbind (readi_from ip (off + of_nat m) (n - m)) (\<lambda>rest.
        kret (bs @ rest))))))))"
  by pat_completeness auto
termination
  by (relation "measure (\<lambda>(ip, off, n). n)") (auto simp: BSIZE_def)

definition dev_index :: "cshort \<Rightarrow> nat option" where
  "dev_index major = (if sint major < 0 \<or> sint major \<ge> int NDEV then None else Some (unat major))"

text \<open>The result and the bytes stored at the destination. The only device is the console.\<close>

definition readi :: "nat \<Rightarrow> uint \<Rightarrow> uint \<Rightarrow> (int \<times> uchar list) kernel_op" where
  "readi ip off n =
     kbind (kget (\<lambda>s. (icache s ip, devsw_read s))) (\<lambda>(x, dsw).
     if i_type x = T_DEV then
       (case dev_index (i_major x) of
          None \<Rightarrow> kret (- 1, [])
        | Some d \<Rightarrow> if dsw d then consoleread ip (sint n) else kret (- 1, []))
     else if off > i_size x \<or> off + n < off then kret (- 1, [])
     else
       let n' = (if off + n > i_size x then i_size x - off else n) in
       kbind (readi_from ip off (unat n')) (\<lambda>bs.
       kret (sint n', bs)))"

text \<open>The loop of \<^verbatim>\<open>writei\<close>; it returns the offset it ends at.\<close>

function writei_from :: "nat \<Rightarrow> uint \<Rightarrow> uchar list \<Rightarrow> uint kernel_op" where
  "writei_from ip off src =
     (if src = [] then kret off
      else
        kbind (kget (\<lambda>s. i_dev (icache s ip))) (\<lambda>dev.
        kbind (bmap ip (off div of_nat BSIZE)) (\<lambda>a.
        kbind (bread dev a) (\<lambda>bp.
        let m = min (length src) (BSIZE - unat off mod BSIZE) in
        kthen (upd_bdata bp (\<lambda>d. write_bytes d (of_nat (unat off mod BSIZE)) (take m src))) (
        kthen (log_write bp) (
        kthen (brelse bp)
          (writei_from ip (off + of_nat m) (drop m src))))))))"
  by pat_completeness auto
termination
  by (relation "measure (\<lambda>(ip, off, src). length src)") (auto simp: BSIZE_def)

definition writei :: "nat \<Rightarrow> uchar list \<Rightarrow> uint \<Rightarrow> int kernel_op" where
  "writei ip src off =
     kbind (kget (\<lambda>s. (icache s ip, devsw_write s))) (\<lambda>(x, dsw).
     let n = of_nat (length src) in
     if i_type x = T_DEV then
       (case dev_index (i_major x) of
          None \<Rightarrow> kret (- 1)
        | Some d \<Rightarrow> if dsw d then consolewrite ip src else kret (- 1))
     else if off > i_size x \<or> off + n < off then kret (- 1)
     else if off + n > of_nat (MAXFILE * BSIZE) then kret (- 1)
     else
       kbind (writei_from ip off src) (\<lambda>off'.
       kbind (kget (\<lambda>s. i_size (icache s ip))) (\<lambda>sz.
       kthen (kwhen (0 < length src \<and> off' > sz)
         (kthen (upd_inode ip (\<lambda>y. y\<lparr>i_size := off'\<rparr>))
            (iupdate ip)))
         (kret (sint n)))))"

section \<open>Directories\<close>

definition namecmp :: "uchar list \<Rightarrow> uchar list \<Rightarrow> int" where
  "namecmp p q = strncmp p q DIRSIZ"

text \<open>A \<^verbatim>\<open>struct dirent\<close> is two bytes of inode number and \<^verbatim>\<open>DIRSIZ\<close> bytes of name.\<close>

record dirent =
  de_inum :: ushort
  de_name :: "uchar list"

definition dirent_size :: nat where "dirent_size = 2 + DIRSIZ"

definition get_dirent :: "uchar list \<Rightarrow> dirent" where
  "get_dirent bs = \<lparr>de_inum = le_word16 (take 2 bs),
     de_name = takeWhile (\<lambda>c. c \<noteq> 0) (take DIRSIZ (drop 2 bs))\<rparr>"

definition put_dirent :: "ushort \<Rightarrow> uchar list \<Rightarrow> uchar list" where
  "put_dirent inum name = le_bytes16 inum @ map (strncpy (\<lambda>_. 0) name (int DIRSIZ)) [0..<DIRSIZ]"

text \<open>The entries of a directory of \<open>sz\<close> bytes, by number.\<close>

definition dirent_count :: "uint \<Rightarrow> nat" where
  "dirent_count sz = (unat sz + dirent_size - 1) div dirent_size"

fun dirlookup_from :: "nat \<Rightarrow> uchar list \<Rightarrow> nat list \<Rightarrow> (nat \<times> uint) option kernel_op" where
  "dirlookup_from dp name [] = kret None"
| "dirlookup_from dp name (k # ks) =
     (let off = of_nat (k * dirent_size) in
      kbind (readi dp off (of_nat dirent_size)) (\<lambda>(r, bs).
      kthen (kassert (\<not> r \<noteq> int dirent_size) ''dirlookup read'') (
      let de = get_dirent bs in
      if de_inum de = 0 then dirlookup_from dp name ks
      else if namecmp name (de_name de) = 0 then
        kbind (kget (\<lambda>s. i_dev (icache s dp))) (\<lambda>dev.
        kbind (iget dev (ucast (de_inum de))) (\<lambda>ip.
        kret (Some (ip, off))))
      else dirlookup_from dp name ks)))"

text \<open>The inode found and the offset of its entry.\<close>

definition dirlookup :: "nat \<Rightarrow> uchar list \<Rightarrow> (nat \<times> uint) option kernel_op" where
  "dirlookup dp name =
     kbind (kget (\<lambda>s. icache s dp)) (\<lambda>x.
     kthen (kassert (i_type x = T_DIR) ''dirlookup not DIR'')
       (dirlookup_from dp name [0..<dirent_count (i_size x)]))"

fun dirlink_slot :: "nat \<Rightarrow> nat list \<Rightarrow> nat \<Rightarrow> uint kernel_op" where
  "dirlink_slot dp [] k = kret (of_nat (k * dirent_size))"
| "dirlink_slot dp (k # ks) k' =
     kbind (readi dp (of_nat (k * dirent_size)) (of_nat dirent_size)) (\<lambda>(r, bs).
     kthen (kassert (\<not> r \<noteq> int dirent_size) ''dirlink read'') (
     if de_inum (get_dirent bs) = 0 then kret (of_nat (k * dirent_size))
     else dirlink_slot dp ks k'))"

definition dirlink :: "nat \<Rightarrow> uchar list \<Rightarrow> uint \<Rightarrow> int kernel_op" where
  "dirlink dp name inum =
     kbind (dirlookup dp name) (\<lambda>r.
     case r of
       Some (ip, _) \<Rightarrow> kthen (iput ip) (kret (- 1))
     | None \<Rightarrow>
         kbind (kget (\<lambda>s. dirent_count (i_size (icache s dp)))) (\<lambda>n.
         kbind (dirlink_slot dp [0..<n] n) (\<lambda>off.
         kbind (writei dp (put_dirent (ucast inum) name) off) (\<lambda>w.
         kthen (kassert (\<not> w \<noteq> int dirent_size) ''dirlink'')
           (kret 0)))))"

section \<open>Paths\<close>

definition slash :: uchar where "slash = of_char (CHR ''/'')"

text \<open>The element and the rest of the path, or \<open>None\<close> for the null pointer.\<close>

definition skipelem :: "uchar list \<Rightarrow> (uchar list \<times> uchar list) option" where
  "skipelem path =
     (let path1 = dropWhile (\<lambda>c. c = slash) path in
      if path1 = [] then None
      else
        let s = takeWhile (\<lambda>c. c \<noteq> slash) path1;
            path2 = dropWhile (\<lambda>c. c \<noteq> slash) path1
        in Some (take DIRSIZ s, dropWhile (\<lambda>c. c = slash) path2))"

lemma skipelem_shorter: "skipelem path = Some (name, rest) \<Longrightarrow> length rest < length path"
proof -
  assume a: "skipelem path = Some (name, rest)"
  define p1 where "p1 = dropWhile (\<lambda>c. c = slash) path"
  from a have ne: "p1 \<noteq> []" and rest: "rest = dropWhile (\<lambda>c. c = slash) (dropWhile (\<lambda>c. c \<noteq> slash) p1)"
    by (auto simp: skipelem_def p1_def Let_def split: if_splits)
  from ne have "hd p1 \<noteq> slash" unfolding p1_def by (rule hd_dropWhile)
  with ne have "length (dropWhile (\<lambda>c. c \<noteq> slash) p1) < length p1"
    by (cases p1) (auto intro: le_imp_less_Suc length_dropWhile_le)
  moreover have "length p1 \<le> length path" unfolding p1_def by (rule length_dropWhile_le)
  moreover have "length rest \<le> length (dropWhile (\<lambda>c. c \<noteq> slash) p1)"
    unfolding rest by (rule length_dropWhile_le)
  ultimately show ?thesis by linarith
qed

text \<open>The loop of \<^verbatim>\<open>namex\<close>; \<open>name\<close> is the element copied last.\<close>

function namex_from :: "nat \<Rightarrow> uchar list \<Rightarrow> uchar list \<Rightarrow> bool \<Rightarrow> (nat \<times> uchar list) option kernel_op" where
  "namex_from ip path name nameiparent =
     (case skipelem path of
        None \<Rightarrow>
          if nameiparent then kthen (iput ip) (kret None)
          else kret (Some (ip, name))
      | Some (elem, rest) \<Rightarrow>
          kthen (ilock (Some ip)) (
          kbind (kget (\<lambda>s. i_type (icache s ip))) (\<lambda>ty.
          if ty \<noteq> T_DIR then kthen (iunlockput ip) (kret None)
          else if nameiparent \<and> rest = [] then
            kthen (iunlock (Some ip)) (kret (Some (ip, elem)))
          else
            kbind (dirlookup ip elem) (\<lambda>r.
            case r of
              None \<Rightarrow> kthen (iunlockput ip) (kret None)
            | Some (nxt, _) \<Rightarrow>
                kthen (iunlockput ip) (namex_from nxt rest elem nameiparent)))))"
  by pat_completeness auto
termination
  by (relation "measure (\<lambda>(ip, path, name, np). length path)") (auto dest: skipelem_shorter)

definition namex :: "uchar list \<Rightarrow> bool \<Rightarrow> (nat \<times> uchar list) option kernel_op" where
  "namex path nameiparent =
     kbind (if cchar path = slash then iget ROOTDEV ROOTINO
            else kbind curproc (\<lambda>p.
              kbind (kget (\<lambda>s. p_cwd (ptable s p))) (\<lambda>cwd.
              case cwd of None \<Rightarrow> kpanic ''trap'' | Some d \<Rightarrow> idup d))) (\<lambda>ip.
     namex_from ip path [] nameiparent)"

definition namei :: "uchar list \<Rightarrow> nat option kernel_op" where
  "namei path = kbind (namex path False) (\<lambda>r. kret (map_option fst r))"

definition nameiparent :: "uchar list \<Rightarrow> (nat \<times> uchar list) option kernel_op" where
  "nameiparent path = namex path True"

end
