(* ===== verification/Queues.thy ===== *)
theory Queues
  imports Prelude
begin

text \<open>
  Bounded queues. The kernel has several ring buffers (pipes, the console's input); each keeps
  counters that only grow, and wrap around with the machine word, next to an array indexed by
  the counter modulo its size. The locale \<open>bounded_queue\<close> is what such a buffer promises:
  through \<open>items\<close> its operations are those of a list of at most \<open>cap\<close> elements.
\<close>

section \<open>The interface\<close>

locale bounded_queue =
  fixes put :: "'a \<Rightarrow> 'q \<Rightarrow> 'q"
    and front :: "'q \<Rightarrow> 'a"
    and pop :: "'q \<Rightarrow> 'q"
    and items :: "'q \<Rightarrow> 'a list"
    and ok :: "'q \<Rightarrow> bool"
    and cap :: nat
  assumes items_bound: "ok q \<Longrightarrow> length (items q) \<le> cap"
    and put_items: "ok q \<Longrightarrow> length (items q) < cap \<Longrightarrow> items (put x q) = items q @ [x]"
    and put_ok: "ok q \<Longrightarrow> length (items q) < cap \<Longrightarrow> ok (put x q)"
    and front_items: "ok q \<Longrightarrow> items q \<noteq> [] \<Longrightarrow> front q = hd (items q)"
    and pop_items: "ok q \<Longrightarrow> items q \<noteq> [] \<Longrightarrow> items (pop q) = tl (items q)"
    and pop_ok: "ok q \<Longrightarrow> items q \<noteq> [] \<Longrightarrow> ok (pop q)"
begin

lemma put_all:
  "ok q \<Longrightarrow> length (items q) + length xs \<le> cap \<Longrightarrow>
     items (fold put xs q) = items q @ xs \<and> ok (fold put xs q)"
  by (induction xs arbitrary: q) (auto simp: put_items put_ok)

lemma pop_many:
  "ok q \<Longrightarrow> n \<le> length (items q) \<Longrightarrow> items ((pop ^^ n) q) = drop n (items q) \<and> ok ((pop ^^ n) q)"
proof (induction n)
  case (Suc n)
  then have "items ((pop ^^ n) q) = drop n (items q)" "ok ((pop ^^ n) q)" "drop n (items q) \<noteq> []"
    by auto
  then show ?case by (simp add: pop_items pop_ok drop_Suc tl_drop)
qed simp

end

text \<open>
  A producer and a consumer that share a buffer: \<open>sent\<close> and \<open>got\<close> are what each has put and
  taken so far.
\<close>

record ('q, 'a) channel_state =
  ch_buf :: 'q
  ch_sent :: "'a list"
  ch_got :: "'a list"

inductive channel_act ::
  "('a \<Rightarrow> 'q \<Rightarrow> 'q) \<Rightarrow> ('q \<Rightarrow> 'a) \<Rightarrow> ('q \<Rightarrow> 'q) \<Rightarrow> ('q \<Rightarrow> bool) \<Rightarrow> ('q \<Rightarrow> bool) \<Rightarrow>
     ('q, 'a) channel_state \<Rightarrow> ('q, 'a) channel_state \<Rightarrow> bool"
  for put :: "'a \<Rightarrow> 'q \<Rightarrow> 'q" and front :: "'q \<Rightarrow> 'a" and pop :: "'q \<Rightarrow> 'q"
    and isfull :: "'q \<Rightarrow> bool" and isempty :: "'q \<Rightarrow> bool" where
  send: "\<not> isfull (ch_buf s) \<Longrightarrow> channel_act put front pop isfull isempty s
    (s\<lparr>ch_buf := put x (ch_buf s), ch_sent := ch_sent s @ [x]\<rparr>)"
| take: "\<not> isempty (ch_buf s) \<Longrightarrow> channel_act put front pop isfull isempty s
    (s\<lparr>ch_buf := pop (ch_buf s), ch_got := ch_got s @ [front (ch_buf s)]\<rparr>)"

inductive_cases channel_actE: "channel_act put front pop isfull isempty s t"

locale tested_queue = bounded_queue put front pop items ok cap
  for put :: "'a \<Rightarrow> 'q \<Rightarrow> 'q" and front and pop and items and ok and cap +
  fixes isfull :: "'q \<Rightarrow> bool"
    and isempty :: "'q \<Rightarrow> bool"
  assumes full_iff: "ok q \<Longrightarrow> isfull q \<longleftrightarrow> length (items q) = cap"
    and empty_iff: "ok q \<Longrightarrow> isempty q \<longleftrightarrow> items q = []"
begin

lemma full_less: "ok q \<Longrightarrow> \<not> isfull q \<Longrightarrow> length (items q) < cap"
  using items_bound [of q] full_iff [of q] by linarith

lemma act_keeps:
  assumes "channel_act put front pop isfull isempty s t"
    and "ok (ch_buf s) \<and> ch_sent s = ch_got s @ items (ch_buf s)"
  shows "ok (ch_buf t) \<and> ch_sent t = ch_got t @ items (ch_buf t)"
  using assms
  by (elim channel_actE) (auto simp: full_less empty_iff put_items put_ok pop_items pop_ok front_items)

end

section \<open>Counters modulo a size\<close>

lemma unat_add_mod:
  fixes a :: uint
  assumes "m dvd 4294967296"
  shows "unat (a + of_nat i) mod m = (unat a + i) mod m"
proof -
  have "unat (a + of_nat i) = (unat a + i) mod 4294967296"
    by (simp add: unat_word_ariths unat_of_nat mod_add_right_eq)
  then show ?thesis using assms by (simp add: mod_mod_cancel)
qed

lemma ring_slots_differ:
  assumes "i < k" and "k < (n :: nat)"
  shows "(a + i) mod n \<noteq> (a + k) mod n"
proof
  assume "(a + i) mod n = (a + k) mod n"
  then have "n dvd (a + k) - (a + i)" using assms by (metis mod_eq_dvd_iff_nat nat_add_left_cancel_le less_imp_le)
  then show False using assms by (auto dest: dvd_imp_le)
qed

text \<open>The elements between two counters.\<close>

definition ring_items :: "(nat \<Rightarrow> 'a) \<Rightarrow> nat \<Rightarrow> uint \<Rightarrow> uint \<Rightarrow> 'a list" where
  "ring_items f n r w = map (\<lambda>i. f ((unat r + i) mod n)) [0..<unat (w - r)]"

lemma length_ring_items [simp]: "length (ring_items f n r w) = unat (w - r)"
  by (simp add: ring_items_def)

lemma ring_items_Nil: "ring_items f n r w = [] \<longleftrightarrow> w = r"
  by (simp add: ring_items_def unat_eq_zero)

lemma ring_put:
  assumes "n dvd 4294967296" and "unat (w - r) < n" and "n \<le> 65536"
  shows "ring_items (f(unat w mod n := x)) n r (w + 1) = ring_items f n r w @ [x]"
    and "unat (w + 1 - r) = Suc (unat (w - r))"
proof -
  let ?k = "unat (w - r)"
  have "unat (w - r + 1) = Suc ?k" using assms(2,3) by (simp add: unat_word_ariths)
  then show l: "unat (w + 1 - r) = Suc ?k" by (simp add: algebra_simps)
  have w: "unat w mod n = (unat r + ?k) mod n"
    using unat_add_mod [OF assms(1), of r ?k] by simp
  have "(f(unat w mod n := x)) ((unat r + i) mod n) = f ((unat r + i) mod n)" if "i < ?k" for i
    using ring_slots_differ [OF that assms(2), of "unat r"] by (simp add: w)
  then show "ring_items (f(unat w mod n := x)) n r (w + 1) = ring_items f n r w @ [x]"
    unfolding ring_items_def l by (simp add: w)
qed

lemma ring_pop:
  assumes "n dvd 4294967296" and "w \<noteq> r"
  shows "f (unat r mod n) = hd (ring_items f n r w)"
    and "ring_items f n (r + 1) w = tl (ring_items f n r w)" and "unat (w - (r + 1)) = unat (w - r) - 1"
proof -
  obtain k where k: "unat (w - r) = Suc k" using assms(2) by (cases "unat (w - r)") (auto simp: unat_eq_zero)
  have "unat (w - r - 1) = unat (w - r) - 1"
    by (rule unat_minus_one) (use assms(2) in simp)
  then show l: "unat (w - (r + 1)) = unat (w - r) - 1" by (simp add: algebra_simps)
  show "f (unat r mod n) = hd (ring_items f n r w)"
    unfolding ring_items_def k by (simp add: upt_conv_Cons del: upt_Suc)
  have "(unat (r + 1) + i) mod n = (unat r + Suc i) mod n" for i
    using unat_add_mod [OF assms(1), of r 1] by (metis add_Suc_right add_Suc_shift mod_add_left_eq of_nat_1 Suc_eq_plus1)
  then show "ring_items f n (r + 1) w = tl (ring_items f n r w)"
    unfolding ring_items_def l k by (simp add: upt_conv_Cons map_Suc_upt [symmetric] del: upt_Suc)
qed

end
