(* ===== verification/Pipe.thy ===== *)
theory Pipe
  imports Sched Queues Machines
begin

text \<open>
  Pipes (\<^verbatim>\<open>pipe.c\<close>): a ring buffer between two ends, with sleeping on both sides. A pipe is
  named by the address of its page. The bytes written are given and the bytes read are
  returned as lists.
\<close>

definition upd_pipe :: "uint \<Rightarrow> (pipe \<Rightarrow> pipe) \<Rightarrow> unit kernel_op" where
  "upd_pipe p f = kmod (\<lambda>s. s\<lparr>pipes := (pipes s)(p := f (pipes s p))\<rparr>)"

definition pipeclose :: "uint \<Rightarrow> bool \<Rightarrow> unit kernel_op" where
  "pipeclose p writable =
     kthen (acquire (PipeLock p)) (
     kthen (if writable then
              kthen (upd_pipe p (\<lambda>x. x\<lparr>pi_writeopen := False\<rparr>)) (wakeup (Some (ChanPipeRead p)))
            else
              kthen (upd_pipe p (\<lambda>x. x\<lparr>pi_readopen := False\<rparr>)) (wakeup (Some (ChanPipeWrite p)))) (
     kbind (kget (\<lambda>s. pipes s p)) (\<lambda>x.
     if \<not> pi_readopen x \<and> \<not> pi_writeopen x
     then kthen (release (PipeLock p)) (kfree p)
     else release (PipeLock p))))"

definition pipe_full :: "pipe \<Rightarrow> bool" where
  "pipe_full x \<longleftrightarrow> pi_nwrite x = pi_nread x + of_nat PIPESIZE"

definition pipe_empty :: "pipe \<Rightarrow> bool" where
  "pipe_empty x \<longleftrightarrow> pi_nread x = pi_nwrite x"

definition pipe_put :: "uchar \<Rightarrow> pipe \<Rightarrow> pipe" where
  "pipe_put b x = x\<lparr>pi_data := (pi_data x)(unat (pi_nwrite x) mod PIPESIZE := b),
                     pi_nwrite := pi_nwrite x + 1\<rparr>"

definition pipe_get :: "pipe \<Rightarrow> uchar" where
  "pipe_get x = pi_data x (unat (pi_nread x) mod PIPESIZE)"

definition pipe_drop :: "pipe \<Rightarrow> pipe" where
  "pipe_drop x = x\<lparr>pi_nread := pi_nread x + 1\<rparr>"

text \<open>
  The wait for room; it is left with the pipe still full when the other end is closed or the
  process was killed.
\<close>

definition pipewrite_wait :: "uint \<Rightarrow> nat \<Rightarrow> unit kernel_op" where
  "pipewrite_wait p me =
     kwhile (\<lambda>s. pipe_full (pipes s p) \<and> pi_readopen (pipes s p) \<and> \<not> p_killed (ptable s me))
       (kthen (wakeup (Some (ChanPipeRead p)))
          (sleep (Some (ChanPipeWrite p)) (Some (PipeLock p))))"

fun pipewrite_loop :: "uint \<Rightarrow> uchar list \<Rightarrow> bool kernel_op" where
  "pipewrite_loop p [] = kret True"
| "pipewrite_loop p (b # bs) =
     kbind (kget (\<lambda>s. pipe_full (pipes s p))) (\<lambda>full.
     kbind (if full then
              kbind curproc (\<lambda>me.
              kthen (pipewrite_wait p me) (kget (\<lambda>s. pipe_full (pipes s p))))
            else kret False) (\<lambda>stuck.
     if stuck then kret False
     else kthen (upd_pipe p (pipe_put b)) (pipewrite_loop p bs)))"

definition pipewrite :: "uint \<Rightarrow> uchar list \<Rightarrow> int kernel_op" where
  "pipewrite p bs =
     kthen (acquire (PipeLock p)) (
     kbind (pipewrite_loop p bs) (\<lambda>ok.
     if \<not> ok then kthen (release (PipeLock p)) (kret (- 1))
     else
       kthen (wakeup (Some (ChanPipeRead p))) (
       kthen (release (PipeLock p))
         (kret (int (length bs))))))"

definition piperead_wait :: "uint \<Rightarrow> nat \<Rightarrow> unit kernel_op" where
  "piperead_wait p me =
     kwhile (\<lambda>s. pipe_empty (pipes s p) \<and> pi_writeopen (pipes s p) \<and> \<not> p_killed (ptable s me))
       (sleep (Some (ChanPipeRead p)) (Some (PipeLock p)))"

fun piperead_copy :: "uint \<Rightarrow> nat \<Rightarrow> uchar list kernel_op" where
  "piperead_copy p 0 = kret []"
| "piperead_copy p (Suc n) =
     kbind (kget (\<lambda>s. pipes s p)) (\<lambda>x.
     if pipe_empty x then kret []
     else
       kthen (upd_pipe p pipe_drop) (
       kbind (piperead_copy p n) (\<lambda>bs.
       kret (pipe_get x # bs))))"

definition piperead :: "uint \<Rightarrow> int \<Rightarrow> (int \<times> uchar list) kernel_op" where
  "piperead p n =
     kthen (acquire (PipeLock p)) (
     kbind (kget (\<lambda>s. pipes s p)) (\<lambda>x.
     kbind (if pipe_empty x \<and> pi_writeopen x then
              kbind curproc (\<lambda>me.
              kthen (piperead_wait p me) (kget (\<lambda>s. pipe_empty (pipes s p) \<and> pi_writeopen (pipes s p))))
            else kret False) (\<lambda>stuck.
     if stuck then kthen (release (PipeLock p)) (kret (- 1, []))
     else
       kbind (piperead_copy p (nat n)) (\<lambda>bs.
       kthen (wakeup (Some (ChanPipeWrite p))) (
       kthen (release (PipeLock p))
         (kret (int (length bs), bs)))))))"

section \<open>A pipe is a queue of bytes\<close>

definition pipe_items :: "pipe \<Rightarrow> uchar list" where
  "pipe_items x = ring_items (pi_data x) PIPESIZE (pi_nread x) (pi_nwrite x)"

definition pipe_ok :: "pipe \<Rightarrow> bool" where
  "pipe_ok x \<longleftrightarrow> length (pipe_items x) \<le> PIPESIZE"

lemma PIPESIZE_dvd: "PIPESIZE dvd 4294967296" "PIPESIZE \<le> 65536" "0 < PIPESIZE"
  by (simp_all add: PIPESIZE_def)

lemma pipe_len: "length (pipe_items x) = unat (pi_nwrite x - pi_nread x)"
  by (simp add: pipe_items_def)

lemma pipe_full_iff: "pipe_full x \<longleftrightarrow> length (pipe_items x) = PIPESIZE"
proof -
  have "pipe_full x \<longleftrightarrow> pi_nwrite x - pi_nread x = of_nat PIPESIZE"
    by (auto simp: pipe_full_def algebra_simps)
  then show ?thesis by (simp add: pipe_len word_unat_eq_iff PIPESIZE_def)
qed

interpretation pipeq: tested_queue pipe_put pipe_get pipe_drop pipe_items pipe_ok PIPESIZE pipe_full pipe_empty
proof unfold_locales
  fix x b assume "length (pipe_items x) < PIPESIZE"
  then have lt: "unat (pi_nwrite x - pi_nread x) < PIPESIZE" by (simp add: pipe_len)
  note r = ring_put [OF PIPESIZE_dvd(1) lt PIPESIZE_dvd(2)]
  show "pipe_items (pipe_put b x) = pipe_items x @ [b]"
    by (simp add: pipe_items_def pipe_put_def r(1))
  show "pipe_ok (pipe_put b x)"
    using lt by (simp add: pipe_ok_def pipe_len pipe_put_def r(2))
next
  fix x assume ok: "pipe_ok x" and "pipe_items x \<noteq> []"
  then have ne: "pi_nwrite x \<noteq> pi_nread x" by (simp add: pipe_items_def ring_items_Nil)
  note r = ring_pop [OF PIPESIZE_dvd(1) ne]
  show "pipe_get x = hd (pipe_items x)" by (simp add: pipe_get_def pipe_items_def r(1))
  show "pipe_items (pipe_drop x) = tl (pipe_items x)" by (simp add: pipe_drop_def pipe_items_def r(2))
  show "pipe_ok (pipe_drop x)" using ok by (simp add: pipe_ok_def pipe_len pipe_drop_def r(3))
next
  fix x show "pipe_empty x \<longleftrightarrow> pipe_items x = []"
    by (auto simp: pipe_empty_def pipe_items_def ring_items_Nil)
qed (simp_all add: pipe_ok_def pipe_full_iff)

section \<open>What reading and writing do\<close>

definition set_pipe :: "uint \<Rightarrow> pipe \<Rightarrow> kernel \<Rightarrow> kernel" where
  "set_pipe p x s = s\<lparr>pipes := (pipes s)(p := x)\<rparr>"

lemma set_pipe_simps [simp]:
  "pipes (set_pipe p x s) p = x" "set_pipe p y (set_pipe p x s) = set_pipe p y s"
  "hw (set_pipe p x s) = hw s" "ptable (set_pipe p x s) = ptable s" "mem (set_pipe p x s) = mem s"
  "set_pipe p (pipes s p) s = s"
  by (simp_all add: set_pipe_def)

lemma upd_pipe_exec [exec]: "upd_pipe p f env s = Ret () env (set_pipe p (f (pipes s p)) s)"
  by (simp add: upd_pipe_def set_pipe_def)

lemma pipewrite_loop_exec:
  assumes "pipe_ok (pipes s p)" and "length (pipe_items (pipes s p)) + length bs \<le> PIPESIZE"
  shows "pipewrite_loop p bs env s = Ret True env (set_pipe p (fold pipe_put bs (pipes s p)) s)"
  using assms
proof (induction bs arbitrary: s)
  case (Cons b bs)
  then have "length (pipe_items (pipes s p)) < PIPESIZE" by simp
  then have "\<not> pipe_full (pipes s p)" "pipe_ok (pipe_put b (pipes s p))"
      "pipe_items (pipe_put b (pipes s p)) = pipe_items (pipes s p) @ [b]"
    using Cons.prems by (simp_all add: pipe_full_iff pipeq.put_ok pipeq.put_items)
  with Cons show ?case by (simp add: exec)
qed simp

lemma piperead_copy_exec:
  assumes "pipe_ok (pipes s p)"
  shows "piperead_copy p n env s = Ret (List.take n (pipe_items (pipes s p))) env
    (set_pipe p ((pipe_drop ^^ min n (length (pipe_items (pipes s p)))) (pipes s p)) s)"
  using assms
proof (induction n arbitrary: s)
  case (Suc n)
  let ?x = "pipes s p"
  show ?case
  proof (cases "pipe_items ?x")
    case Nil
    then show ?thesis using Suc.prems by (simp add: pipeq.empty_iff)
  next
    case (Cons b bs)
    then have "pipe_get ?x = b" "pipe_items (pipe_drop ?x) = bs" "pipe_ok (pipe_drop ?x)" "\<not> pipe_empty ?x"
      using Suc.prems by (simp_all add: pipeq.front_items pipeq.pop_items pipeq.pop_ok pipeq.empty_iff)
    with Cons Suc.IH [of "set_pipe p (pipe_drop ?x) s"] show ?thesis
      by (simp add: exec funpow_swap1)
  qed
qed simp

definition pipe_chans_settled :: "uint \<Rightarrow> kernel \<Rightarrow> bool" where
  "pipe_chans_settled p s \<longleftrightarrow> settled (Some (ChanPipeRead p)) (ptable s) \<and> settled (Some (ChanPipeWrite p)) (ptable s)"

lemma pipewrite_exec:
  assumes "cpu_ok (hw s)" and "lock_free (PipeLock p) (hw s)" and "pipe_chans_settled p s"
    and "pipe_ok (pipes s p)" and "length (pipe_items (pipes s p)) + length bs \<le> PIPESIZE"
  shows "pipewrite p bs env s = Ret (int (length bs)) env
    (set_pipe p (fold pipe_put bs (pipes s p)) (s\<lparr>ptable := wake (Some (ChanPipeRead p)) (ptable s)\<rparr>))"
  using assms pipewrite_loop_exec [of "s\<lparr>hw := hold (PipeLock p) (hw s)\<rparr>" p bs env]
  by (simp add: pipewrite_def exec pipe_chans_settled_def set_pipe_def)

lemma piperead_exec:
  assumes "cpu_ok (hw s)" and "lock_free (PipeLock p) (hw s)" and "pipe_chans_settled p s"
    and "pipe_ok (pipes s p)" and "pipe_items (pipes s p) \<noteq> [] \<or> \<not> pi_writeopen (pipes s p)"
  shows "piperead p n env s = Ret (int (min (nat n) (length (pipe_items (pipes s p)))), List.take (nat n) (pipe_items (pipes s p))) env
    (set_pipe p ((pipe_drop ^^ min (nat n) (length (pipe_items (pipes s p)))) (pipes s p))
       (s\<lparr>ptable := wake (Some (ChanPipeWrite p)) (ptable s)\<rparr>))"
  using assms piperead_copy_exec [of "s\<lparr>hw := hold (PipeLock p) (hw s)\<rparr>" p "nat n" env]
  by (auto simp: piperead_def exec pipe_chans_settled_def set_pipe_def pipeq.empty_iff)

text \<open>The two ends of a pipe as a producer and a consumer.\<close>

interpretation pipe_channel: machine
  "\<lambda>s. pipe_empty (ch_buf s) \<and> ch_sent s = [] \<and> ch_got s = []"
  "channel_act pipe_put pipe_get pipe_drop pipe_full pipe_empty"
  "\<lambda>s. pipe_ok (ch_buf s) \<and> ch_sent s = ch_got s @ pipe_items (ch_buf s)"
proof unfold_locales
  fix s :: "(pipe, uchar) channel_state"
  assume "pipe_empty (ch_buf s) \<and> ch_sent s = [] \<and> ch_got s = []"
  then show "pipe_ok (ch_buf s) \<and> ch_sent s = ch_got s @ pipe_items (ch_buf s)"
    by (simp add: pipe_ok_def pipe_empty_def pipe_items_def ring_items_def)
qed (rule pipeq.act_keeps)

section \<open>Properties\<close>

text \<open>C20: A pipe refines a bounded queue of bytes, also when its counters wrap around: \<^verbatim>\<open>pipewrite\<close>
  of bytes that fit returns their number and appends them, and \<^verbatim>\<open>piperead\<close> from a pipe that is
  not empty, or that nobody can write to any more, returns and removes the first \<open>n\<close> bytes, or as many
  as there are.\<close>

theorem pipe_refines_queue:
  assumes "cpu_ok (hw s)" and "lock_free (PipeLock p) (hw s)" and "pipe_chans_settled p s"
    and "pipe_ok (pipes s p)"
  shows "(length (pipe_items (pipes s p)) + length bs \<le> PIPESIZE \<longrightarrow>
      (\<exists>s'. pipewrite p bs env s = Ret (int (length bs)) env s' \<and> pipe_ok (pipes s' p) \<and>
         pipe_items (pipes s' p) = pipe_items (pipes s p) @ bs)) \<and>
    (pipe_items (pipes s p) \<noteq> [] \<or> \<not> pi_writeopen (pipes s p) \<longrightarrow>
      (\<exists>s' k. piperead p n env s = Ret (int k, List.take (nat n) (pipe_items (pipes s p))) env s' \<and>
         k = min (nat n) (length (pipe_items (pipes s p))) \<and> pipe_ok (pipes s' p) \<and>
         pipe_items (pipes s' p) = List.drop (nat n) (pipe_items (pipes s p))))"
proof -
  have "(\<exists>s'. pipewrite p bs env s = Ret (int (length bs)) env s' \<and> pipe_ok (pipes s' p) \<and>
         pipe_items (pipes s' p) = pipe_items (pipes s p) @ bs)"
    if "length (pipe_items (pipes s p)) + length bs \<le> PIPESIZE"
    using pipewrite_exec [OF assms that] pipeq.put_all [OF assms(4) that] by auto
  moreover have "(\<exists>s' k. piperead p n env s = Ret (int k, List.take (nat n) (pipe_items (pipes s p))) env s' \<and>
         k = min (nat n) (length (pipe_items (pipes s p))) \<and> pipe_ok (pipes s' p) \<and>
         pipe_items (pipes s' p) = List.drop (nat n) (pipe_items (pipes s p)))"
    if "pipe_items (pipes s p) \<noteq> [] \<or> \<not> pi_writeopen (pipes s p)"
    using piperead_exec [OF assms that, of n env]
      pipeq.pop_many [OF assms(4), of "min (nat n) (length (pipe_items (pipes s p)))"]
    by (auto simp: min_def)
  ultimately show ?thesis by blast
qed

text \<open>A pipe whose counters are about to wrap around.\<close>

definition wrapping_pipe :: kernel where
  "wrapping_pipe = one_proc\<lparr>pipes := (\<lambda>_. zero_pipe\<lparr>pi_nread := - 1, pi_nwrite := - 1\<rparr>)\<rparr>"

lemma wrapping_pipe_simps [simp]:
  "hw wrapping_pipe = proc_hw" "ptable wrapping_pipe = ptable one_proc"
  "pipes wrapping_pipe q = zero_pipe\<lparr>pi_nread := - 1, pi_nwrite := - 1\<rparr>"
  by (simp_all add: wrapping_pipe_def)

lemma wrapping_pipe_empty: "pipe_items (pipes wrapping_pipe q) = []" "pipe_ok (pipes wrapping_pipe q)"
  by (simp_all add: pipe_ok_def pipe_items_def ring_items_def)

theorem pipe_refines_queue_witness:
  "\<exists>s'. pipewrite 0x80500000 [7, 8, 9] [] wrapping_pipe = Ret 3 [] s' \<and>
     pipe_items (pipes s' 0x80500000) = [7, 8, 9]"
proof -
  have st: "pipe_chans_settled 0x80500000 wrapping_pipe" using one_proc_settled by (simp add: pipe_chans_settled_def)
  show ?thesis
    using pipe_refines_queue [OF _ _ st wrapping_pipe_empty(2), of "[7, 8, 9]" "[]" 0, unfolded wrapping_pipe_empty]
    by (auto simp: PIPESIZE_def)
qed

text \<open>C21: Whatever the interleaving of a writer and a reader of one pipe, what was read is what was
  written, in the order in which it was written, except for the at most 512 bytes still in the pipe.\<close>

theorem pipe_bytes_in_order:
  assumes "reachable (\<lambda>s. pipe_empty (ch_buf s) \<and> ch_sent s = [] \<and> ch_got s = [])
    (channel_act pipe_put pipe_get pipe_drop pipe_full pipe_empty) s"
  shows "ch_sent s = ch_got s @ pipe_items (ch_buf s) \<and> length (pipe_items (ch_buf s)) \<le> PIPESIZE"
proof -
  have "pipe_ok (ch_buf s) \<and> ch_sent s = ch_got s @ pipe_items (ch_buf s)"
    by (rule pipe_channel.reachable_inv [OF assms])
  then show ?thesis by (simp add: pipe_ok_def)
qed

theorem pipe_bytes_in_order_witness:
  "\<exists>s :: (pipe, uchar) channel_state. ch_sent s = [7] \<and> ch_got s = [] \<and>
     ch_sent s = ch_got s @ pipe_items (ch_buf s)"
proof -
  let ?i = "\<lparr>ch_buf = zero_pipe, ch_sent = [], ch_got = []\<rparr> :: (pipe, uchar) channel_state"
  let ?s = "?i\<lparr>ch_buf := pipe_put 7 (ch_buf ?i), ch_sent := ch_sent ?i @ [7]\<rparr>"
  let ?init = "\<lambda>s. pipe_empty (ch_buf s) \<and> ch_sent s = [] \<and> ch_got s = []"
  let ?act = "channel_act pipe_put pipe_get pipe_drop pipe_full pipe_empty"
  have "reachable ?init ?act ?i" by (rule reach_init) (simp add: pipe_empty_def zero_pipe_def)
  moreover have "?act ?i ?s" by (rule send) (simp add: pipe_full_def zero_pipe_def PIPESIZE_def)
  ultimately have "reachable ?init ?act ?s" by (rule reach_step)
  from pipe_bytes_in_order [OF this] show ?thesis by (intro exI [of _ ?s]) simp
qed

end
