(* ===== verification/File.thy ===== *)
theory File
  imports Fs Pipe
begin

text \<open>
  Open files (\<^verbatim>\<open>file.c\<close>, and \<^verbatim>\<open>pipealloc\<close> of \<^verbatim>\<open>pipe.c\<close>): the file table with its
  reference counts, and reading and writing through a file.
\<close>

definition upd_file :: "nat \<Rightarrow> (kfile \<Rightarrow> kfile) \<Rightarrow> unit kernel_op" where
  "upd_file f g = kmod (\<lambda>s. s\<lparr>ftable := (ftable s)(f := g (ftable s f))\<rparr>)"

definition fileinit :: "unit kernel_op" where
  "fileinit = initlock FtableLock ''ftable''"

definition filealloc :: "nat option kernel_op" where
  "filealloc =
     kthen (acquire FtableLock) (
     kbind (kget ftable) (\<lambda>t.
     case find (\<lambda>f. f_ref (t f) = 0) [0..<NFILE] of
       Some f \<Rightarrow>
         kthen (upd_file f (\<lambda>x. x\<lparr>f_ref := 1\<rparr>)) (
         kthen (release FtableLock) (kret (Some f)))
     | None \<Rightarrow> kthen (release FtableLock) (kret None)))"

definition filedup :: "nat \<Rightarrow> nat kernel_op" where
  "filedup f =
     kthen (acquire FtableLock) (
     kbind (kget (\<lambda>s. f_ref (ftable s f))) (\<lambda>r.
     kthen (kassert (\<not> r < 1) ''filedup'') (
     kthen (upd_file f (\<lambda>x. x\<lparr>f_ref := f_ref x + 1\<rparr>)) (
     kthen (release FtableLock) (kret f)))))"

definition fileclose :: "nat \<Rightarrow> unit kernel_op" where
  "fileclose f =
     kthen (acquire FtableLock) (
     kbind (kget (\<lambda>s. f_ref (ftable s f))) (\<lambda>r.
     kthen (kassert (\<not> r < 1) ''fileclose'') (
     kthen (upd_file f (\<lambda>x. x\<lparr>f_ref := f_ref x - 1\<rparr>)) (
     if r - 1 > 0 then release FtableLock
     else
       kbind (kget (\<lambda>s. ftable s f)) (\<lambda>ff.
       kthen (upd_file f (\<lambda>x. x\<lparr>f_ref := 0, f_type := FD_NONE\<rparr>)) (
       kthen (release FtableLock)
         (if f_type ff = FD_PIPE then pipeclose (f_pipe ff) (f_writable ff)
          else kwhen (f_type ff = FD_INODE)
            (kthen begin_op (kthen (iput (f_ip ff)) end_op))))))))) "

definition filestat :: "nat \<Rightarrow> (int \<times> stat option) kernel_op" where
  "filestat f =
     kbind (kget (\<lambda>s. ftable s f)) (\<lambda>x.
     if f_type x = FD_INODE then
       kthen (ilock (Some (f_ip x))) (
       kbind (stati (f_ip x)) (\<lambda>st.
       kthen (iunlock (Some (f_ip x)))
         (kret (0, Some st))))
     else kret (- 1, None))"

text \<open>The result, and the bytes stored at the destination.\<close>

definition fileread :: "nat \<Rightarrow> int \<Rightarrow> (int \<times> uchar list) kernel_op" where
  "fileread f n =
     kbind (kget (\<lambda>s. ftable s f)) (\<lambda>x.
     if \<not> f_readable x then kret (- 1, [])
     else if f_type x = FD_PIPE then piperead (f_pipe x) n
     else if f_type x = FD_INODE then
       kthen (ilock (Some (f_ip x))) (
       kbind (kget (\<lambda>s. f_off (ftable s f))) (\<lambda>off.
       kbind (readi (f_ip x) off (of_int n)) (\<lambda>(r, bs).
       kthen (kwhen (r > 0) (upd_file f (\<lambda>y. y\<lparr>f_off := f_off y + of_int r\<rparr>))) (
       kthen (iunlock (Some (f_ip x)))
         (kret (r, bs))))))
     else kpanic ''fileread'')"

text \<open>
  The loop of \<^verbatim>\<open>filewrite\<close> over the bytes that are left; \<open>Some\<close> the count written when a
  write fails.
\<close>

definition write_max :: nat where
  "write_max = ((MAXOPBLOCKS - 1 - 1 - 2) div 2) * 512"

function filewrite_loop :: "nat \<Rightarrow> nat \<Rightarrow> uchar list \<Rightarrow> bool kernel_op" where
  "filewrite_loop f ip bs =
     (if bs = [] then kret True
      else
        let chunk = take write_max bs; n1 = length chunk in
        kthen begin_op (
        kthen (ilock (Some ip)) (
        kbind (kget (\<lambda>s. f_off (ftable s f))) (\<lambda>off.
        kbind (writei ip chunk off) (\<lambda>r.
        kthen (kwhen (r > 0) (upd_file f (\<lambda>y. y\<lparr>f_off := f_off y + of_int r\<rparr>))) (
        kthen (iunlock (Some ip)) (
        kthen end_op (
        if r < 0 then kret False
        else
          kthen (kassert (\<not> r \<noteq> int n1) ''short filewrite'')
            (filewrite_loop f ip (drop write_max bs))))))))))"
  by pat_completeness auto
termination
  by (relation "measure (\<lambda>(f, ip, bs). length bs)") (auto simp: write_max_def MAXOPBLOCKS_def)

definition filewrite :: "nat \<Rightarrow> uchar list \<Rightarrow> int kernel_op" where
  "filewrite f bs =
     kbind (kget (\<lambda>s. ftable s f)) (\<lambda>x.
     if \<not> f_writable x then kret (- 1)
     else if f_type x = FD_PIPE then pipewrite (f_pipe x) bs
     else if f_type x = FD_INODE then
       kbind (filewrite_loop f (f_ip x) bs) (\<lambda>ok.
       kret (if ok then int (length bs) else - 1))
     else kpanic ''filewrite'')"

section \<open>Creating a pipe\<close>

definition pipe_bad :: "uint \<Rightarrow> nat option \<Rightarrow> nat option \<Rightarrow> (nat \<times> nat) option kernel_op" where
  "pipe_bad p f0 f1 =
     kthen (kwhen (p \<noteq> 0) (kfree p)) (
     kthen (case f0 of None \<Rightarrow> kret () | Some f \<Rightarrow> fileclose f) (
     kthen (case f1 of None \<Rightarrow> kret () | Some f \<Rightarrow> fileclose f)
       (kret None)))"

text \<open>The two ends, or \<open>None\<close> for \<^verbatim>\<open>-1\<close>.\<close>

definition pipealloc :: "(nat \<times> nat) option kernel_op" where
  "pipealloc =
     kbind filealloc (\<lambda>r0.
     case r0 of None \<Rightarrow> pipe_bad 0 None None | Some f0 \<Rightarrow>
     kbind filealloc (\<lambda>r1.
     case r1 of None \<Rightarrow> pipe_bad 0 (Some f0) None | Some f1 \<Rightarrow>
     kbind kalloc (\<lambda>p.
     if p = 0 then pipe_bad 0 (Some f0) (Some f1)
     else
       kthen (upd_pipe p (\<lambda>x. x\<lparr>pi_readopen := True, pi_writeopen := True, pi_nwrite := 0, pi_nread := 0\<rparr>)) (
       kthen (initlock (PipeLock p) ''pipe'') (
       kthen (upd_file f0 (\<lambda>x. x\<lparr>f_type := FD_PIPE, f_readable := True, f_writable := False, f_pipe := p\<rparr>)) (
       kthen (upd_file f1 (\<lambda>x. x\<lparr>f_type := FD_PIPE, f_readable := False, f_writable := True, f_pipe := p\<rparr>))
         (kret (Some (f0, f1)))))))))"

end
