(* ===== verification/Proc.thy ===== *)
theory Proc
  imports File Strings
begin

text \<open>
  The life of a process (\<^verbatim>\<open>proc.c\<close>: \<^verbatim>\<open>allocpid\<close>, \<^verbatim>\<open>allocproc\<close>,
  \<^verbatim>\<open>userinit\<close>, \<^verbatim>\<open>growproc\<close>, \<^verbatim>\<open>fork\<close>, \<^verbatim>\<open>exit\<close>, \<^verbatim>\<open>wait\<close>,
  \<^verbatim>\<open>forkret\<close>). What the compiled image contributes (the bytes of \<^verbatim>\<open>initcode\<close>) is an
  argument.
\<close>

section \<open>Allocation\<close>

text \<open>
  \<^verbatim>\<open>do pid = nextpid; while(!cas(&nextpid, pid, pid + 1));\<close>
\<close>

fun allocpid_spin :: "cint kernel_op" where
  "allocpid_spin env s =
     (let pid = nextpid s in
      if nextpid s = pid then Ret pid env (s\<lparr>nextpid := pid + 1\<rparr>)
      else (case env of [] \<Rightarrow> Blocked | e # es \<Rightarrow> allocpid_spin es (e s)))"

declare allocpid_spin.simps [simp del]

definition allocpid :: "cint kernel_op" where
  "allocpid = kthen pushcli (kbind allocpid_spin (\<lambda>pid. kthen popcli (kret pid)))"

text \<open>The search for an unused entry, repeated when the swap to \<^verbatim>\<open>EMBRYO\<close> fails.\<close>

fun allocproc_spin :: "nat option kernel_op" where
  "allocproc_spin env s =
     (case find (\<lambda>p. p_state (ptable s p) = UNUSED) [0..<NPROC] of
        None \<Rightarrow> Ret None env s
      | Some p \<Rightarrow>
          if p_state (ptable s p) = UNUSED
          then Ret (Some p) env (s\<lparr>ptable := (ptable s)(p := (ptable s p)\<lparr>p_state := EMBRYO\<rparr>)\<rparr>)
          else (case env of [] \<Rightarrow> Blocked | e # es \<Rightarrow> allocproc_spin es (e s)))"

declare allocproc_spin.simps [simp del]

definition TF_SIZE :: uint where "TF_SIZE = 76"
definition CONTEXT_SIZE :: uint where "CONTEXT_SIZE = 20"

definition allocproc_init :: "nat \<Rightarrow> nat option kernel_op" where
  "allocproc_init p =
     kbind allocpid (\<lambda>pid.
     kthen (upd_proc p (\<lambda>x. x\<lparr>p_pid := pid\<rparr>)) (
     kbind kalloc (\<lambda>k.
     kthen (upd_proc p (\<lambda>x. x\<lparr>p_kstack := k\<rparr>)) (
     if k = 0 then kthen (upd_proc p (\<lambda>x. x\<lparr>p_state := UNUSED\<rparr>)) (kret None)
     else
       let sp1 = k + KSTACKSIZE - TF_SIZE; sp2 = sp1 - 4; sp3 = sp2 - CONTEXT_SIZE in
       kthen (upd_proc p (\<lambda>x. x\<lparr>p_tf := sp1\<rparr>)) (
       kthen (kmod (\<lambda>s. s\<lparr>mem := store32 (mem s) sp2 (k_trapret s)\<rparr>)) (
       kthen (upd_proc p (\<lambda>x. x\<lparr>p_context := sp3\<rparr>)) (
       kthen (kmod (\<lambda>s. s\<lparr>contexts := (contexts s)(sp3 := zero_ctxt\<lparr>cx_eip := k_forkret s\<rparr>)\<rparr>)) (
       kthen (upd_proc p (\<lambda>x. x\<lparr>p_psignals := 0, p_sigmask := 0\<rparr>)) (
       kthen (kfor [SIG_MIN..<Suc SIG_MAX] (\<lambda>i.
         upd_proc p (\<lambda>x. x\<lparr>p_sig_handlers := (p_sig_handlers x)(i := SIG_DFL)\<rparr>)))
         (kret (Some p)))))))))))"

definition allocproc :: "nat option kernel_op" where
  "allocproc =
     kthen pushcli (
     kbind allocproc_spin (\<lambda>r.
     kthen popcli
       (case r of None \<Rightarrow> kret None | Some p \<Rightarrow> allocproc_init p)))"

definition str :: "string \<Rightarrow> uchar list" where
  "str t = map of_char t"

definition userinit :: "uchar list \<Rightarrow> unit kernel_op" where
  "userinit initcode =
     kbind allocproc (\<lambda>r.
     kthen (kmod (\<lambda>s. s\<lparr>initproc := r\<rparr>)) (
     case r of None \<Rightarrow> kpanic ''trap'' | Some p \<Rightarrow>
     kbind setupkvm (\<lambda>d.
     kthen (upd_proc p (\<lambda>x. x\<lparr>p_pgdir := d\<rparr>)) (
     kthen (kassert (d \<noteq> 0) ''userinit: out of memory?'') (
     kthen (inituvm d initcode) (
     kthen (upd_proc p (\<lambda>x. x\<lparr>p_sz := PGSIZE\<rparr>)) (
     kbind (kget (\<lambda>s. p_tf (ptable s p))) (\<lambda>tf.
     kthen (kmod (\<lambda>s. s\<lparr>tframes := (tframes s)(tf := zero_tf\<lparr>
        tf_cs := of_nat (SEG_UCODE * 8) OR DPL_USER, tf_ds := of_nat (SEG_UDATA * 8) OR DPL_USER,
        tf_es := of_nat (SEG_UDATA * 8) OR DPL_USER, tf_ss := of_nat (SEG_UDATA * 8) OR DPL_USER,
        tf_eflags := FL_IF, tf_esp := PGSIZE, tf_eip := 0\<rparr>)\<rparr>)) (
     kthen (upd_proc p (\<lambda>x. x\<lparr>p_name := safestrcpy (p_name x) (str ''initcode'') 16\<rparr>)) (
     kbind (namei (str ''/'')) (\<lambda>cwd.
     kthen (upd_proc p (\<lambda>x. x\<lparr>p_cwd := cwd\<rparr>))
       (upd_proc p (\<lambda>x. x\<lparr>p_state := RUNNABLE\<rparr>)))))))))))))"

definition growproc :: "int \<Rightarrow> int kernel_op" where
  "growproc n =
     kbind curproc (\<lambda>p.
     kbind (kget (\<lambda>s. ptable s p)) (\<lambda>x.
     let sz = p_sz x in
     kbind (if 0 < n then allocuvm (p_pgdir x) sz (sz + of_int n)
            else if n < 0 then deallocuvm (p_pgdir x) sz (sz + of_int n)
            else kret sz) (\<lambda>sz'.
     if n \<noteq> 0 \<and> sz' = 0 then kret (- 1)
     else
       kthen (upd_proc p (\<lambda>y. y\<lparr>p_sz := sz'\<rparr>)) (
       kthen (switchuvm (Some p))
         (kret 0)))))"

section \<open>Fork\<close>

definition fork_file :: "nat \<Rightarrow> nat \<Rightarrow> nat \<Rightarrow> unit kernel_op" where
  "fork_file p np i =
     kbind (kget (\<lambda>s. p_ofile (ptable s p) i)) (\<lambda>fo.
     case fo of None \<Rightarrow> kret () | Some f \<Rightarrow>
       kbind (filedup f) (\<lambda>f'.
       upd_proc np (\<lambda>x. x\<lparr>p_ofile := (p_ofile x)(i := Some f')\<rparr>)))"

definition fork :: "int kernel_op" where
  "fork =
     kbind curproc (\<lambda>p.
     kbind allocproc (\<lambda>r.
     case r of None \<Rightarrow> kret (- 1) | Some np \<Rightarrow>
     kbind (kget (\<lambda>s. ptable s p)) (\<lambda>x.
     kbind (copyuvm (p_pgdir x) (p_sz x)) (\<lambda>d.
     kthen (upd_proc np (\<lambda>y. y\<lparr>p_pgdir := d\<rparr>)) (
     if d = 0 then
       kbind (kget (\<lambda>s. p_kstack (ptable s np))) (\<lambda>k.
       kthen (kfree k) (
       kthen (upd_proc np (\<lambda>y. y\<lparr>p_kstack := 0, p_state := UNUSED\<rparr>))
         (kret (- 1))))
     else
       kthen (upd_proc np (\<lambda>y. y\<lparr>p_sz := p_sz x, p_parent := Some p\<rparr>)) (
       kbind (kget (\<lambda>s. p_tf (ptable s np))) (\<lambda>ntf.
       kthen (kmod (\<lambda>s. s\<lparr>tframes := (tframes s)(ntf := tframes s (p_tf x))\<rparr>)) (
       kthen (upd_proc np (\<lambda>y. y\<lparr>p_sigmask := p_sigmask x,
                p_sig_handlers := copySigHandlers (p_sig_handlers y) (p_sig_handlers x)\<rparr>)) (
       kthen (upd_tf ntf (\<lambda>t. t\<lparr>tf_eax := 0\<rparr>)) (
       kthen (kfor [0..<NOFILE] (fork_file p np)) (
       kbind (case p_cwd x of None \<Rightarrow> kpanic ''trap'' | Some c \<Rightarrow> idup c) (\<lambda>c'.
       kthen (upd_proc np (\<lambda>y. y\<lparr>p_cwd := Some c'\<rparr>)) (
       kthen (upd_proc np (\<lambda>y. y\<lparr>p_name := safestrcpy (p_name y) (cstring (p_name x) 16) 16\<rparr>)) (
       kbind (kget (\<lambda>s. p_pid (ptable s np))) (\<lambda>pid.
       kthen pushcli (
       kbind (cas_state np EMBRYO RUNNABLE) (\<lambda>_.
       kthen popcli
         (kret (sint pid)))))))))))))))))))"

section \<open>Exit and wait\<close>

definition exit_file :: "nat \<Rightarrow> nat \<Rightarrow> unit kernel_op" where
  "exit_file p fd =
     kbind (kget (\<lambda>s. p_ofile (ptable s p) fd)) (\<lambda>fo.
     case fo of None \<Rightarrow> kret () | Some f \<Rightarrow>
       kthen (fileclose f)
         (upd_proc p (\<lambda>x. x\<lparr>p_ofile := (p_ofile x)(fd := None)\<rparr>)))"

definition exit_child :: "nat \<Rightarrow> nat \<Rightarrow> unit kernel_op" where
  "exit_child me p =
     kbind (kget (\<lambda>s. ptable s p)) (\<lambda>x.
     kwhen (p_parent x = Some me)
       (kbind (kget initproc) (\<lambda>ini.
        kthen (upd_proc p (\<lambda>y. y\<lparr>p_parent := ini\<rparr>))
          (kwhen (p_state x = ZOMBIE) (wakeup1 (map_option ChanProc ini))))))"

definition kexit :: "unit kernel_op" where
  "kexit =
     kbind curproc (\<lambda>p.
     kbind (kget initproc) (\<lambda>ini.
     kthen (kassert (\<not> Some p = ini) ''init exiting'') (
     kthen (kfor [0..<NOFILE] (exit_file p)) (
     kthen begin_op (
     kthen (kbind (kget (\<lambda>s. p_cwd (ptable s p))) (\<lambda>c. case c of None \<Rightarrow> kpanic ''trap'' | Some ip \<Rightarrow> iput ip)) (
     kthen end_op (
     kthen (upd_proc p (\<lambda>x. x\<lparr>p_cwd := None\<rparr>)) (
     kthen pushcli (
     kbind (cas_state p RUNNING MINUS_ZOMBIE) (\<lambda>ok.
     kthen (kassert ok ''process should be at running state!'') (
     kthen (kfor [0..<NPROC] (exit_child p)) (
     kthen sched
       (kpanic ''zombie exit'')))))))))))))"

text \<open>Reaping the zombie \<open>p\<close>, which the compare-and-swap has claimed.\<close>

definition wait_reap :: "nat \<Rightarrow> nat \<Rightarrow> cint kernel_op" where
  "wait_reap me p =
     kbind (kget (\<lambda>s. ptable s p)) (\<lambda>x.
     kthen (kfree (p_kstack x)) (
     kthen (upd_proc p (\<lambda>y. y\<lparr>p_kstack := 0\<rparr>)) (
     kthen (freevm (p_pgdir x)) (
     kthen (upd_proc p (\<lambda>y. y\<lparr>p_pid := 0, p_parent := None, p_name := (p_name y)(0 := 0),
                              p_killed := False\<rparr>)) (
     kthen (upd_proc me (\<lambda>y. y\<lparr>p_chan := None\<rparr>)) (
     kbind (cas_state me MINUS_SLEEPING RUNNING) (\<lambda>_.
     kbind (cas_state p MINUS_UNUSED UNUSED) (\<lambda>_.
     kret (p_pid x)))))))))"

fun wait_scan :: "nat \<Rightarrow> nat list \<Rightarrow> bool \<Rightarrow> (cint option \<times> bool) kernel_op" where
  "wait_scan me [] havekids = kret (None, havekids)"
| "wait_scan me (p # ps) havekids =
     kbind (kget (\<lambda>s. p_parent (ptable s p))) (\<lambda>par.
     if par \<noteq> Some me then wait_scan me ps havekids
     else
       kbind (cas_state p ZOMBIE MINUS_UNUSED) (\<lambda>ok.
       if ok then kbind (wait_reap me p) (\<lambda>pid. kret (Some pid, True))
       else wait_scan me ps True))"

text \<open>One turn of the loop of \<^verbatim>\<open>wait\<close>; \<open>None\<close> when it went to sleep and was woken.\<close>

definition wait_turn :: "nat \<Rightarrow> int option kernel_op" where
  "wait_turn me =
     kbind (cas_state me RUNNING MINUS_SLEEPING) (\<lambda>ok.
     kthen (kassert ok ''wait: failed  process should be running!'') (
     kthen (upd_proc me (\<lambda>x. x\<lparr>p_chan := Some (ChanProc me)\<rparr>)) (
     kbind (wait_scan me [0..<NPROC] False) (\<lambda>(found, havekids).
     case found of
       Some pid \<Rightarrow> kthen popcli (kret (Some (sint pid)))
     | None \<Rightarrow>
         kbind (kget (\<lambda>s. p_killed (ptable s me))) (\<lambda>killed.
         if \<not> havekids \<or> killed then
           kthen (upd_proc me (\<lambda>x. x\<lparr>p_chan := None\<rparr>)) (
           kbind (cas_state me MINUS_SLEEPING RUNNING) (\<lambda>ok2.
           kthen (kassert ok2 ''should be minus sleeping!'') (
           kthen popcli
             (kret (Some (- 1))))))
         else kthen sched (kret None))))))"

definition kwait_child :: "int kernel_op" where
  "kwait_child = kbind curproc (\<lambda>me. kthen pushcli (kloop (wait_turn me)))"

definition forkret :: "unit kernel_op" where
  "forkret =
     kthen popcli (
     kbind (kget first) (\<lambda>f.
     kwhen f
       (kthen (kmod (\<lambda>s. s\<lparr>first := False\<rparr>)) (
        kthen (iinit ROOTDEV)
          (initlog ROOTDEV)))))"

end
