(* ===== verification/Exec.thy ===== *)
theory Exec
  imports Proc
begin

text \<open>
  Loading a program (\<^verbatim>\<open>exec.c\<close>, and \<^verbatim>\<open>loaduvm\<close> of \<^verbatim>\<open>vm.c\<close>). The ELF structures of
  \<^verbatim>\<open>elf.h\<close> are read from their bytes; the argument strings, which the code reaches
  through pointers into the old address space, are given as byte lists.
\<close>

section \<open>ELF headers\<close>

definition ELF_MAGIC :: uint where "ELF_MAGIC = 0x464C457F"
definition ELF_PROG_LOAD :: uint where "ELF_PROG_LOAD = 1"

record elfhdr =
  eh_magic :: uint
  eh_entry :: uint
  eh_phoff :: uint
  eh_phnum :: ushort

record proghdr =
  ph_type :: uint
  ph_off :: uint
  ph_vaddr :: uint
  ph_filesz :: uint
  ph_memsz :: uint

definition elfhdr_size :: nat where "elfhdr_size = 52"
definition proghdr_size :: nat where "proghdr_size = 32"

definition word_at :: "uchar list \<Rightarrow> nat \<Rightarrow> uint" where
  "word_at bs i = le_word32 (take 4 (drop i bs))"

definition get_elfhdr :: "uchar list \<Rightarrow> elfhdr" where
  "get_elfhdr bs = \<lparr>eh_magic = word_at bs 0, eh_entry = word_at bs 24, eh_phoff = word_at bs 28,
     eh_phnum = le_word16 (take 2 (drop 44 bs))\<rparr>"

definition get_proghdr :: "uchar list \<Rightarrow> proghdr" where
  "get_proghdr bs = \<lparr>ph_type = word_at bs 0, ph_off = word_at bs 4, ph_vaddr = word_at bs 8,
     ph_filesz = word_at bs 16, ph_memsz = word_at bs 20\<rparr>"

section \<open>Loading a segment\<close>

text \<open>The loop of \<^verbatim>\<open>loaduvm\<close>, over the pages of the segment.\<close>

fun loaduvm_from :: "nat list \<Rightarrow> uint \<Rightarrow> uint \<Rightarrow> nat \<Rightarrow> uint \<Rightarrow> uint \<Rightarrow> int kernel_op" where
  "loaduvm_from [] pgdir addr ip off sz = kret 0"
| "loaduvm_from (k # ks) pgdir addr ip off sz =
     (let i = of_nat k * PGSIZE in
      kbind (walkpgdir pgdir (addr + i) False) (\<lambda>pte.
      kthen (kassert (pte \<noteq> 0) ''loaduvm: address should exist'') (
      kbind (mload pte) (\<lambda>e.
      let pa = PTE_ADDR e; n = (if sz - i < PGSIZE then sz - i else PGSIZE) in
      kbind (readi ip (off + i) n) (\<lambda>(r, bs).
      kthen (kmod (\<lambda>s. s\<lparr>mem := write_bytes (mem s) (P2V pa) bs\<rparr>)) (
      if of_int r \<noteq> n then kret (- 1)
      else loaduvm_from ks pgdir addr ip off sz))))))"

definition loaduvm :: "uint \<Rightarrow> uint \<Rightarrow> nat \<Rightarrow> uint \<Rightarrow> uint \<Rightarrow> int kernel_op" where
  "loaduvm pgdir addr ip off sz =
     kthen (kassert (\<not> unat addr mod unat PGSIZE \<noteq> 0) ''loaduvm: addr must be page aligned'')
       (loaduvm_from [0..<(unat sz + 4095) div 4096] pgdir addr ip off sz)"

section \<open>Exec\<close>

definition default_sighandlers :: "(nat \<Rightarrow> uint) \<Rightarrow> (nat \<Rightarrow> uint)" where
  "default_sighandlers h = fold (\<lambda>i h. if h i \<noteq> SIG_DFL \<and> h i \<noteq> SIG_IGN then h(i := SIG_DFL) else h)
     [0..<SIG_HANDLERS_NUM] h"

text \<open>\<^verbatim>\<open>bad:\<close> -- \<open>ip\<close> is \<open>None\<close> once the inode has been released.\<close>

definition exec_bad :: "uint \<Rightarrow> nat option \<Rightarrow> int kernel_op" where
  "exec_bad pgdir ipo =
     kthen (kwhen (pgdir \<noteq> 0) (freevm pgdir)) (
     kthen (case ipo of None \<Rightarrow> kret () | Some ip \<Rightarrow> kthen (iunlockput ip) end_op)
       (kret (- 1)))"

text \<open>
  The loop over the program headers: \<open>Some\<close> the size of the image, or \<open>None\<close> for a jump to
  \<^verbatim>\<open>bad\<close>.
\<close>

fun exec_load :: "nat list \<Rightarrow> elfhdr \<Rightarrow> nat \<Rightarrow> uint \<Rightarrow> uint \<Rightarrow> uint option kernel_op" where
  "exec_load [] elf ip pgdir sz = kret (Some sz)"
| "exec_load (i # is) elf ip pgdir sz =
     kbind (readi ip (eh_phoff elf + of_nat (i * proghdr_size)) (of_nat proghdr_size)) (\<lambda>(r, bs).
     if r \<noteq> int proghdr_size then kret None
     else
       let ph = get_proghdr bs in
       if ph_type ph \<noteq> ELF_PROG_LOAD then exec_load is elf ip pgdir sz
       else if ph_memsz ph < ph_filesz ph then kret None
       else if ph_vaddr ph + ph_memsz ph < ph_vaddr ph then kret None
       else
         kbind (allocuvm pgdir sz (ph_vaddr ph + ph_memsz ph)) (\<lambda>sz'.
         if sz' = 0 then kret None
         else if unat (ph_vaddr ph) mod unat PGSIZE \<noteq> 0 then kret None
         else
           kbind (loaduvm pgdir (ph_vaddr ph) ip (ph_off ph) (ph_filesz ph)) (\<lambda>l.
           if l < 0 then kret None else exec_load is elf ip pgdir sz')))"

text \<open>
  Pushing the argument strings; the result is the stack pointer and the addresses of the
  strings, in order.
\<close>

fun exec_args :: "uint \<Rightarrow> uchar list list \<Rightarrow> uint \<Rightarrow> uint list \<Rightarrow> (uint \<times> uint list) option kernel_op" where
  "exec_args pgdir [] sp ustack = kret (Some (sp, ustack))"
| "exec_args pgdir (a # as) sp ustack =
     (if length ustack \<ge> MAXARG then kret None
      else
        let sp' = (sp - of_nat (length a + 1)) AND NOT 3 in
        kbind (copyout pgdir sp' (a @ [0])) (\<lambda>r.
        if r < 0 then kret None
        else exec_args pgdir as sp' (ustack @ [sp'])))"

definition stack_bytes :: "uint list \<Rightarrow> uchar list" where
  "stack_bytes ws = concat (map le_bytes32 ws)"

text \<open>The last element of the path.\<close>

definition base_name :: "uchar list \<Rightarrow> uchar list" where
  "base_name path = rev (takeWhile (\<lambda>c. c \<noteq> slash) (rev path))"

definition exec_commit :: "nat \<Rightarrow> uchar list \<Rightarrow> uint \<Rightarrow> uint \<Rightarrow> uint \<Rightarrow> uint \<Rightarrow> int kernel_op" where
  "exec_commit p path pgdir sz entry sp =
     kthen (upd_proc p (\<lambda>x. x\<lparr>p_name := safestrcpy (p_name x) (base_name path) 16\<rparr>)) (
     kbind (kget (\<lambda>s. p_pgdir (ptable s p))) (\<lambda>oldpgdir.
     kthen (upd_proc p (\<lambda>x. x\<lparr>p_pgdir := pgdir, p_sz := sz\<rparr>)) (
     kbind (kget (\<lambda>s. p_tf (ptable s p))) (\<lambda>tf.
     kthen (upd_tf tf (\<lambda>t. t\<lparr>tf_eip := entry, tf_esp := sp\<rparr>)) (
     kthen (upd_proc p (\<lambda>x. x\<lparr>p_sig_handlers := default_sighandlers (p_sig_handlers x)\<rparr>)) (
     kthen (switchuvm (Some p)) (
     kthen (freevm oldpgdir)
       (kret 0))))))))"

definition exec_image :: "nat \<Rightarrow> uchar list \<Rightarrow> uchar list list \<Rightarrow> uint \<Rightarrow> elfhdr \<Rightarrow> uint \<Rightarrow> int kernel_op" where
  "exec_image p path argv pgdir elf sz0 =
     (let sz1 = PGROUNDUP sz0 in
      kbind (allocuvm pgdir sz1 (sz1 + 2 * PGSIZE)) (\<lambda>sz.
      if sz = 0 then exec_bad pgdir None
      else
        kthen (clearpteu pgdir (sz - 2 * PGSIZE)) (
        kbind (exec_args pgdir argv sz []) (\<lambda>r.
        case r of None \<Rightarrow> exec_bad pgdir None
        | Some (sp, us) \<Rightarrow>
            let argc = length us;
                ustack = [0xffffffff, of_nat argc, sp - of_nat ((argc + 1) * 4)] @ us @ [0];
                sp' = sp - of_nat ((3 + argc + 1) * 4) in
            kbind (copyout pgdir sp' (stack_bytes ustack)) (\<lambda>c.
            if c < 0 then exec_bad pgdir None
            else exec_commit p path pgdir sz (eh_entry elf) sp')))))"

definition exec :: "uchar list \<Rightarrow> uchar list list \<Rightarrow> int kernel_op" where
  "exec path argv =
     kbind curproc (\<lambda>p.
     kthen begin_op (
     kbind (namei path) (\<lambda>ipo.
     case ipo of
       None \<Rightarrow> kthen end_op (kthen (cprintf (''exec: fail'' @ nl) []) (kret (- 1)))
     | Some ip \<Rightarrow>
         kthen (ilock (Some ip)) (
         kbind (readi ip 0 (of_nat elfhdr_size)) (\<lambda>(r, bs).
         let elf = get_elfhdr bs in
         if r \<noteq> int elfhdr_size then exec_bad 0 (Some ip)
         else if eh_magic elf \<noteq> ELF_MAGIC then exec_bad 0 (Some ip)
         else
           kbind setupkvm (\<lambda>pgdir.
           if pgdir = 0 then exec_bad 0 (Some ip)
           else
             kbind (exec_load [0..<unat (eh_phnum elf)] elf ip pgdir 0) (\<lambda>ld.
             case ld of None \<Rightarrow> exec_bad pgdir (Some ip)
             | Some sz \<Rightarrow>
                 kthen (iunlockput ip) (
                 kthen end_op
                   (exec_image p path argv pgdir elf sz)))))))))"

end
