(* ===== verification/Syscall.thy ===== *)
theory Syscall
  imports Exec
begin

text \<open>
  System calls: fetching arguments from the user stack (\<^verbatim>\<open>syscall.c\<close>) and the calls of
  \<^verbatim>\<open>sysproc.c\<close> and \<^verbatim>\<open>sysfile.c\<close>. A routine that stores its result through a pointer
  and returns 0 or -1 returns an option here.
\<close>

section \<open>Arguments\<close>

definition fetchint :: "uint \<Rightarrow> cint option kernel_op" where
  "fetchint addr =
     kbind curproc (\<lambda>p.
     kbind (kget (\<lambda>s. p_sz (ptable s p))) (\<lambda>sz.
     if addr \<ge> sz \<or> addr + 4 > sz then kret None
     else kbind (vload32 addr) (\<lambda>v. kret (Some v))))"

text \<open>The scan for the terminating zero, up to the end of the process.\<close>

fun fetchstr_scan :: "nat \<Rightarrow> uint \<Rightarrow> uchar list option kernel_op" where
  "fetchstr_scan 0 s = kret None"
| "fetchstr_scan (Suc n) s =
     kbind (vload8 s) (\<lambda>b.
     if b = 0 then kret (Some [])
     else kbind (fetchstr_scan n (s + 1)) (\<lambda>r. kret (map_option (\<lambda>bs. b # bs) r)))"

text \<open>The string itself; the code keeps the pointer and returns the length.\<close>

definition fetchstr :: "uint \<Rightarrow> uchar list option kernel_op" where
  "fetchstr addr =
     kbind curproc (\<lambda>p.
     kbind (kget (\<lambda>s. p_sz (ptable s p))) (\<lambda>sz.
     if addr \<ge> sz then kret None
     else fetchstr_scan (unat sz - unat addr) addr))"

definition argint :: "nat \<Rightarrow> cint option kernel_op" where
  "argint n =
     kbind curproc (\<lambda>p.
     kbind (kget (\<lambda>s. tf_esp (tframes s (p_tf (ptable s p))))) (\<lambda>esp.
     fetchint (esp + 4 + 4 * of_nat n)))"

definition argptr :: "nat \<Rightarrow> int \<Rightarrow> uint option kernel_op" where
  "argptr n sz =
     kbind curproc (\<lambda>p.
     kbind (argint n) (\<lambda>r.
     case r of None \<Rightarrow> kret None | Some i \<Rightarrow>
     kbind (kget (\<lambda>s. p_sz (ptable s p))) (\<lambda>psz.
     if sz < 0 \<or> i \<ge> psz \<or> i + of_int sz > psz then kret None
     else kret (Some i))))"

definition argstr :: "nat \<Rightarrow> uchar list option kernel_op" where
  "argstr n =
     kbind (argint n) (\<lambda>r.
     case r of None \<Rightarrow> kret None | Some addr \<Rightarrow> fetchstr addr)"

text \<open>Continue with a fetched argument, or return \<^verbatim>\<open>-1\<close>.\<close>

definition or_fail :: "'a option kernel_op \<Rightarrow> ('a \<Rightarrow> int kernel_op) \<Rightarrow> int kernel_op" where
  "or_fail m f = kbind m (\<lambda>r. case r of None \<Rightarrow> kret (- 1) | Some x \<Rightarrow> f x)"

section \<open>Processes (sysproc.c)\<close>

definition sys_fork :: "int kernel_op" where
  "sys_fork = fork"

definition sys_exit :: "int kernel_op" where
  "sys_exit = kthen kexit (kret 0)"

definition sys_wait :: "int kernel_op" where
  "sys_wait = kwait_child"

definition sys_kill :: "int kernel_op" where
  "sys_kill = or_fail (argint 0) (\<lambda>pid. or_fail (argint 1) (\<lambda>signum. kill pid (sint signum)))"

definition sys_getpid :: "int kernel_op" where
  "sys_getpid = kbind curproc (\<lambda>p. kget (\<lambda>s. sint (p_pid (ptable s p))))"

definition sys_sbrk :: "int kernel_op" where
  "sys_sbrk =
     or_fail (argint 0) (\<lambda>n.
     kbind curproc (\<lambda>p.
     kbind (kget (\<lambda>s. p_sz (ptable s p))) (\<lambda>addr.
     kbind (growproc (sint n)) (\<lambda>r.
     kret (if r < 0 then - 1 else sint addr)))))"

definition sys_sleep :: "int kernel_op" where
  "sys_sleep =
     or_fail (argint 0) (\<lambda>n.
     kthen (acquire TicksLock) (
     kbind (kget ticks) (\<lambda>ticks0.
     kbind (kget (\<lambda>s. ticks s - ticks0 < n)) (\<lambda>again.
     kbind (if again then
              kbind curproc (\<lambda>p.
              kthen (kwhile (\<lambda>s. ticks s - ticks0 < n \<and> \<not> p_killed (ptable s p))
                       (sleep (Some ChanTicks) (Some TicksLock)))
                (kget (\<lambda>s. ticks s - ticks0 < n)))
            else kret False) (\<lambda>stuck.
     kthen (release TicksLock)
       (kret (if stuck then - 1 else 0)))))))"

definition sys_uptime :: "int kernel_op" where
  "sys_uptime =
     kthen (acquire TicksLock) (
     kbind (kget ticks) (\<lambda>xticks.
     kthen (release TicksLock) (kret (sint xticks))))"

definition sys_sigprocmask :: "int kernel_op" where
  "sys_sigprocmask = or_fail (argint 0) (\<lambda>m. kbind (sigprocmask m) (\<lambda>old. kret (sint old)))"

definition sys_sigaction :: "int kernel_op" where
  "sys_sigaction =
     or_fail (argint 0) (\<lambda>signum.
     or_fail (argptr 1 8) (\<lambda>act.
     or_fail (argptr 2 8) (\<lambda>oldact.
     sigaction (sint signum) act oldact)))"

definition sys_sigret :: "int kernel_op" where
  "sys_sigret = sigret"

section \<open>Files (sysfile.c)\<close>

text \<open>The descriptor and the file.\<close>

definition argfd :: "nat \<Rightarrow> (nat \<times> nat) option kernel_op" where
  "argfd n =
     kbind (argint n) (\<lambda>r.
     case r of None \<Rightarrow> kret None | Some fd \<Rightarrow>
     if sint fd < 0 \<or> sint fd \<ge> int NOFILE then kret None
     else
       kbind curproc (\<lambda>p.
       kbind (kget (\<lambda>s. p_ofile (ptable s p) (unat fd))) (\<lambda>fo.
       kret (case fo of None \<Rightarrow> None | Some f \<Rightarrow> Some (unat fd, f)))))"

definition fdalloc :: "nat \<Rightarrow> nat option kernel_op" where
  "fdalloc f =
     kbind curproc (\<lambda>p.
     kbind (kget (\<lambda>s. p_ofile (ptable s p))) (\<lambda>ofile.
     case find (\<lambda>fd. ofile fd = None) [0..<NOFILE] of
       Some fd \<Rightarrow>
         kthen (upd_proc p (\<lambda>x. x\<lparr>p_ofile := (p_ofile x)(fd := Some f)\<rparr>)) (kret (Some fd))
     | None \<Rightarrow> kret None))"

definition fdclear :: "nat \<Rightarrow> unit kernel_op" where
  "fdclear fd = kbind curproc (\<lambda>p. upd_proc p (\<lambda>x. x\<lparr>p_ofile := (p_ofile x)(fd := None)\<rparr>))"

definition sys_dup :: "int kernel_op" where
  "sys_dup =
     or_fail (argfd 0) (\<lambda>(_, f).
     or_fail (fdalloc f) (\<lambda>fd.
     kbind (filedup f) (\<lambda>_. kret (int fd))))"

definition sys_read :: "int kernel_op" where
  "sys_read =
     or_fail (argfd 0) (\<lambda>(_, f).
     or_fail (argint 2) (\<lambda>n.
     or_fail (argptr 1 (sint n)) (\<lambda>p.
     kbind (fileread f (sint n)) (\<lambda>(r, bs).
     kthen (vstore p bs) (kret r)))))"

definition sys_write :: "int kernel_op" where
  "sys_write =
     or_fail (argfd 0) (\<lambda>(_, f).
     or_fail (argint 2) (\<lambda>n.
     or_fail (argptr 1 (sint n)) (\<lambda>p.
     kbind (vload p (nat (sint n))) (\<lambda>bs.
     filewrite f bs))))"

definition sys_close :: "int kernel_op" where
  "sys_close =
     or_fail (argfd 0) (\<lambda>(fd, f).
     kthen (fdclear fd) (
     kthen (fileclose f) (kret 0)))"

text \<open>A \<^verbatim>\<open>struct stat\<close> in memory, field by field; the padding is left alone.\<close>

definition store_stat :: "uint \<Rightarrow> stat \<Rightarrow> unit kernel_op" where
  "store_stat a st =
     kthen (vstore32 (a + 4) (st_dev st)) (
     kthen (vstore32 (a + 8) (st_ino st)) (
     kthen (vstore a (le_bytes16 (st_type st))) (
     kthen (vstore (a + 12) (le_bytes16 (st_nlink st)))
       (vstore32 (a + 16) (st_size st)))))"

definition sys_fstat :: "int kernel_op" where
  "sys_fstat =
     or_fail (argfd 0) (\<lambda>(_, f).
     or_fail (argptr 1 20) (\<lambda>a.
     kbind (filestat f) (\<lambda>(r, st).
     kthen (case st of None \<Rightarrow> kret () | Some x \<Rightarrow> store_stat a x) (kret r))))"

definition link_bad :: "nat \<Rightarrow> int kernel_op" where
  "link_bad ip =
     kthen (ilock (Some ip)) (
     kthen (upd_inode ip (\<lambda>x. x\<lparr>i_nlink := i_nlink x - 1\<rparr>)) (
     kthen (iupdate ip) (
     kthen (iunlockput ip) (
     kthen end_op (kret (- 1))))))"

definition sys_link :: "int kernel_op" where
  "sys_link =
     or_fail (argstr 0) (\<lambda>old.
     or_fail (argstr 1) (\<lambda>new.
     kthen begin_op (
     kbind (namei old) (\<lambda>ro.
     case ro of None \<Rightarrow> kthen end_op (kret (- 1)) | Some ip \<Rightarrow>
     kthen (ilock (Some ip)) (
     kbind (kget (\<lambda>s. i_type (icache s ip))) (\<lambda>ty.
     if ty = T_DIR then kthen (iunlockput ip) (kthen end_op (kret (- 1)))
     else
       kthen (upd_inode ip (\<lambda>x. x\<lparr>i_nlink := i_nlink x + 1\<rparr>)) (
       kthen (iupdate ip) (
       kthen (iunlock (Some ip)) (
       kbind (nameiparent new) (\<lambda>rd.
       case rd of None \<Rightarrow> link_bad ip | Some (dp, name) \<Rightarrow>
       kthen (ilock (Some dp)) (
       kbind (kget (\<lambda>s. (i_dev (icache s dp), i_dev (icache s ip), i_inum (icache s ip)))) (\<lambda>(dd, di, inum).
       kbind (if dd \<noteq> di then kret (- 1) else dirlink dp name inum) (\<lambda>r.
       if r < 0 then kthen (iunlockput dp) (link_bad ip)
       else
         kthen (iunlockput dp) (
         kthen (iput ip) (
         kthen end_op (kret 0))))))))))))))))"

fun isdirempty_from :: "nat \<Rightarrow> nat list \<Rightarrow> bool kernel_op" where
  "isdirempty_from dp [] = kret True"
| "isdirempty_from dp (k # ks) =
     kbind (readi dp (of_nat (k * dirent_size)) (of_nat dirent_size)) (\<lambda>(r, bs).
     kthen (kassert (\<not> r \<noteq> int dirent_size) ''isdirempty: readi'') (
     if de_inum (get_dirent bs) \<noteq> 0 then kret False
     else isdirempty_from dp ks))"

definition isdirempty :: "nat \<Rightarrow> bool kernel_op" where
  "isdirempty dp =
     kbind (kget (\<lambda>s. dirent_count (i_size (icache s dp)))) (\<lambda>n. isdirempty_from dp [2..<n])"

definition unlink_bad :: "nat \<Rightarrow> int kernel_op" where
  "unlink_bad dp = kthen (iunlockput dp) (kthen end_op (kret (- 1)))"

definition sys_unlink :: "int kernel_op" where
  "sys_unlink =
     or_fail (argstr 0) (\<lambda>path.
     kthen begin_op (
     kbind (nameiparent path) (\<lambda>rd.
     case rd of None \<Rightarrow> kthen end_op (kret (- 1)) | Some (dp, name) \<Rightarrow>
     kthen (ilock (Some dp)) (
     if namecmp name (str ''.'') = 0 \<or> namecmp name (str ''..'') = 0 then unlink_bad dp
     else
       kbind (dirlookup dp name) (\<lambda>r.
       case r of None \<Rightarrow> unlink_bad dp | Some (ip, off) \<Rightarrow>
       kthen (ilock (Some ip)) (
       kbind (kget (\<lambda>s. icache s ip)) (\<lambda>x.
       kthen (kassert (\<not> sint (i_nlink x) < 1) ''unlink: nlink < 1'') (
       kbind (if i_type x = T_DIR then isdirempty ip else kret True) (\<lambda>emp.
       if \<not> emp then kthen (iunlockput ip) (unlink_bad dp)
       else
         kbind (writei dp (replicate dirent_size 0) off) (\<lambda>w.
         kthen (kassert (\<not> w \<noteq> int dirent_size) ''unlink: writei'') (
         kthen (kwhen (i_type x = T_DIR)
           (kthen (upd_inode dp (\<lambda>y. y\<lparr>i_nlink := i_nlink y - 1\<rparr>)) (iupdate dp))) (
         kthen (iunlockput dp) (
         kthen (upd_inode ip (\<lambda>y. y\<lparr>i_nlink := i_nlink y - 1\<rparr>)) (
         kthen (iupdate ip) (
         kthen (iunlockput ip) (
         kthen end_op (kret 0)))))))))))))))))"

definition create_new :: "nat \<Rightarrow> uchar list \<Rightarrow> cshort \<Rightarrow> cshort \<Rightarrow> cshort \<Rightarrow> nat option kernel_op" where
  "create_new dp name ty major minor =
     kbind (kget (\<lambda>s. i_dev (icache s dp))) (\<lambda>dev.
     kbind (ialloc dev ty) (\<lambda>ip.
     kthen (ilock (Some ip)) (
     kthen (upd_inode ip (\<lambda>x. x\<lparr>i_major := major, i_minor := minor, i_nlink := 1\<rparr>)) (
     kthen (iupdate ip) (
     kbind (kget (\<lambda>s. (i_inum (icache s ip), i_inum (icache s dp)))) (\<lambda>(inum, dinum).
     kthen (kwhen (ty = T_DIR)
       (kthen (upd_inode dp (\<lambda>x. x\<lparr>i_nlink := i_nlink x + 1\<rparr>)) (
        kthen (iupdate dp) (
        kbind (dirlink ip (str ''.'') inum) (\<lambda>r1.
        kbind (if r1 < 0 then kret (- 1) else dirlink ip (str ''..'') dinum) (\<lambda>r2.
        kassert (\<not> r2 < 0) ''create dots'')))))) (
     kbind (dirlink dp name inum) (\<lambda>r3.
     kthen (kassert (\<not> r3 < 0) ''create: dirlink'') (
     kthen (iunlockput dp)
       (kret (Some ip)))))))))))"

definition create :: "uchar list \<Rightarrow> cshort \<Rightarrow> cshort \<Rightarrow> cshort \<Rightarrow> nat option kernel_op" where
  "create path ty major minor =
     kbind (nameiparent path) (\<lambda>rd.
     case rd of None \<Rightarrow> kret None | Some (dp, name) \<Rightarrow>
     kthen (ilock (Some dp)) (
     kbind (dirlookup dp name) (\<lambda>r.
     case r of
       Some (ip, _) \<Rightarrow>
         kthen (iunlockput dp) (
         kthen (ilock (Some ip)) (
         kbind (kget (\<lambda>s. i_type (icache s ip))) (\<lambda>t.
         if ty = T_FILE \<and> t = T_FILE then kret (Some ip)
         else kthen (iunlockput ip) (kret None))))
     | None \<Rightarrow> create_new dp name ty major minor)))"

definition O_RDONLY :: uint where "O_RDONLY = 0"
definition O_WRONLY :: uint where "O_WRONLY = 1"
definition O_RDWR :: uint where "O_RDWR = 2"
definition O_CREATE :: uint where "O_CREATE = 0x200"

definition open_file :: "nat \<Rightarrow> uint \<Rightarrow> int kernel_op" where
  "open_file ip omode =
     kbind filealloc (\<lambda>fo.
     kbind (case fo of None \<Rightarrow> kret None | Some f \<Rightarrow> fdalloc f) (\<lambda>fdo.
     case fdo of
       None \<Rightarrow>
         kthen (case fo of None \<Rightarrow> kret () | Some f \<Rightarrow> fileclose f) (
         kthen (iunlockput ip) (
         kthen end_op (kret (- 1))))
     | Some fd \<Rightarrow>
         kthen (iunlock (Some ip)) (
         kthen end_op (
         kthen (upd_file (the fo) (\<lambda>x. x\<lparr>f_type := FD_INODE, f_ip := ip, f_off := 0,
            f_readable := (omode AND O_WRONLY = 0),
            f_writable := (omode AND O_WRONLY \<noteq> 0 \<or> omode AND O_RDWR \<noteq> 0)\<rparr>))
           (kret (int fd))))))"

definition sys_open :: "int kernel_op" where
  "sys_open =
     or_fail (argstr 0) (\<lambda>path.
     or_fail (argint 1) (\<lambda>omode.
     kthen begin_op (
     if omode AND O_CREATE \<noteq> 0 then
       kbind (create path T_FILE 0 0) (\<lambda>r.
       case r of None \<Rightarrow> kthen end_op (kret (- 1)) | Some ip \<Rightarrow> open_file ip omode)
     else
       kbind (namei path) (\<lambda>r.
       case r of None \<Rightarrow> kthen end_op (kret (- 1)) | Some ip \<Rightarrow>
       kthen (ilock (Some ip)) (
       kbind (kget (\<lambda>s. i_type (icache s ip))) (\<lambda>ty.
       if ty = T_DIR \<and> omode \<noteq> O_RDONLY then
         kthen (iunlockput ip) (kthen end_op (kret (- 1)))
       else open_file ip omode))))))"

text \<open>The common end of \<^verbatim>\<open>sys_mkdir\<close> and \<^verbatim>\<open>sys_mknod\<close>.\<close>

definition made :: "nat option \<Rightarrow> int kernel_op" where
  "made r = (case r of None \<Rightarrow> kthen end_op (kret (- 1))
     | Some ip \<Rightarrow> kthen (iunlockput ip) (kthen end_op (kret 0)))"

definition sys_mkdir :: "int kernel_op" where
  "sys_mkdir =
     kthen begin_op (
     kbind (argstr 0) (\<lambda>po.
     case po of None \<Rightarrow> kthen end_op (kret (- 1)) | Some path \<Rightarrow>
     kbind (create path T_DIR 0 0) made))"

definition sys_mknod :: "int kernel_op" where
  "sys_mknod =
     kthen begin_op (
     kbind (argstr 0) (\<lambda>po.
     case po of None \<Rightarrow> kthen end_op (kret (- 1)) | Some path \<Rightarrow>
     kbind (argint 1) (\<lambda>mo.
     case mo of None \<Rightarrow> kthen end_op (kret (- 1)) | Some major \<Rightarrow>
     kbind (argint 2) (\<lambda>no.
     case no of None \<Rightarrow> kthen end_op (kret (- 1)) | Some minor \<Rightarrow>
     kbind (create path T_DEV (ucast major) (ucast minor)) made))))"

definition sys_chdir :: "int kernel_op" where
  "sys_chdir =
     kbind curproc (\<lambda>p.
     kthen begin_op (
     kbind (argstr 0) (\<lambda>po.
     kbind (case po of None \<Rightarrow> kret None | Some path \<Rightarrow> namei path) (\<lambda>r.
     case r of None \<Rightarrow> kthen end_op (kret (- 1)) | Some ip \<Rightarrow>
     kthen (ilock (Some ip)) (
     kbind (kget (\<lambda>s. i_type (icache s ip))) (\<lambda>ty.
     if ty \<noteq> T_DIR then kthen (iunlockput ip) (kthen end_op (kret (- 1)))
     else
       kthen (iunlock (Some ip)) (
       kbind (kget (\<lambda>s. p_cwd (ptable s p))) (\<lambda>cwd.
       kthen (case cwd of None \<Rightarrow> kpanic ''trap'' | Some d \<Rightarrow> iput d) (
       kthen end_op (
       kthen (upd_proc p (\<lambda>x. x\<lparr>p_cwd := Some ip\<rparr>))
         (kret 0)))))))))))"

text \<open>The loop over the argument vector: \<open>None\<close> for \<^verbatim>\<open>-1\<close>.\<close>

fun fetch_argv :: "nat list \<Rightarrow> uint \<Rightarrow> uchar list list option kernel_op" where
  "fetch_argv [] uargv = kret None"
| "fetch_argv (i # is) uargv =
     kbind (fetchint (uargv + 4 * of_nat i)) (\<lambda>r.
     case r of None \<Rightarrow> kret None | Some uarg \<Rightarrow>
     if uarg = 0 then kret (Some [])
     else
       kbind (fetchstr uarg) (\<lambda>so.
       case so of None \<Rightarrow> kret None | Some a \<Rightarrow>
       kbind (fetch_argv is uargv) (\<lambda>rest.
       kret (map_option (\<lambda>as. a # as) rest))))"

definition sys_exec :: "int kernel_op" where
  "sys_exec =
     or_fail (argstr 0) (\<lambda>path.
     or_fail (argint 1) (\<lambda>uargv.
     or_fail (fetch_argv [0..<MAXARG] uargv) (\<lambda>argv.
     exec path argv)))"

definition sys_pipe :: "int kernel_op" where
  "sys_pipe =
     or_fail (argptr 0 8) (\<lambda>fd.
     or_fail pipealloc (\<lambda>(rf, wf).
     kbind (fdalloc rf) (\<lambda>r0.
     kbind (case r0 of None \<Rightarrow> kret None | Some _ \<Rightarrow> fdalloc wf) (\<lambda>r1.
     case (r0, r1) of
       (Some fd0, Some fd1) \<Rightarrow>
         kthen (vstore32 fd (of_nat fd0)) (
         kthen (vstore32 (fd + 4) (of_nat fd1)) (kret 0))
     | _ \<Rightarrow>
         kthen (case r0 of None \<Rightarrow> kret () | Some fd0 \<Rightarrow> fdclear fd0) (
         kthen (fileclose rf) (
         kthen (fileclose wf) (kret (- 1))))))))"

end
