(* ===== verification/Trap.thy ===== *)
theory Trap
  imports Syscall
begin

text \<open>
  Traps (\<^verbatim>\<open>trap.c\<close>, \<^verbatim>\<open>syscall\<close> of \<^verbatim>\<open>syscall.c\<close>, the call of
  \<^verbatim>\<open>handle_signals\<close> in \<^verbatim>\<open>trapasm.S\<close>). What the devices have ready when the interrupt comes
  is an argument.
\<close>

section \<open>The system call table\<close>

definition SYS_sigret :: nat where "SYS_sigret = 24"

definition syscalls :: "nat \<Rightarrow> int kernel_op option" where
  "syscalls = map_of [(1, sys_fork), (2, sys_exit), (3, sys_wait), (4, sys_pipe), (5, sys_read),
     (6, sys_kill), (7, sys_exec), (8, sys_fstat), (9, sys_chdir), (10, sys_dup),
     (11, sys_getpid), (12, sys_sbrk), (13, sys_sleep), (14, sys_uptime), (15, sys_open),
     (16, sys_write), (17, sys_mknod), (18, sys_unlink), (19, sys_link), (20, sys_mkdir),
     (21, sys_close), (22, sys_sigprocmask), (23, sys_sigaction), (SYS_sigret, sys_sigret)]"

definition set_eax :: "nat \<Rightarrow> uint \<Rightarrow> unit kernel_op" where
  "set_eax p v = kbind (kget (\<lambda>s. p_tf (ptable s p))) (\<lambda>tf. upd_tf tf (\<lambda>t. t\<lparr>tf_eax := v\<rparr>))"

definition syscall :: "unit kernel_op" where
  "syscall =
     kbind curproc (\<lambda>p.
     kbind (kget (\<lambda>s. tf_eax (tframes s (p_tf (ptable s p))))) (\<lambda>num.
     case (if sint num > 0 \<and> sint num < 25 then syscalls (unat num) else None) of
       Some f \<Rightarrow> kbind f (\<lambda>r. set_eax p (of_int r))
     | None \<Rightarrow>
         kbind (kget (\<lambda>s. ptable s p)) (\<lambda>x.
         kthen (cprintf (''%d %s: unknown sys call %d'' @ nl)
                  [FNum (p_pid x), FStr (Some (cstring (p_name x) 16)), FNum num])
           (set_eax p (- 1)))))"

section \<open>Interrupt descriptors\<close>

definition T_SYSCALL :: uint where [param_defs]: "T_SYSCALL = 64"

definition tvinit :: "unit kernel_op" where
  "tvinit =
     kthen (kfor [0..<256] (\<lambda>i.
        kmod (\<lambda>s. s\<lparr>idt := (idt s)(i := SETGATE False (of_nat (SEG_KCODE * 8)) (k_vectors s i) 0)\<rparr>))) (
     kthen (kmod (\<lambda>s. s\<lparr>idt := (idt s)(unat T_SYSCALL :=
        SETGATE True (of_nat (SEG_KCODE * 8)) (k_vectors s (unat T_SYSCALL)) (ucast DPL_USER))\<rparr>))
       (initlock TicksLock ''time''))"

definition idtinit :: "unit kernel_op" where
  "idtinit = kmod (\<lambda>s. s\<lparr>hw := (hw s)\<lparr>hw_idt := True\<rparr>\<rparr>)"

section \<open>Handling a trap\<close>

text \<open>The faulting address and the bytes waiting at the keyboard and the serial port.\<close>

record irqdata =
  iq_cr2 :: uint
  iq_kbd :: "uint list"
  iq_uart :: "uint list"

definition trap_syscall :: "uint \<Rightarrow> unit kernel_op" where
  "trap_syscall tf =
     kbind curproc (\<lambda>p.
     kbind (kget (\<lambda>s. p_killed (ptable s p))) (\<lambda>k.
     kthen (kwhen k kexit) (
     kbind curproc (\<lambda>p.
     kthen (upd_proc p (\<lambda>x. x\<lparr>p_tf := tf\<rparr>)) (
     kthen syscall (
     kbind curproc (\<lambda>p.
     kbind (kget (\<lambda>s. p_killed (ptable s p))) (\<lambda>k.
     kwhen k kexit))))))))"

definition trap_default :: "irqdata \<Rightarrow> uint \<Rightarrow> unit kernel_op" where
  "trap_default inp tf =
     kbind (kget (\<lambda>s. tframes s tf)) (\<lambda>t.
     kbind myproc (\<lambda>po.
     case (if tf_cs t AND 3 = 0 then None else po) of
       None \<Rightarrow>
         kbind cpuid (\<lambda>c.
         kthen (cprintf (''unexpected trap %d from cpu %d eip %x (cr2=0x%x)'' @ nl)
                  [FNum (tf_trapno t), FNum (of_nat c), FNum (tf_eip t), FNum (iq_cr2 inp)])
           (kpanic ''trap''))
     | Some p \<Rightarrow>
         kbind (kget (\<lambda>s. ptable s p)) (\<lambda>x.
         kbind cpuid (\<lambda>c.
         kthen (cprintf (''pid %d %s: trap %d err %d on cpu %d eip 0x%x addr 0x%x--kill proc'' @ nl)
                  [FNum (p_pid x), FStr (Some (cstring (p_name x) 16)), FNum (tf_trapno t), FNum (tf_err t),
                   FNum (of_nat c), FNum (tf_eip t), FNum (iq_cr2 inp)])
           (upd_proc p (\<lambda>y. y\<lparr>p_killed := True\<rparr>))))))"

definition trap_irq :: "irqdata \<Rightarrow> uint \<Rightarrow> unit kernel_op" where
  "trap_irq inp tf =
     kbind (kget (\<lambda>s. tframes s tf)) (\<lambda>t.
     let no = tf_trapno t in
     if no = T_IRQ0 + IRQ_TIMER then
       kbind cpuid (\<lambda>c.
       kthen (kwhen (c = 0)
         (kthen (acquire TicksLock) (
          kthen (kmod (\<lambda>s. s\<lparr>ticks := ticks s + 1\<rparr>)) (
          kthen (wakeup (Some ChanTicks))
            (release TicksLock)))))
         lapiceoi)
     else if no = T_IRQ0 + IRQ_IDE then kthen ideintr lapiceoi
     else if no = T_IRQ0 + IRQ_IDE + 1 then kret ()
     else if no = T_IRQ0 + IRQ_KBD then kthen (kbdintr (iq_kbd inp)) lapiceoi
     else if no = T_IRQ0 + IRQ_COM1 then kthen (uartintr (iq_uart inp)) lapiceoi
     else if no = T_IRQ0 + 7 \<or> no = T_IRQ0 + IRQ_SPURIOUS then
       kbind cpuid (\<lambda>c.
       kthen (cprintf (''cpu%d: spurious interrupt at %x:%x'' @ nl)
                [FNum (of_nat c), FNum (ucast (tf_cs t)), FNum (tf_eip t)])
         lapiceoi)
     else trap_default inp tf)"

text \<open>\<^verbatim>\<open>if(myproc() && myproc()->killed && (tf->cs&3) == DPL_USER) exit();\<close>\<close>

definition exit_if_killed :: "uint \<Rightarrow> unit kernel_op" where
  "exit_if_killed tf =
     kbind myproc (\<lambda>po.
     case po of None \<Rightarrow> kret () | Some p \<Rightarrow>
     kbind (kget (\<lambda>s. p_killed (ptable s p) \<and> tf_cs (tframes s tf) AND 3 = DPL_USER)) (\<lambda>k.
     kwhen k kexit))"

definition trap :: "irqdata \<Rightarrow> uint \<Rightarrow> unit kernel_op" where
  "trap inp tf =
     kbind (kget (\<lambda>s. tf_trapno (tframes s tf))) (\<lambda>no.
     if no = T_SYSCALL then trap_syscall tf
     else
       kthen (trap_irq inp tf) (
       kthen (exit_if_killed tf) (
       kthen
         (kbind myproc (\<lambda>po.
          case po of None \<Rightarrow> kret () | Some p \<Rightarrow>
          kbind (kget (\<lambda>s. p_state (ptable s p) = RUNNING \<and>
                          tf_trapno (tframes s tf) = T_IRQ0 + IRQ_TIMER)) (\<lambda>y.
          kwhen y yield)))
         (exit_if_killed tf))))"

text \<open>\<^verbatim>\<open>alltraps\<close>: the trap, then the signals, before the return to the process.\<close>

definition alltraps :: "irqdata \<Rightarrow> uint \<Rightarrow> unit kernel_op" where
  "alltraps inp tf = kthen (trap inp tf) (handle_signals tf)"

end
