(* ===== verification/Boot.thy ===== *)
theory Boot
  imports Trap
begin

text \<open>
  Starting the kernel (\<^verbatim>\<open>main.c\<close>). The argument is what the linked image contributes: the
  code other CPUs start in, the address of \<^verbatim>\<open>mpenter\<close> and of the boot page directory, the first
  user program, and the disk image of the memory disk.
\<close>

record image =
  im_entryother :: "uchar list"
  im_mpenter :: uint
  im_entrypgdir :: uint
  im_initcode :: "uchar list"
  im_fs :: "uint \<Rightarrow> block"
  im_fs_size :: uint

text \<open>The boot page directory: two 4-megabyte pages.\<close>

definition PTE_PS :: uint where "PTE_PS = 0x80"

definition entrypgdir :: "nat \<Rightarrow> uint" where
  "entrypgdir = (\<lambda>_. 0)(0 := 0 OR PTE_P OR PTE_W OR PTE_PS,
     unat (drop_bit 22 KERNBASE) := 0 OR PTE_P OR PTE_W OR PTE_PS)"

definition startap :: "image \<Rightarrow> uint \<Rightarrow> nat \<Rightarrow> unit kernel_op" where
  "startap im code c =
     kbind mycpu (\<lambda>me.
     kwhen (c \<noteq> me)
       (kbind kalloc (\<lambda>stack.
        kthen (kmod (\<lambda>s. s\<lparr>mem := store32 (mem s) (code - 4) (stack + KSTACKSIZE)\<rparr>)) (
        kthen (kmod (\<lambda>s. s\<lparr>mem := store32 (mem s) (code - 8) (im_mpenter im)\<rparr>)) (
        kthen (kmod (\<lambda>s. s\<lparr>mem := store32 (mem s) (code - 12) (V2P (im_entrypgdir im))\<rparr>)) (
        kbind (kget (\<lambda>s. c_apicid (hw_cpus (hw s) c))) (\<lambda>apicid.
        kthen (lapicstartap (of_nat apicid) (V2P code))
          (kwhile (\<lambda>s. \<not> c_started (hw_cpus (hw s) c)) kwait))))))))"

definition startothers :: "image \<Rightarrow> unit kernel_op" where
  "startothers im =
     (let code = P2V 0x7000 in
      kthen (kmod (\<lambda>s. s\<lparr>mem := write_bytes (mem s) code (im_entryother im)\<rparr>)) (
      kbind (kget (\<lambda>s. hw_ncpu (hw s))) (\<lambda>ncpu.
      kfor [0..<ncpu] (startap im code))))"

text \<open>\<^verbatim>\<open>mpmain\<close> does not return; \<open>n\<close> is the number of rounds of the scheduler to look at.\<close>

definition mpmain :: "nat \<Rightarrow> unit kernel_op" where
  "mpmain n =
     kbind cpuid (\<lambda>c.
     kthen (cprintf (''cpu%d: starting %d'' @ nl) [FNum (of_nat c), FNum (of_nat c)]) (
     kthen idtinit (
     kbind mycpu (\<lambda>me.
     kthen (upd_cpu me (\<lambda>x. x\<lparr>c_started := True\<rparr>))
       (scheduler n)))))"

definition mpenter :: "nat \<Rightarrow> unit kernel_op" where
  "mpenter n = kthen switchkvm (kthen seginit (kthen lapicinit (mpmain n)))"

definition main :: "image \<Rightarrow> nat \<Rightarrow> unit kernel_op" where
  "main im n =
     kbind (kget k_end) (\<lambda>kend.
     kthen (kinit1 kend (P2V (4 * 1024 * 1024))) (
     kthen kvmalloc (
     kthen mpinit (
     kthen lapicinit (
     kthen seginit (
     kthen picinit (
     kthen ioapicinit (
     kthen consoleinit (
     kthen uartinit (
     kthen pinit (
     kthen tvinit (
     kthen binit (
     kthen fileinit (
     kthen (ideinit (im_fs im) (im_fs_size im)) (
     kthen (startothers im) (
     kthen (kinit2 (P2V (4 * 1024 * 1024)) (P2V PHYSTOP)) (
     kthen (userinit (im_initcode im))
       (mpmain n))))))))))))))))))"

end
