(* ===== verification/Ide.thy ===== *)
theory Ide
  imports Bio Devices
begin

text \<open>
  The disk driver (\<^verbatim>\<open>ide.c\<close>). Its routines carry the suffix \<open>_pio\<close>, since the memory
  disk has routines of the same names. The controller is what the ports say: a request is the
  sequence of the writes to them.
\<close>

definition IDE_BSY :: uchar where [param_defs]: "IDE_BSY = 0x80"
definition IDE_DRDY :: uchar where [param_defs]: "IDE_DRDY = 0x40"
definition IDE_DF :: uchar where [param_defs]: "IDE_DF = 0x20"
definition IDE_ERR :: uchar where [param_defs]: "IDE_ERR = 0x01"
definition IDE_CMD_READ :: uchar where [param_defs]: "IDE_CMD_READ = 0x20"
definition IDE_CMD_WRITE :: uchar where [param_defs]: "IDE_CMD_WRITE = 0x30"
definition IDE_CMD_RDMUL :: uchar where [param_defs]: "IDE_CMD_RDMUL = 0xc4"
definition IDE_CMD_WRMUL :: uchar where [param_defs]: "IDE_CMD_WRMUL = 0xc5"
definition SECTOR_SIZE :: nat where [param_defs]: "SECTOR_SIZE = 512"

definition idewait :: "bool \<Rightarrow> int kernel_op" where
  "idewait checkerr =
     kthen (kwhile (\<lambda>s. port_in s 0x1f7 AND (IDE_BSY OR IDE_DRDY) \<noteq> IDE_DRDY) kwait) (
     kbind (inb 0x1f7) (\<lambda>r.
     kret (if checkerr \<and> r AND (IDE_DF OR IDE_ERR) \<noteq> 0 then - 1 else 0)))"

text \<open>Time passes between two looks at the status.\<close>

definition kpause :: "unit kernel_op" where
  "kpause env s = (case env of [] \<Rightarrow> Ret () [] s | e # es \<Rightarrow> Ret () es (e s))"

fun probe_disk1 :: "nat \<Rightarrow> unit kernel_op" where
  "probe_disk1 0 = kret ()"
| "probe_disk1 (Suc n) =
     kbind (inb 0x1f7) (\<lambda>r.
     if r \<noteq> 0 then kmod (\<lambda>s. s\<lparr>havedisk1 := True\<rparr>)
     else kthen kpause (probe_disk1 n))"

definition ideinit_pio :: "unit kernel_op" where
  "ideinit_pio =
     kthen (initlock IdeLock ''ide'') (
     kbind (kget (\<lambda>s. hw_ncpu (hw s))) (\<lambda>ncpu.
     kthen (ioapicenable IRQ_IDE (of_nat ncpu - 1)) (
     kbind (idewait False) (\<lambda>_.
     kthen (outb 0x1f6 (0xe0 OR push_bit 4 1)) (
     kthen (probe_disk1 1000)
       (outb 0x1f6 (0xe0 OR push_bit 4 0)))))))"

definition idestart :: "nat option \<Rightarrow> unit kernel_op" where
  "idestart bo =
     (case bo of None \<Rightarrow> kpanic ''idestart'' | Some b \<Rightarrow>
      kbind (kget (\<lambda>s. bufs s b)) (\<lambda>x.
      kthen (kassert (\<not> b_blockno x \<ge> of_nat FSSIZE) ''incorrect blockno'') (
      let sector_per_block = BSIZE div SECTOR_SIZE;
          sector = b_blockno x * of_nat sector_per_block;
          read_cmd = (if sector_per_block = 1 then IDE_CMD_READ else IDE_CMD_RDMUL);
          write_cmd = (if sector_per_block = 1 then IDE_CMD_WRITE else IDE_CMD_WRMUL) in
      kthen (kassert (\<not> sector_per_block > 7) ''idestart'') (
      kbind (idewait False) (\<lambda>_.
      kthen (outb 0x3f6 0) (
      kthen (outb 0x1f2 (of_nat sector_per_block)) (
      kthen (outb 0x1f3 (ucast (sector AND 0xff))) (
      kthen (outb 0x1f4 (ucast (drop_bit 8 sector AND 0xff))) (
      kthen (outb 0x1f5 (ucast (drop_bit 16 sector AND 0xff))) (
      kthen (outb 0x1f6 (ucast (0xe0 OR push_bit 4 (b_dev x AND 1) OR (drop_bit 24 sector AND 0x0f)))) (
      if b_flags x AND B_DIRTY \<noteq> 0 then
        kthen (outb 0x1f7 write_cmd) (outsl 0x1f0 (b_data x))
      else outb 0x1f7 read_cmd)))))))))))"

definition ideintr_pio :: "unit kernel_op" where
  "ideintr_pio =
     kthen (acquire IdeLock) (
     kbind (kget idequeue) (\<lambda>q.
     case q of None \<Rightarrow> release IdeLock | Some b \<Rightarrow>
     kthen (kmod (\<lambda>s. s\<lparr>idequeue := b_qnext (bufs s b)\<rparr>)) (
     kbind (kget (\<lambda>s. b_flags (bufs s b))) (\<lambda>fl.
     kthen (kwhen (fl AND B_DIRTY = 0)
       (kbind (idewait True) (\<lambda>r.
        kwhen (r \<ge> 0) (kmod (\<lambda>s. s\<lparr>bufs := (bufs s)(b := (bufs s b)\<lparr>b_data := ide_in s\<rparr>)\<rparr>))))) (
     kthen (upd_buf b (\<lambda>x. x\<lparr>b_flags := b_flags x OR B_VALID\<rparr>)) (
     kthen (upd_buf b (\<lambda>x. x\<lparr>b_flags := b_flags x AND NOT B_DIRTY\<rparr>)) (
     kthen (wakeup (Some (ChanBuf b))) (
     kbind (kget idequeue) (\<lambda>q'.
     kthen (kwhen (q' \<noteq> None) (idestart q'))
       (release IdeLock))))))))))"

text \<open>The walk to the end of the queue; a queue that does not end would never be left.\<close>

fun ide_append :: "nat \<Rightarrow> nat \<Rightarrow> nat \<Rightarrow> unit kernel_op" where
  "ide_append 0 q b = (\<lambda>env s. Blocked)"
| "ide_append (Suc n) q b =
     kbind (kget (\<lambda>s. b_qnext (bufs s q))) (\<lambda>nx.
     case nx of None \<Rightarrow> upd_buf q (\<lambda>x. x\<lparr>b_qnext := Some b\<rparr>)
     | Some q' \<Rightarrow> ide_append n q' b)"

definition ide_enqueue :: "nat \<Rightarrow> unit kernel_op" where
  "ide_enqueue b =
     kthen (upd_buf b (\<lambda>x. x\<lparr>b_qnext := None\<rparr>)) (
     kbind (kget idequeue) (\<lambda>q.
     case q of None \<Rightarrow> kmod (\<lambda>s. s\<lparr>idequeue := Some b\<rparr>)
     | Some q0 \<Rightarrow> ide_append NBUF q0 b))"

definition iderw_pio :: "nat \<Rightarrow> unit kernel_op" where
  "iderw_pio b =
     kbind (holdingsleep (BufLock b)) (\<lambda>h.
     kthen (kassert h ''iderw: buf not locked'') (
     kbind (kget (\<lambda>s. bufs s b)) (\<lambda>x.
     kthen (kassert (\<not> b_flags x AND (B_VALID OR B_DIRTY) = B_VALID) ''iderw: nothing to do'') (
     kbind (kget havedisk1) (\<lambda>d1.
     kthen (kassert (\<not> (b_dev x \<noteq> 0 \<and> \<not> d1)) ''iderw: ide disk 1 not present'') (
     kthen (acquire IdeLock) (
     kthen (ide_enqueue b) (
     kbind (kget idequeue) (\<lambda>q.
     kthen (kwhen (q = Some b) (idestart (Some b))) (
     kthen (kwhile (\<lambda>s. b_flags (bufs s b) AND (B_VALID OR B_DIRTY) \<noteq> B_VALID)
        (sleep (Some (ChanBuf b)) (Some IdeLock)))
       (release IdeLock)))))))))))"

end
