(* ===== verification/Sched_Steps.thy ===== *)
theory Sched_Steps
  imports Sched Machines
begin

text \<open>
  The scheduler among several CPUs: the state field of the process table as the CPUs change
  it with compare-and-swap (\<^verbatim>\<open>scheduler\<close>, \<^verbatim>\<open>yield\<close>, \<^verbatim>\<open>sleep\<close>, \<^verbatim>\<open>wait\<close>,
  \<^verbatim>\<open>exit\<close>, \<^verbatim>\<open>wakeup1\<close>, \<^verbatim>\<open>allocproc\<close>, \<^verbatim>\<open>fork\<close> of \<^verbatim>\<open>proc.c\<close>), one action per
  access, interleaved in any order; and the meeting of one sleeper and one waker under a lock.
\<close>

section \<open>Who runs a process\<close>

text \<open>
  Where a CPU is in the loop of \<^verbatim>\<open>scheduler\<close>: \<open>Picked p\<close> after the swap to \<^verbatim>\<open>RUNNING\<close>, \<open>On p\<close>
  while it runs \<open>p\<close> on \<open>p\<close>'s kernel stack, \<open>Ceding p\<close> when \<open>p\<close> has given up the CPU but \<^verbatim>\<open>sched\<close> has
  not yet switched stacks, \<open>After1 p\<close> to \<open>After3 p\<close> back on the scheduler's stack before each of
  the three swaps that follow the switch, and \<open>AfterK p\<close> before the swap for a killed process.
  A CPU may also be in \<^verbatim>\<open>wakeup1\<close>, between the two swaps on the process \<open>ps_waker\<close>.
\<close>

datatype cpu_at = Idle | Picked nat | On nat | Ceding nat | After1 nat | AfterK nat | After2 nat | After3 nat

record psys =
  ps_state :: "nat \<Rightarrow> procstate"
  ps_cpu :: "nat \<Rightarrow> cpu_at"
  ps_waker :: "nat \<Rightarrow> nat option"

definition swap_state :: "nat \<Rightarrow> procstate \<Rightarrow> procstate \<Rightarrow> psys \<Rightarrow> psys" where
  "swap_state p old new s = (if ps_state s p = old then s\<lparr>ps_state := (ps_state s)(p := new)\<rparr> else s)"

definition goto :: "nat \<Rightarrow> cpu_at \<Rightarrow> psys \<Rightarrow> psys" where
  "goto c pc s = s\<lparr>ps_cpu := (ps_cpu s)(c := pc)\<rparr>"

inductive proc_act :: "psys \<Rightarrow> psys \<Rightarrow> bool" where
  pick: "ps_waker s c = None \<Longrightarrow> ps_cpu s c = Idle \<Longrightarrow> ps_state s p = RUNNABLE \<Longrightarrow>
     proc_act s (goto c (Picked p) (swap_state p RUNNABLE RUNNING s))"
| put_back: "ps_waker s c = None \<Longrightarrow> ps_cpu s c = Picked p \<Longrightarrow>
     proc_act s (goto c Idle (swap_state p RUNNING RUNNABLE s))"
| switch_in: "ps_waker s c = None \<Longrightarrow> ps_cpu s c = Picked p \<Longrightarrow> proc_act s (goto c (On p) s)"
| yield_cas: "ps_waker s c = None \<Longrightarrow> ps_cpu s c = On p \<Longrightarrow> ps_state s p = RUNNING \<Longrightarrow>
     proc_act s (goto c (Ceding p) (swap_state p RUNNING MINUS_RUNNABLE s))"
| sleep_cas: "ps_waker s c = None \<Longrightarrow> ps_cpu s c = On p \<Longrightarrow> ps_state s p = RUNNING \<Longrightarrow>
     proc_act s (swap_state p RUNNING MINUS_SLEEPING s)"
| wait_back: "ps_waker s c = None \<Longrightarrow> ps_cpu s c = On p \<Longrightarrow>
     proc_act s (swap_state p MINUS_SLEEPING RUNNING s)"
| sleep_sched: "ps_waker s c = None \<Longrightarrow> ps_cpu s c = On p \<Longrightarrow> ps_state s p = MINUS_SLEEPING \<Longrightarrow>
     proc_act s (goto c (Ceding p) s)"
| exit_cas: "ps_waker s c = None \<Longrightarrow> ps_cpu s c = On p \<Longrightarrow> ps_state s p = RUNNING \<Longrightarrow>
     proc_act s (goto c (Ceding p) (swap_state p RUNNING MINUS_ZOMBIE s))"
| switch_out: "ps_cpu s c = Ceding p \<Longrightarrow> proc_act s (goto c (After1 p) s)"
| after_sleep: "ps_cpu s c = After1 p \<Longrightarrow>
     proc_act s (goto c (After2 p) (swap_state p MINUS_SLEEPING SLEEPING s))"
| after_sleep_killed: "ps_cpu s c = After1 p \<Longrightarrow> ps_state s p = MINUS_SLEEPING \<Longrightarrow>
     proc_act s (goto c (AfterK p) (swap_state p MINUS_SLEEPING SLEEPING s))"
| after_killed: "ps_cpu s c = AfterK p \<Longrightarrow>
     proc_act s (goto c (After2 p) (swap_state p SLEEPING RUNNABLE s))"
| after_yield: "ps_cpu s c = After2 p \<Longrightarrow>
     proc_act s (goto c (After3 p) (swap_state p MINUS_RUNNABLE RUNNABLE s))"
| after_exit: "ps_cpu s c = After3 p \<Longrightarrow>
     proc_act s (goto c Idle (swap_state p MINUS_ZOMBIE ZOMBIE s))"
| wake_first: "ps_waker s c = None \<Longrightarrow> ps_cpu s c = Idle \<or> (\<exists>r. ps_cpu s c = On r) \<Longrightarrow>
     ps_state s q = SLEEPING \<Longrightarrow>
     proc_act s ((swap_state q SLEEPING MINUS_RUNNABLE s)\<lparr>ps_waker := (ps_waker s)(c := Some q)\<rparr>)"
| wake_second: "ps_waker s c = Some q \<Longrightarrow>
     proc_act s ((swap_state q MINUS_RUNNABLE RUNNABLE s)\<lparr>ps_waker := (ps_waker s)(c := None)\<rparr>)"
| alloc_cas: "ps_state s p = UNUSED \<Longrightarrow> proc_act s (swap_state p UNUSED EMBRYO s)"
| fork_cas: "ps_state s p = EMBRYO \<Longrightarrow> proc_act s (swap_state p EMBRYO RUNNABLE s)"
| reap_cas: "ps_state s p = ZOMBIE \<Longrightarrow> proc_act s (swap_state p ZOMBIE MINUS_UNUSED s)"
| free_cas: "ps_state s p = MINUS_UNUSED \<Longrightarrow> proc_act s (swap_state p MINUS_UNUSED UNUSED s)"

definition proc_init :: "psys \<Rightarrow> bool" where
  "proc_init s \<longleftrightarrow> (\<forall>p. ps_state s p = UNUSED \<or> ps_state s p = RUNNABLE) \<and>
     (\<forall>c. ps_cpu s c = Idle \<and> ps_waker s c = None)"

definition on_stack :: "cpu_at \<Rightarrow> nat \<Rightarrow> bool" where
  "on_stack a p \<longleftrightarrow> a = On p \<or> a = Ceding p"

text \<open>The process a CPU has to do with, and the one whose state belongs to it.\<close>

fun proc_of :: "cpu_at \<Rightarrow> nat option" where
  "proc_of Idle = None"
| "proc_of (Picked p) = Some p" | "proc_of (On p) = Some p" | "proc_of (Ceding p) = Some p"
| "proc_of (After1 p) = Some p" | "proc_of (AfterK p) = Some p" | "proc_of (After2 p) = Some p"
| "proc_of (After3 p) = Some p"

fun runner_of :: "cpu_at \<Rightarrow> nat option" where
  "runner_of (Picked p) = Some p" | "runner_of (On p) = Some p" | "runner_of (Ceding p) = Some p"
| "runner_of (After1 p) = Some p" | "runner_of _ = None"

fun state_fits :: "(nat \<Rightarrow> procstate) \<Rightarrow> cpu_at \<Rightarrow> bool" where
  "state_fits st (Picked p) = (st p = RUNNING)"
| "state_fits st (On p) = (st p \<in> {RUNNING, MINUS_SLEEPING})"
| "state_fits st (Ceding p) = (st p \<in> {MINUS_SLEEPING, MINUS_RUNNABLE, MINUS_ZOMBIE})"
| "state_fits st (After1 p) = (st p \<in> {MINUS_SLEEPING, MINUS_RUNNABLE, MINUS_ZOMBIE})"
| "state_fits st _ = True"

text \<open>
  An action that does not pick a process while another CPU has swaps on it left to do: those
  after the switch away from it, or the second one of waking it.
\<close>

definition settled_pick :: "psys \<Rightarrow> psys \<Rightarrow> bool" where
  "settled_pick s t \<longleftrightarrow> (\<forall>c p. ps_cpu t c = Picked p \<and> ps_cpu s c \<noteq> Picked p \<longrightarrow>
     (\<forall>c'. proc_of (ps_cpu s c') \<noteq> Some p \<and> ps_waker s c' \<noteq> Some p))"

definition settled_act :: "psys \<Rightarrow> psys \<Rightarrow> bool" where
  "settled_act s t \<longleftrightarrow> proc_act s t \<and> settled_pick s t"

definition proc_inv :: "psys \<Rightarrow> bool" where
  "proc_inv s \<longleftrightarrow>
     (\<forall>c c' p. proc_of (ps_cpu s c) = Some p \<longrightarrow> proc_of (ps_cpu s c') = Some p \<longrightarrow> c = c')
   \<and> (\<forall>c. state_fits (ps_state s) (ps_cpu s c))
   \<and> (\<forall>c c' p. runner_of (ps_cpu s c) = Some p \<longrightarrow> ps_waker s c' \<noteq> Some p)"

lemma runner_proc: "runner_of a = Some p \<Longrightarrow> proc_of a = Some p"
  by (cases a) auto

lemma state_fits_upd: "runner_of a \<noteq> Some p \<Longrightarrow> state_fits (st(p := x)) a = state_fits st a"
  by (cases a) auto

text \<open>A step of a CPU on the process it has to do with.\<close>

lemma own_step:
  assumes "proc_inv s" and "ps_cpu s c = a" and "proc_of a = Some p"
    and "b = Idle \<or> proc_of b = Some p" and "runner_of b = None \<or> runner_of a = Some p"
    and "state_fits ((ps_state s)(p := x)) b"
  shows "proc_inv (s\<lparr>ps_state := (ps_state s)(p := x), ps_cpu := (ps_cpu s)(c := b)\<rparr>)"
proof -
  have other: "proc_of (ps_cpu s c') \<noteq> Some p" if "c' \<noteq> c" for c'
    using assms(1-3) that unfolding proc_inv_def by blast
  then have "runner_of (ps_cpu s c') \<noteq> Some p" if "c' \<noteq> c" for c'
    using that runner_proc by blast
  moreover have "runner_of b = Some q \<Longrightarrow> runner_of a = Some q" for q
    using assms(4,5) runner_proc [of b q] by auto
  ultimately show ?thesis
    using assms other unfolding proc_inv_def by (auto simp: state_fits_upd)
qed

lemma own_swap:
  assumes "proc_inv s" and "proc_of (ps_cpu s c) = Some p"
    and "b = Idle \<or> proc_of b = Some p" and "runner_of b = None \<or> runner_of (ps_cpu s c) = Some p"
    and "state_fits ((ps_state s)(p := if ps_state s p = old then new else ps_state s p)) b"
  shows "proc_inv (goto c b (swap_state p old new s))"
  using own_step [OF assms(1) refl assms(2-5)] by (simp add: goto_def swap_state_def split: if_splits)

lemma own_goto:
  assumes "proc_inv s" and "runner_of (ps_cpu s c) = Some p" and "proc_of b = Some p"
    and "state_fits (ps_state s) b"
  shows "proc_inv (goto c b s)"
  using own_step [of s c _ p b "ps_state s p"] assms runner_proc [of "ps_cpu s c" p]
  by (simp add: goto_def)

text \<open>A change of the state of a process no CPU has, and the start or end of a wake-up of it.\<close>

lemma free_swap:
  assumes "proc_inv s" and "\<And>c. runner_of (ps_cpu s c) \<noteq> Some p"
  shows "proc_inv (swap_state p old new s)"
  using assms unfolding proc_inv_def by (simp add: swap_state_def state_fits_upd)

lemma waker_step:
  "proc_inv s \<Longrightarrow> (\<And>c'. w = None \<or> runner_of (ps_cpu s c') \<noteq> w) \<Longrightarrow>
    proc_inv (s\<lparr>ps_waker := (ps_waker s)(c := w)\<rparr>)"
  unfolding proc_inv_def by auto

lemma no_runner:
  assumes "proc_inv s"
    and "ps_state s p \<notin> {RUNNING, MINUS_SLEEPING, MINUS_RUNNABLE, MINUS_ZOMBIE}"
  shows "runner_of (ps_cpu s c) \<noteq> Some p"
proof
  assume "runner_of (ps_cpu s c) = Some p"
  moreover have "state_fits (ps_state s) (ps_cpu s c)" using assms(1) by (simp add: proc_inv_def)
  ultimately show False using assms(2) by (cases "ps_cpu s c") auto
qed

lemma woken_no_runner: "proc_inv s \<Longrightarrow> ps_waker s c = Some p \<Longrightarrow> runner_of (ps_cpu s c') \<noteq> Some p"
  unfolding proc_inv_def by blast

lemma swap_cpu [simp]: "ps_cpu (swap_state p old new s) = ps_cpu s"
  and swap_wakers [simp]: "ps_waker (swap_state p old new s) = ps_waker s"
  by (simp_all add: swap_state_def)

lemma swap_goto: "ps_cpu s c = a \<Longrightarrow> swap_state p old new s = goto c a (swap_state p old new s)"
  by (auto simp: goto_def swap_state_def)

lemma fits_now: "proc_inv s \<Longrightarrow> ps_cpu s c = a \<Longrightarrow> state_fits (ps_state s) a"
  by (auto simp: proc_inv_def)

lemma settled_act_inv:
  assumes inv: "proc_inv s" and "settled_act s t"
  shows "proc_inv t"
proof -
  from assms(2) have a: "proc_act s t" and k: "settled_pick s t"
    by (simp_all add: settled_act_def)
  from a show ?thesis
  proof cases
    case (pick c p)
    have none: "proc_of (ps_cpu s c') \<noteq> Some p" "ps_waker s c' \<noteq> Some p" for c'
      using k pick by (auto simp: settled_pick_def goto_def swap_state_def split: if_splits)
    then have "runner_of (ps_cpu s c') \<noteq> Some p" for c'
      using runner_proc by blast
    then show ?thesis
      using inv pick none unfolding proc_inv_def
      by (auto simp: goto_def swap_state_def state_fits_upd)
  next
    case (wake_first c q)
    then have r: "runner_of (ps_cpu s c') \<noteq> Some q" for c'
      by (intro no_runner [OF inv]) simp
    show ?thesis unfolding wake_first
      using waker_step [OF free_swap [OF inv r], where w = "Some q" and c = c] r by simp
  next
    case (wake_second c q)
    note r = woken_no_runner [OF inv wake_second(2)]
    show ?thesis unfolding wake_second(1)
      using waker_step [OF free_swap [OF inv r], where w = None and c = c] by simp
  next
    case (sleep_cas c p)
    then show ?thesis
      using own_swap [OF inv, of c p "On p"] swap_goto [OF sleep_cas(3)] by simp
  next
    case (wait_back c p)
    then show ?thesis
      using own_swap [OF inv, of c p "On p" MINUS_SLEEPING RUNNING] swap_goto [OF wait_back(3)]
        fits_now [OF inv wait_back(3)] by auto
  next
    case (switch_in c p)
    then show ?thesis using fits_now [OF inv switch_in(3)] by (simp add: own_goto [OF inv, of c p])
  next
    case (switch_out c p)
    then show ?thesis using fits_now [OF inv switch_out(2)] by (simp add: own_goto [OF inv, of c p])
  next
    case (sleep_sched c p)
    then show ?thesis by (simp add: own_goto [OF inv, of c p])
  qed (simp_all add: own_swap [OF inv] free_swap [OF inv] no_runner [OF inv])
qed

lemma proc_init_inv: "proc_init s \<Longrightarrow> proc_inv s"
  by (simp add: proc_init_def proc_inv_def)

interpretation cas_sched: machine proc_init settled_act proc_inv
  by unfold_locales (fact proc_init_inv settled_act_inv)+


text \<open>Two processes, two CPUs, of which the second may be waking the first process.\<close>

definition duo :: "procstate \<Rightarrow> procstate \<Rightarrow> cpu_at \<Rightarrow> cpu_at \<Rightarrow> nat option \<Rightarrow> psys" where
  "duo st0 st1 c0 c1 w = \<lparr>ps_state = (\<lambda>p. if p = 0 then st0 else if p = 1 then st1 else UNUSED),
     ps_cpu = (\<lambda>c. if c = 0 then c0 else if c = 1 then c1 else Idle),
     ps_waker = (\<lambda>c. if c = 1 then w else None)\<rparr>"

lemmas duo_defs = duo_def goto_def swap_state_def fun_eq_iff

abbreviation duo_reached :: "psys \<Rightarrow> bool" where
  "duo_reached \<equiv> reachable proc_init proc_act"

lemma duo_start: "reachable proc_init act (duo RUNNABLE RUNNABLE Idle Idle None)"
  by (rule reach_init) (simp add: proc_init_def duo_def)

lemma duo_step: "duo_reached s \<Longrightarrow> proc_act s t \<Longrightarrow> t = t' \<Longrightarrow> duo_reached t'"
  by (auto intro: reach_step)

lemma act_to: "proc_act s t \<Longrightarrow> t = t' \<Longrightarrow> proc_act s t'"
  by simp

lemma settled_duo: "proc_of c0 \<noteq> Some 0 \<Longrightarrow> proc_of c1 \<noteq> Some 0 \<Longrightarrow> w \<noteq> Some 0 \<Longrightarrow>
    settled_pick (duo st0 st1 c0 c1 w) (duo st0' st1 (Picked 0) c1 w)"
  by (simp add: settled_pick_def duo_def)


text \<open>
  The schedule of a race: process 0 goes to sleep on CPU 0, and process 1, on CPU 1, begins to
  wake it before CPU 0 has done its second swap; that swap makes process 0 runnable, it runs and
  yields on CPU 0, and the second swap of the waker takes it for the process it began to wake.
\<close>

lemma race_wake: "duo_reached (duo MINUS_RUNNABLE RUNNING (After2 0) (On 1) (Some 0))"
proof -
  have r1: "duo_reached (duo RUNNABLE RUNNING Idle (Picked 1) None)"
    by (rule duo_step [OF duo_start proc_act.pick [of _ 1 1]]) (simp_all add: duo_defs)
  have r2: "duo_reached (duo RUNNABLE RUNNING Idle (On 1) None)"
    by (rule duo_step [OF r1 proc_act.switch_in [of _ 1 1]]) (simp_all add: duo_defs)
  have r3: "duo_reached (duo RUNNING RUNNING (Picked 0) (On 1) None)"
    by (rule duo_step [OF r2 proc_act.pick [of _ 0 0]]) (simp_all add: duo_defs)
  have r4: "duo_reached (duo RUNNING RUNNING (On 0) (On 1) None)"
    by (rule duo_step [OF r3 proc_act.switch_in [of _ 0 0]]) (simp_all add: duo_defs)
  have r5: "duo_reached (duo MINUS_SLEEPING RUNNING (On 0) (On 1) None)"
    by (rule duo_step [OF r4 proc_act.sleep_cas [of _ 0 0]]) (simp_all add: duo_defs)
  have r6: "duo_reached (duo MINUS_SLEEPING RUNNING (Ceding 0) (On 1) None)"
    by (rule duo_step [OF r5 proc_act.sleep_sched [of _ 0 0]]) (simp_all add: duo_defs)
  have r7: "duo_reached (duo MINUS_SLEEPING RUNNING (After1 0) (On 1) None)"
    by (rule duo_step [OF r6 proc_act.switch_out [of _ 0 0]]) (simp_all add: duo_defs)
  have r8: "duo_reached (duo SLEEPING RUNNING (After2 0) (On 1) None)"
    by (rule duo_step [OF r7 proc_act.after_sleep [of _ 0 0]]) (simp_all add: duo_defs)
  have r9: "duo_reached (duo MINUS_RUNNABLE RUNNING (After2 0) (On 1) (Some 0))"
    by (rule duo_step [OF r8 proc_act.wake_first [of _ 1 0]]) (simp_all add: duo_defs)
  then show ?thesis .
qed

lemma race_yield: "duo_reached (duo RUNNABLE MINUS_RUNNABLE (Ceding 0) (Ceding 1) None)"
proof -
  have r10: "duo_reached (duo RUNNABLE RUNNING (After3 0) (On 1) (Some 0))"
    by (rule duo_step [OF race_wake proc_act.after_yield [of _ 0 0]]) (simp_all add: duo_defs)
  have r11: "duo_reached (duo RUNNABLE RUNNING Idle (On 1) (Some 0))"
    by (rule duo_step [OF r10 proc_act.after_exit [of _ 0 0]]) (simp_all add: duo_defs)
  have r12: "duo_reached (duo RUNNING RUNNING (Picked 0) (On 1) (Some 0))"
    by (rule duo_step [OF r11 proc_act.pick [of _ 0 0]]) (simp_all add: duo_defs)
  have r13: "duo_reached (duo RUNNING RUNNING (On 0) (On 1) (Some 0))"
    by (rule duo_step [OF r12 proc_act.switch_in [of _ 0 0]]) (simp_all add: duo_defs)
  have r14: "duo_reached (duo MINUS_RUNNABLE RUNNING (Ceding 0) (On 1) (Some 0))"
    by (rule duo_step [OF r13 proc_act.yield_cas [of _ 0 0]]) (simp_all add: duo_defs)
  have r15: "duo_reached (duo RUNNABLE RUNNING (Ceding 0) (On 1) None)"
    by (rule duo_step [OF r14 proc_act.wake_second [of _ 1 0]]) (simp_all add: duo_defs)
  have r16: "duo_reached (duo RUNNABLE MINUS_RUNNABLE (Ceding 0) (Ceding 1) None)"
    by (rule duo_step [OF r15 proc_act.yield_cas [of _ 1 1]]) (simp_all add: duo_defs)
  then show ?thesis .
qed


section \<open>A sleeper and a waker\<close>

text \<open>
  One process waits for a condition with
  \<^verbatim>\<open>acquire(lk); while(!cond) sleep(chan, lk); release(lk)\<close>, another makes it true with
  \<^verbatim>\<open>acquire(lk); cond = 1; wakeup(chan); release(lk)\<close>, and a CPU's scheduler switches the first
  one out and in. An action is one access to the lock, the condition or the state of the
  sleeper; taking a lock is the successful exchange.
\<close>

datatype sl_pc = SAcquire | STest | SMark | SRelease | SSched | SOff | SDone
datatype wk_pc = WAcquire | WSet | WLook | WSpin | WSecond | WRelease | WDone

record meet =
  mt_lock :: "bool option" \<comment> \<open>the holder: \<open>True\<close> the sleeper, \<open>False\<close> the waker\<close>
  mt_cond :: bool
  mt_state :: procstate
  mt_sl :: sl_pc
  mt_wk :: wk_pc

inductive meet_act :: "meet \<Rightarrow> meet \<Rightarrow> bool" where
  s_acquire: "mt_sl s = SAcquire \<Longrightarrow> mt_lock s = None \<Longrightarrow>
     meet_act s (s\<lparr>mt_lock := Some True, mt_sl := STest\<rparr>)"
| s_test: "mt_sl s = STest \<Longrightarrow>
     meet_act s (if mt_cond s then s\<lparr>mt_lock := None, mt_sl := SDone\<rparr> else s\<lparr>mt_sl := SMark\<rparr>)"
| s_mark: "mt_sl s = SMark \<Longrightarrow> meet_act s (s\<lparr>mt_state := MINUS_SLEEPING, mt_sl := SRelease\<rparr>)"
| s_release: "mt_sl s = SRelease \<Longrightarrow> meet_act s (s\<lparr>mt_lock := None, mt_sl := SSched\<rparr>)"
| s_switch: "mt_sl s = SSched \<Longrightarrow> mt_state s = MINUS_SLEEPING \<Longrightarrow>
     meet_act s (s\<lparr>mt_state := SLEEPING, mt_sl := SOff\<rparr>)"
| s_run: "mt_sl s = SOff \<Longrightarrow> mt_state s = RUNNABLE \<Longrightarrow>
     meet_act s (s\<lparr>mt_state := RUNNING, mt_sl := SAcquire\<rparr>)"
| w_acquire: "mt_wk s = WAcquire \<Longrightarrow> mt_lock s = None \<Longrightarrow>
     meet_act s (s\<lparr>mt_lock := Some False, mt_wk := WSet\<rparr>)"
| w_set: "mt_wk s = WSet \<Longrightarrow> meet_act s (s\<lparr>mt_cond := True, mt_wk := WLook\<rparr>)"
| w_look: "mt_wk s = WLook \<Longrightarrow>
     meet_act s (s\<lparr>mt_wk := if mt_state s = SLEEPING \<or> mt_state s = MINUS_SLEEPING then WSpin else WRelease\<rparr>)"
| w_first: "mt_wk s = WSpin \<Longrightarrow> mt_state s = SLEEPING \<Longrightarrow>
     meet_act s (s\<lparr>mt_state := MINUS_RUNNABLE, mt_wk := WSecond\<rparr>)"
| w_break: "mt_wk s = WSpin \<Longrightarrow> mt_state s = RUNNING \<Longrightarrow> meet_act s (s\<lparr>mt_wk := WRelease\<rparr>)"
| w_second: "mt_wk s = WSecond \<Longrightarrow> mt_state s = MINUS_RUNNABLE \<Longrightarrow>
     meet_act s (s\<lparr>mt_state := RUNNABLE, mt_wk := WRelease\<rparr>)"
| w_release: "mt_wk s = WRelease \<Longrightarrow> meet_act s (s\<lparr>mt_lock := None, mt_wk := WDone\<rparr>)"

definition meet_init :: "meet \<Rightarrow> bool" where
  "meet_init s \<longleftrightarrow> mt_lock s = None \<and> \<not> mt_cond s \<and> mt_state s = RUNNING \<and>
     mt_sl s = SAcquire \<and> mt_wk s = WAcquire"

text \<open>The lock has one holder, and the state of the sleeper is that of its place in the code.\<close>

fun sl_fits :: "sl_pc \<Rightarrow> procstate \<Rightarrow> bool" where
  "sl_fits SRelease st = (st = MINUS_SLEEPING)"
| "sl_fits SSched st = (st = MINUS_SLEEPING)"
| "sl_fits SOff st = (st \<in> {SLEEPING, MINUS_RUNNABLE, RUNNABLE})"
| "sl_fits _ st = (st = RUNNING)"

definition meet_inv :: "meet \<Rightarrow> bool" where
  "meet_inv s \<longleftrightarrow>
     (mt_lock s = Some True \<longleftrightarrow> mt_sl s \<in> {STest, SMark, SRelease})
   \<and> (mt_lock s = Some False \<longleftrightarrow> mt_wk s \<in> {WSet, WLook, WSpin, WSecond, WRelease})
   \<and> sl_fits (mt_sl s) (mt_state s)
   \<and> (mt_cond s \<longleftrightarrow> mt_wk s \<notin> {WAcquire, WSet})
   \<and> (mt_sl s \<in> {SMark, SRelease} \<longrightarrow> \<not> mt_cond s)
   \<and> (mt_wk s = WSpin \<longrightarrow> mt_state s \<in> {SLEEPING, MINUS_SLEEPING})
   \<and> (mt_state s = MINUS_RUNNABLE \<longleftrightarrow> mt_wk s = WSecond)
   \<and> (mt_wk s \<in> {WRelease, WDone} \<longrightarrow> mt_state s \<notin> {SLEEPING, MINUS_SLEEPING})
   \<and> (mt_wk s \<in> {WAcquire, WSet, WLook} \<longrightarrow> mt_state s \<noteq> RUNNABLE)"

lemma meet_act_inv:
  assumes inv: "meet_inv s" and "meet_act s t"
  shows "meet_inv t"
  using assms(2)
proof cases
  case s_acquire
  then show ?thesis using inv by (cases "mt_wk s") (auto simp: meet_inv_def)
next
  case s_test
  then show ?thesis using inv by (cases "mt_wk s") (auto simp: meet_inv_def)
next
  case s_mark
  then show ?thesis using inv by (cases "mt_wk s") (auto simp: meet_inv_def)
next
  case s_release
  then show ?thesis using inv by (cases "mt_wk s") (auto simp: meet_inv_def)
next
  case s_switch
  then show ?thesis using inv by (cases "mt_wk s") (auto simp: meet_inv_def)
next
  case s_run
  then show ?thesis using inv by (cases "mt_wk s") (auto simp: meet_inv_def)
next
  case w_acquire
  then show ?thesis using inv by (cases "mt_sl s") (auto simp: meet_inv_def)
next
  case w_set
  then show ?thesis using inv by (cases "mt_sl s") (auto simp: meet_inv_def)
next
  case w_look
  then show ?thesis using inv by (cases "mt_sl s") (auto simp: meet_inv_def)
next
  case w_first
  then show ?thesis using inv by (cases "mt_sl s") (auto simp: meet_inv_def)
next
  case w_break
  then show ?thesis using inv by (cases "mt_sl s") (auto simp: meet_inv_def)
next
  case w_second
  then show ?thesis using inv by (cases "mt_sl s") (auto simp: meet_inv_def)
next
  case w_release
  then show ?thesis using inv by (cases "mt_sl s") (auto simp: meet_inv_def)
qed

lemma lock_unheld:
  "meet_inv s \<Longrightarrow> mt_sl s \<notin> {STest, SMark, SRelease} \<Longrightarrow>
    mt_wk s \<notin> {WSet, WLook, WSpin, WSecond, WRelease} \<Longrightarrow> mt_lock s = None"
  by (cases "mt_lock s") (auto simp: meet_inv_def)

interpretation meeting: machine meet_init meet_act meet_inv
  by unfold_locales (auto simp: meet_init_def intro: meet_act_inv, simp add: meet_inv_def)


definition meeting_at :: "bool option \<Rightarrow> bool \<Rightarrow> procstate \<Rightarrow> sl_pc \<Rightarrow> wk_pc \<Rightarrow> meet" where
  "meeting_at l c st sl wk = \<lparr>mt_lock = l, mt_cond = c, mt_state = st, mt_sl = sl, mt_wk = wk\<rparr>"

lemma meeting_start: "reachable meet_init meet_act (meeting_at None False RUNNING SAcquire WAcquire)"
  by (rule reach_init) (simp add: meet_init_def meeting_at_def)

lemma meeting_step:
  "reachable meet_init meet_act s \<Longrightarrow> meet_act s t \<Longrightarrow> t = t' \<Longrightarrow> reachable meet_init meet_act t'"
  by (auto intro: reach_step)




end
