(* ===== verification/Pagetables.thy ===== *)
theory Pagetables
  imports Vm
begin

text \<open>
  The page tables that \<^verbatim>\<open>vm.c\<close> builds in memory. A directory and its tables are pages of
  the kernel's memory; the invariant says that they are distinct pages, none of them on the
  free list. The section shows what \<^verbatim>\<open>walkpgdir\<close> and \<^verbatim>\<open>mappages\<close> do to the
  mapping that the processor reads from them.
\<close>

section \<open>Page tables in memory\<close>

text \<open>The entries of a page are disjoint, and lie in it.\<close>

lemma entry_in_page:
  assumes "unat (i :: uint) < 1024" and "in_run (p + 4 * i) 4 x"
  shows "in_run p 4096 x"
proof -
  from assms(2) obtain k where "k < 4" "x = p + 4 * i + of_nat k" by (auto simp: in_run_iff)
  then have "4 * unat i + k < 4096" "x = p + of_nat (4 * unat i + k)"
    using assms(1) by auto
  then show ?thesis unfolding in_run_iff by blast
qed

lemma entries_disjoint:
  assumes "unat (i :: uint) < 1024" and "unat j < 1024" and "i \<noteq> j"
  shows "disjoint_runs (p + 4 * i) 4 (p + 4 * j) 4"
  unfolding disjoint_runs_def
proof (intro allI impI)
  fix k l :: nat assume kl: "k < 4" "l < 4"
  show "p + 4 * i + of_nat k \<noteq> p + 4 * j + of_nat l"
  proof
    assume "p + 4 * i + of_nat k = p + 4 * j + of_nat l"
    then have eq: "(of_nat (4 * unat i + k) :: uint) = of_nat (4 * unat j + l)" by simp
    have small: "unat (of_nat n :: uint) = n" if "n < 4096" for n
      using that by (intro unat_of_nat_small) simp
    have "4 * unat i + k = unat (of_nat (4 * unat i + k) :: uint)"
      by (rule small [symmetric]) (use assms kl in simp)
    also have "\<dots> = unat (of_nat (4 * unat j + l) :: uint)" unfolding eq ..
    also have "\<dots> = 4 * unat j + l"
      by (rule small) (use assms kl in simp)
    finally have "4 * unat i + k = 4 * unat j + l" .
    then have "(4 * unat i + k) div 4 = (4 * unat j + l) div 4" by simp
    then have "unat i = unat j" using kl by simp
    with assms(3) show False by (simp add: word_unat_eq_iff)
  qed
qed

lemma entry_other_page:
  assumes "page_ok s p" and "page_ok s q" and "p \<noteq> q" and "unat i < 1024" and "unat j < 1024"
  shows "disjoint_runs (p + 4 * i) 4 (q + 4 * j) 4"
  using page_ok_disjoint [OF assms(1-3)] entry_in_page [OF assms(4)] entry_in_page [OF assms(5)]
  unfolding disjoint_runs_iff by blast

definition pd_present :: "32 bytes \<Rightarrow> uint \<Rightarrow> uint \<Rightarrow> bool" where
  "pd_present m d i \<longleftrightarrow> load32 m (d + 4 * i) AND PTE_P \<noteq> 0"

definition pd_table :: "32 bytes \<Rightarrow> uint \<Rightarrow> uint \<Rightarrow> uint" where
  "pd_table m d i = P2V (PTE_ADDR (load32 m (d + 4 * i)))"

text \<open>The pages that hold the directory and its tables.\<close>

definition vm_pages :: "32 bytes \<Rightarrow> uint \<Rightarrow> uint set" where
  "vm_pages m d = insert d (pd_table m d ` {i. unat i < 1024 \<and> pd_present m d i})"

definition pgdir_ok :: "kernel \<Rightarrow> uint \<Rightarrow> bool" where
  "pgdir_ok s d \<longleftrightarrow> page_ok s d \<and>
     (\<forall>i. unat i < 1024 \<longrightarrow> pd_present (mem s) d i \<longrightarrow>
        page_ok s (pd_table (mem s) d i) \<and> pd_table (mem s) d i \<noteq> d) \<and>
     (\<forall>i j. unat i < 1024 \<longrightarrow> unat j < 1024 \<longrightarrow> pd_present (mem s) d i \<longrightarrow> pd_present (mem s) d j \<longrightarrow>
        pd_table (mem s) d i = pd_table (mem s) d j \<longrightarrow> i = j)"

lemma pte_of_alt: "pte_of m d va = (if pd_present m d (PDX va)
    then load32 m (pd_table m d (PDX va) + 4 * PTX va) else 0)"
  by (simp add: pte_of_def pde_of_def pd_present_def pd_table_def)

lemma vm_pages_ok: "pgdir_ok s d \<Longrightarrow> p \<in> vm_pages (mem s) d \<Longrightarrow> page_ok s p"
  by (auto simp: pgdir_ok_def vm_pages_def)

definition same_on :: "uint set \<Rightarrow> 32 bytes \<Rightarrow> 32 bytes \<Rightarrow> bool" where
  "same_on P m m' \<longleftrightarrow> (\<forall>p \<in> P. \<forall>x. in_run p 4096 x \<longrightarrow> m' x = m x)"

lemma same_on_entry: "same_on P m m' \<Longrightarrow> p \<in> P \<Longrightarrow> unat i < 1024 \<Longrightarrow>
    load32 m' (p + 4 * i) = load32 m (p + 4 * i)"
  by (rule load32_cong) (auto simp: same_on_def dest: entry_in_page)

lemma same_on_pd:
  assumes "same_on P m m'" and "d \<in> P" and "unat i < 1024"
  shows "pd_present m' d i = pd_present m d i" and "pd_table m' d i = pd_table m d i"
  using same_on_entry [OF assms] by (simp_all add: pd_present_def pd_table_def)

lemma same_on_vm_pages: "same_on P m m' \<Longrightarrow> d \<in> P \<Longrightarrow> vm_pages m' d = vm_pages m d"
  unfolding vm_pages_def by (intro arg_cong2 [of _ _ _ _ insert] refl image_cong) (auto simp: same_on_pd)

lemma same_on_pgdir_ok: "same_on P (mem s) m' \<Longrightarrow> d \<in> P \<Longrightarrow> pgdir_ok (s\<lparr>mem := m'\<rparr>) d = pgdir_ok s d"
  by (simp add: pgdir_ok_def same_on_pd)

lemma same_on_pte:
  assumes "same_on (vm_pages m d) m m'"
  shows "pte_of m' d va = pte_of m d va"
proof -
  have d: "d \<in> vm_pages m d" by (simp add: vm_pages_def)
  note pd = same_on_pd [OF assms d PDX_less]
  have "pd_table m d (PDX va) \<in> vm_pages m d" if "pd_present m d (PDX va)"
    using that PDX_less [of va] by (auto simp: vm_pages_def)
  then show ?thesis
    using same_on_entry [OF assms _ PTX_less] by (simp add: pte_of_alt pd)
qed

lemma store_same_on:
  assumes "page_ok s q" and "unat i < 1024" and "\<And>p. p \<in> P \<Longrightarrow> page_ok s p \<and> p \<noteq> q"
  shows "same_on P m (store32 m (q + 4 * i) v)"
  unfolding same_on_def
proof (intro ballI allI impI)
  fix p x assume p: "p \<in> P" and x: "in_run p 4096 x"
  have "\<not> in_run (q + 4 * i) 4 x"
    using page_ok_disjoint [of s p q] assms p x entry_in_page [OF assms(2), of q x]
    unfolding disjoint_runs_iff by blast
  then show "store32 m (q + 4 * i) v x = m x" by (rule store32_outside)
qed

lemma fill_same_on:
  assumes "page_ok s q" and "\<And>p. p \<in> P \<Longrightarrow> page_ok s p \<and> p \<noteq> q" and "length bs \<le> 4096"
  shows "same_on P m (write_bytes m q bs)"
  unfolding same_on_def
proof (intro ballI allI impI)
  fix p x assume p: "p \<in> P" and x: "in_run p 4096 x"
  have "\<not> in_run q (length bs) x"
    using page_ok_disjoint [of s p q] assms p x unfolding disjoint_runs_iff in_run_def by force
  then show "write_bytes m q bs x = m x" by (rule write_bytes_outside)
qed

section \<open>Walking and mapping\<close>

text \<open>An address space \<open>d\<close> and the free pages \<open>fl\<close>, which it does not share.\<close>

definition space_ok :: "kernel \<Rightarrow> uint list \<Rightarrow> uint \<Rightarrow> bool" where
  "space_ok s fl d \<longleftrightarrow> kmem_pool s fl \<and> pgdir_ok s d \<and> vm_pages (mem s) d \<inter> set fl = {}"

text \<open>
  From \<open>s\<close> to \<open>s'\<close> only tables of \<open>d\<close> and pages taken from the front of the free list were
  written.
\<close>

definition vm_ext :: "uint \<Rightarrow> kernel \<Rightarrow> uint list \<Rightarrow> kernel \<Rightarrow> uint list \<Rightarrow> bool" where
  "vm_ext d s fl s' fl' \<longleftrightarrow> space_ok s' fl' d \<and>
     (\<exists>m f. s' = s\<lparr>mem := m, freelist := f\<rparr>) \<and>
     (\<exists>used. fl = used @ fl' \<and> vm_pages (mem s') d = vm_pages (mem s) d \<union> set used) \<and>
     (\<forall>x. (\<forall>p \<in> vm_pages (mem s') d. \<not> in_run p 4096 x) \<longrightarrow> mem s' x = mem s x)"

lemma space_ok_pool: "space_ok s fl d \<Longrightarrow> kmem_pool s fl"
  by (simp add: space_ok_def)

lemma vm_ext_refl: "space_ok s fl d \<Longrightarrow> vm_ext d s fl s fl"
  unfolding vm_ext_def by (intro conjI exI [of _ "mem s"] exI [of _ "freelist s"] exI [of _ "[]"]) auto

lemma vm_ext_trans:
  assumes "vm_ext d s fl s1 fl1" and "vm_ext d s1 fl1 s2 fl2"
  shows "vm_ext d s fl s2 fl2"
proof -
  from assms obtain u1 u2 m1 f1 m2 f2 where
    u: "fl = u1 @ fl1" "vm_pages (mem s1) d = vm_pages (mem s) d \<union> set u1"
       "fl1 = u2 @ fl2" "vm_pages (mem s2) d = vm_pages (mem s1) d \<union> set u2"
    and s: "s1 = s\<lparr>mem := m1, freelist := f1\<rparr>" "s2 = s1\<lparr>mem := m2, freelist := f2\<rparr>"
    unfolding vm_ext_def by blast
  have "mem s2 x = mem s x" if "\<forall>p \<in> vm_pages (mem s2) d. \<not> in_run p 4096 x" for x
  proof -
    from that u(4) have "\<forall>p \<in> vm_pages (mem s1) d. \<not> in_run p 4096 x" by blast
    with assms(1) have "mem s1 x = mem s x" unfolding vm_ext_def by blast
    moreover from assms(2) that have "mem s2 x = mem s1 x" unfolding vm_ext_def by blast
    ultimately show ?thesis by simp
  qed
  moreover have "fl = (u1 @ u2) @ fl2" "vm_pages (mem s2) d = vm_pages (mem s) d \<union> set (u1 @ u2)"
    using u by auto
  moreover have "s2 = s\<lparr>mem := m2, freelist := f2\<rparr>" using s by simp
  ultimately show ?thesis
    using assms(2) unfolding vm_ext_def by blast
qed

lemma kmem_ok_same_on:
  assumes "kmem_ok s fl" and "same_on (set fl) (mem s) m'"
  shows "kmem_ok (s\<lparr>mem := m'\<rparr>) fl"
proof -
  have "load32 m' p = load32 (mem s) p" if "p \<in> set fl" for p
    using same_on_entry [OF assms(2) that, of 0] by simp
  with assms(1) show ?thesis by (auto simp: kmem_ok_def intro: flist_cong)
qed

lemma pte_flags:
  assumes "unat (a :: uint) mod 4096 = 0" and "unat (f :: uint) < 4096"
  shows "PTE_ADDR (a OR f) = a" and "PTE_FLAGS (a OR f) = f"
proof -
  have "unat (a AND mask 12) = 0" "unat (f AND NOT (mask 12)) = 0"
    using assms by (simp_all add: unat_and_mask unat_and_not_mask)
  then have a: "a AND mask 12 = 0" and f: "f AND NOT (mask 12) = 0"
    by (simp_all add: word_unat_eq_iff)
  from and_mask_plus_not [of a 12] a have a': "a AND NOT (mask 12) = a" by simp
  from and_mask_plus_not [of f 12] f have f': "f AND mask 12 = f" by simp
  show "PTE_ADDR (a OR f) = a" "PTE_FLAGS (a OR f) = f"
    by (simp_all add: PTE_ADDR_def PTE_FLAGS_def hex_masks bit.conj_disj_distrib2 a f a' f')
qed

lemma in_vm_pages: "d \<in> vm_pages m d"
  "unat i < 1024 \<Longrightarrow> pd_present m d i \<Longrightarrow> pd_table m d i \<in> vm_pages m d"
  by (auto simp: vm_pages_def)

lemma pool_same_on:
  assumes "kmem_pool s fl" and "same_on (set fl) (mem s) m'"
  shows "kmem_pool (s\<lparr>mem := m'\<rparr>) fl"
  using assms kmem_ok_same_on by (simp add: kmem_pool_def)

lemma space_okE:
  assumes "space_ok s fl d"
  shows "pgdir_ok s d" and "kmem_pool s fl" and "\<And>p. p \<in> vm_pages (mem s) d \<Longrightarrow> p \<notin> set fl"
    and "\<And>p. p \<in> set fl \<Longrightarrow> page_ok s p" and "page_ok s d"
    and "\<And>p. p \<in> vm_pages (mem s) d \<Longrightarrow> page_ok s p"
  using assms kmem.pool_managed [of s fl] vm_pages_ok [of s d] unfolding space_ok_def pgdir_ok_def by blast+

text \<open>Writing an entry of a table.\<close>

definition pte_store :: "32 bytes \<Rightarrow> uint \<Rightarrow> uint \<Rightarrow> uint \<Rightarrow> 32 bytes" where
  "pte_store m d va v = store32 m (pd_table m d (PDX va) + 4 * PTX va) v"

lemma present_table:
  assumes "pgdir_ok s d" and "pd_present (mem s) d (PDX va)"
  shows "page_ok s (pd_table (mem s) d (PDX va))" and "pd_table (mem s) d (PDX va) \<noteq> d"
    and "pd_table (mem s) d (PDX va) \<in> vm_pages (mem s) d"
  using assms PDX_less [of va] in_vm_pages(2) [OF PDX_less] by (auto simp: pgdir_ok_def)

lemma pte_store_same_on:
  assumes "pgdir_ok s d" and "pd_present (mem s) d (PDX va)"
    and "\<And>p. p \<in> P \<Longrightarrow> page_ok s p \<and> p \<noteq> pd_table (mem s) d (PDX va)"
  shows "same_on P (mem s) (pte_store (mem s) d va v)"
  unfolding pte_store_def by (rule store_same_on [OF present_table(1) [OF assms(1,2)] PTX_less assms(3)])

lemma pte_store_pd:
  assumes "pgdir_ok s d" and "pd_present (mem s) d (PDX va)"
  shows "same_on {d} (mem s) (pte_store (mem s) d va v)"
    and "vm_pages (pte_store (mem s) d va v) d = vm_pages (mem s) d"
proof -
  show sd: "same_on {d} (mem s) (pte_store (mem s) d va v)"
    using pte_store_same_on [OF assms, of "{d}" v] present_table(2) [OF assms] assms(1)
    by (auto simp: pgdir_ok_def)
  show "vm_pages (pte_store (mem s) d va v) d = vm_pages (mem s) d"
    by (rule same_on_vm_pages [OF sd]) simp
qed

lemma pte_store_ext:
  assumes ok: "space_ok s fl d" and pres: "pd_present (mem s) d (PDX va)"
  shows "vm_ext d s fl (s\<lparr>mem := pte_store (mem s) d va v\<rparr>) fl"
proof -
  let ?m = "pte_store (mem s) d va v" and ?q = "pd_table (mem s) d (PDX va)"
  note ok = ok space_okE [OF ok]
  note q = present_table [OF ok(2) pres] and pd = pte_store_pd [OF ok(2) pres, of v]
  have "same_on (set fl) (mem s) ?m"
    using ok(4,5) q(3) by (intro pte_store_same_on [OF ok(2) pres]) blast
  then have "space_ok (s\<lparr>mem := ?m\<rparr>) fl d"
    using pool_same_on [OF ok(3)] same_on_pgdir_ok [OF pd(1)] ok pd(2) by (simp add: space_ok_def)
  moreover have "?m x = mem s x" if "\<forall>p \<in> vm_pages (mem s) d. \<not> in_run p 4096 x" for x
    using that q(3) entry_in_page [OF PTX_less, of ?q va x]
    unfolding pte_store_def by (intro store32_outside) blast
  ultimately show ?thesis
    unfolding vm_ext_def using pd(2)
    by (intro conjI exI [of _ "?m"] exI [of _ "freelist s"] exI [of _ "[]"]) auto
qed

lemma pte_of_store:
  assumes g: "pgdir_ok s d" and pres: "pd_present (mem s) d (PDX va)"
  shows "pte_of (pte_store (mem s) d va v) d vb =
    (if PGROUNDDOWN vb = PGROUNDDOWN va then v else pte_of (mem s) d vb)"
proof -
  let ?m = "pte_store (mem s) d va v" and ?q = "pd_table (mem s) d (PDX va)"
  note pd = same_on_pd [OF pte_store_pd(1) [OF assms, of v] _ PDX_less, simplified]
  have eq: "PGROUNDDOWN vb = PGROUNDDOWN va \<longleftrightarrow> PDX vb = PDX va \<and> PTX vb = PTX va"
    using same_page_iff [of vb va] by simp
  consider (same) "PDX vb = PDX va" "PTX vb = PTX va" | (entry) "PDX vb = PDX va" "PTX vb \<noteq> PTX va"
    | (table) "PDX vb \<noteq> PDX va" by blast
  then show ?thesis
  proof cases
    case same
    with pres show ?thesis by (simp add: eq pte_of_alt pd) (simp add: pte_store_def)
  next
    case entry
    have "load32 ?m (?q + 4 * PTX vb) = load32 (mem s) (?q + 4 * PTX vb)"
      unfolding pte_store_def
      by (rule load32_store32_disjoint [OF entries_disjoint [OF PTX_less PTX_less entry(2)]])
    with entry show ?thesis by (simp add: eq pte_of_alt pd)
  next
    case table
    let ?t = "pd_table (mem s) d (PDX vb)"
    have "load32 ?m (?t + 4 * PTX vb) = load32 (mem s) (?t + 4 * PTX vb)"
      if p: "pd_present (mem s) d (PDX vb)"
    proof -
      have "?t \<noteq> ?q" using g p pres table PDX_less unfolding pgdir_ok_def by blast
      then have "same_on {?t} (mem s) ?m"
        using present_table(1) [OF g p] by (intro pte_store_same_on [OF g pres]) simp
      then show ?thesis by (rule same_on_entry) (simp_all add: PTX_less)
    qed
    with table show ?thesis by (simp add: eq pte_of_alt pd)
  qed
qed

text \<open>Taking a page for a new table.\<close>

definition zero_page :: "32 bytes \<Rightarrow> uint \<Rightarrow> 32 bytes" where
  "zero_page m p = write_bytes m p (replicate 4096 0)"

definition table_flags :: uint where
  "table_flags = PTE_P OR PTE_W OR PTE_U"

definition table_mem :: "32 bytes \<Rightarrow> uint \<Rightarrow> uint \<Rightarrow> uint \<Rightarrow> 32 bytes" where
  "table_mem m d i t = store32 (zero_page m t) (d + 4 * i) (V2P t OR table_flags)"

lemma zero_page_in: "in_run p 4096 x \<Longrightarrow> zero_page m p x = 0"
  by (simp add: zero_page_def write_bytes_def in_run_def)

lemma zero_page_entry: "unat i < 1024 \<Longrightarrow> load32 (zero_page m p) (p + 4 * i) = 0"
  using load32_cong [of "p + 4 * i" "zero_page m p" "\<lambda>_. 0"] entry_in_page [of i p] zero_page_in [of p]
  by (simp add: load32_zero)

lemma mfill_page: "mfill p 0 PGSIZE env s = Ret () env (s\<lparr>mem := zero_page (mem s) p\<rparr>)"
  by (simp add: mfill_def memset_eq PGSIZE_def zero_page_def)

lemma V2P_aligned: "page_ok s p \<Longrightarrow> unat (V2P p) mod 4096 = 0"
proof -
  assume p: "page_ok s p"
  then have "unat (V2P p) = unat p - 0x80000000"
    using page_ok_bounds(1) [OF p] by (simp add: V2P_def KERNBASE_def unat_sub word_le_nat_alt)
  then show ?thesis
    using page_ok_bounds(4) [OF p] by (simp add: mod_eq_0_iff_dvd dvd_diff_nat)
qed

lemma table_entry:
  assumes "page_ok s t"
  shows "P2V (PTE_ADDR (V2P t OR table_flags)) = t" and "(V2P t OR table_flags) AND PTE_P \<noteq> 0"
proof -
  have f: "unat table_flags < 4096" by (simp add: table_flags_def PTE_P_def PTE_W_def PTE_U_def)
  show "P2V (PTE_ADDR (V2P t OR table_flags)) = t"
    by (simp add: pte_flags(1) [OF V2P_aligned [OF assms] f])
  have "bit (V2P t OR table_flags) 0"
    by (simp add: bit_or_iff table_flags_def PTE_P_def PTE_W_def PTE_U_def)
  then show "(V2P t OR table_flags) AND PTE_P \<noteq> 0"
    by (auto simp: PTE_P_def and_one_eq mod2_eq_if bit_0)
qed

lemma table_mem_same_on:
  assumes "page_ok s t" and "page_ok s d" and "unat i < 1024"
    and "\<And>p. p \<in> P \<Longrightarrow> page_ok s p \<and> p \<noteq> t \<and> p \<noteq> d"
  shows "same_on P m (table_mem m d i t)"
proof -
  have "same_on P m (zero_page m t)"
    unfolding zero_page_def using assms by (intro fill_same_on [OF assms(1)]) auto
  moreover have "same_on P (zero_page m t) (table_mem m d i t)"
    unfolding table_mem_def using assms by (intro store_same_on [OF assms(2,3)]) auto
  ultimately show ?thesis by (simp add: same_on_def)
qed

lemma table_mem_pd:
  assumes t: "page_ok s t" and d: "page_ok s d" and "t \<noteq> d" and i: "unat i < 1024" and j: "unat j < 1024"
  shows "pd_present (table_mem m d i t) d j \<longleftrightarrow> j = i \<or> pd_present m d j"
    and "pd_table (table_mem m d i t) d j = (if j = i then t else pd_table m d j)"
proof -
  have "load32 (table_mem m d i t) (d + 4 * j) = load32 m (d + 4 * j)" if "j \<noteq> i"
  proof -
    have "load32 (table_mem m d i t) (d + 4 * j) = load32 (zero_page m t) (d + 4 * j)"
      unfolding table_mem_def by (rule load32_store32_disjoint [OF entries_disjoint [OF j i that]])
    also have "same_on {d} m (zero_page m t)"
      unfolding zero_page_def using assms by (intro fill_same_on [OF t]) auto
    then have "load32 (zero_page m t) (d + 4 * j) = load32 m (d + 4 * j)"
      by (rule same_on_entry) (simp_all add: j)
    finally show ?thesis .
  qed
  moreover have "load32 (table_mem m d i t) (d + 4 * i) = V2P t OR table_flags"
    by (simp add: table_mem_def)
  ultimately show "pd_present (table_mem m d i t) d j \<longleftrightarrow> j = i \<or> pd_present m d j"
    and "pd_table (table_mem m d i t) d j = (if j = i then t else pd_table m d j)"
    using table_entry [OF t] by (cases "j = i"; simp add: pd_present_def pd_table_def)+
qed

lemma table_mem_pages:
  assumes "page_ok s t" and "page_ok s d" and "t \<noteq> d" and "unat i < 1024" and "\<not> pd_present m d i"
  shows "vm_pages (table_mem m d i t) d = insert t (vm_pages m d)"
proof -
  note pd = table_mem_pd [OF assms(1-4)]
  have "{j. unat j < 1024 \<and> pd_present (table_mem m d i t) d j} = insert i {j. unat j < 1024 \<and> pd_present m d j}"
    using assms(4) by (auto simp: pd)
  moreover have "pd_table (table_mem m d i t) d ` {j. unat j < 1024 \<and> pd_present m d j} =
      pd_table m d ` {j. unat j < 1024 \<and> pd_present m d j}"
    using assms(5) by (intro image_cong) (auto simp: pd)
  ultimately show ?thesis
    using pd(2) [OF assms(4), of m] by (simp add: vm_pages_def insert_commute)
qed

lemma table_mem_pgdir:
  assumes g: "pgdir_ok s d" and t: "page_ok s t" "t \<notin> vm_pages (mem s) d" and i: "unat i < 1024"
    and abs: "\<not> pd_present (mem s) d i"
  shows "pgdir_ok (s\<lparr>mem := table_mem (mem s) d i t\<rparr>) d"
proof -
  have d: "page_ok s d" "t \<noteq> d" using g t(2) in_vm_pages(1) by (auto simp: pgdir_ok_def)
  note pd = table_mem_pd [OF t(1) d i]
  have "pd_table (mem s) d j \<noteq> t" if "unat j < 1024" "pd_present (mem s) d j" for j
    using in_vm_pages(2) [OF that] t(2) by auto
  then show ?thesis
    using g t(1) d pd abs unfolding pgdir_ok_def by auto
qed

lemma table_mem_pte:
  assumes g: "pgdir_ok s d" and t: "page_ok s t" "t \<notin> vm_pages (mem s) d"
    and abs: "\<not> pd_present (mem s) d (PDX va)"
  shows "pte_of (table_mem (mem s) d (PDX va) t) d vb = pte_of (mem s) d vb"
proof -
  let ?m = "table_mem (mem s) d (PDX va) t"
  have d: "page_ok s d" "t \<noteq> d" using g t(2) in_vm_pages(1) by (auto simp: pgdir_ok_def)
  note pd = table_mem_pd [OF t(1) d PDX_less [of va] PDX_less [of vb], of "mem s"]
  show ?thesis
  proof (cases "PDX vb = PDX va")
    case True
    have "same_on {t} (zero_page (mem s) t) ?m"
      unfolding table_mem_def using t(1) d by (intro store_same_on [OF d(1) PDX_less]) auto
    then have "load32 ?m (t + 4 * PTX vb) = load32 (zero_page (mem s) t) (t + 4 * PTX vb)"
      by (rule same_on_entry) (simp_all add: PTX_less)
    with True abs show ?thesis
      using pd [unfolded True] by (simp add: pte_of_alt zero_page_entry PTX_less)
  next
    case False
    have "load32 ?m (pd_table (mem s) d (PDX vb) + 4 * PTX vb) =
        load32 (mem s) (pd_table (mem s) d (PDX vb) + 4 * PTX vb)" if p: "pd_present (mem s) d (PDX vb)"
    proof -
      have "same_on {pd_table (mem s) d (PDX vb)} (mem s) ?m"
        using present_table [OF g p] t by (intro table_mem_same_on [OF t(1) d(1) PDX_less]) auto
      then show ?thesis by (rule same_on_entry) (simp_all add: PTX_less)
    qed
    with False show ?thesis by (simp add: pte_of_alt pd)
  qed
qed

lemma new_table:
  assumes ok: "space_ok s (t # fl) d" and abs: "\<not> pd_present (mem s) d (PDX va)"
  shows "vm_ext d s (t # fl) (s\<lparr>freelist := load32 (mem s) t, mem := table_mem (mem s) d (PDX va) t\<rparr>) fl"
proof -
  let ?m = "table_mem (mem s) d (PDX va) t"
  note g = space_okE [OF ok]
  have t: "page_ok s t" "t \<notin> vm_pages (mem s) d" "t \<noteq> d" "t \<notin> set fl"
    using g in_vm_pages(1) [of d] kmem.pool_distinct [OF g(2)] by auto
  have pages: "vm_pages ?m d = insert t (vm_pages (mem s) d)"
    by (rule table_mem_pages [OF t(1) g(5) t(3) PDX_less abs])
  have fl: "same_on (set fl) (mem s) ?m"
    using g(3) [OF in_vm_pages(1)] g(4) t by (intro table_mem_same_on [OF t(1) g(5) PDX_less]) auto
  have "kmem_pool (s\<lparr>freelist := load32 (mem s) t\<rparr>) fl"
    using g(2) kmem_ok_alloc [of s t fl] by (simp add: kmem_pool_def)
  from pool_same_on [OF this] fl have "kmem_pool (s\<lparr>freelist := load32 (mem s) t, mem := ?m\<rparr>) fl" by simp
  moreover have "pgdir_ok (s\<lparr>freelist := load32 (mem s) t, mem := ?m\<rparr>) d"
    using table_mem_pgdir [OF g(1) t(1,2) PDX_less abs] by (simp add: pgdir_ok_def)
  moreover have "?m x = mem s x" if "\<forall>p \<in> vm_pages ?m d. \<not> in_run p 4096 x" for x
  proof -
    have "\<not> in_run (d + 4 * PDX va) 4 x" "\<not> in_run t 4096 x"
      using that entry_in_page [OF PDX_less, of d va x] in_vm_pages(1) [of d "mem s"] unfolding pages by auto
    then show ?thesis by (simp add: table_mem_def zero_page_def store32_outside write_bytes_outside)
  qed
  ultimately show ?thesis
    unfolding vm_ext_def space_ok_def using g(3) t(4) pages
    by (intro conjI exI [of _ ?m] exI [of _ "load32 (mem s) t"] exI [of _ "[t]"]) auto
qed

lemma entry_nonnull:
  assumes "page_ok s t" and "unat i < 1024"
  shows "t + 4 * i \<noteq> 0"
proof -
  have "unat (t + of_nat (4 * unat i)) = unat t + 4 * unat i"
    using page_ok_bounds(2) [OF assms(1)] assms(2) by (intro unat_plus_of_nat) simp
  then have "unat (t + 4 * i) \<noteq> 0"
    using page_ok_bounds(1) [OF assms(1)] by (simp add: KERNBASE_def)
  then show ?thesis by auto
qed

lemma vm_ext_space: "vm_ext d s fl s' fl' \<Longrightarrow> space_ok s' fl' d"
  by (simp add: vm_ext_def)

text \<open>\<^verbatim>\<open>walkpgdir\<close> with \<open>alloc\<close>: the address of the entry, or null when no page was left.\<close>

lemma walkpgdir_present:
  "pd_present (mem s) d (PDX va) \<Longrightarrow>
    walkpgdir d va alloc env s = Ret (pd_table (mem s) d (PDX va) + 4 * PTX va) env s"
  by (simp add: walkpgdir_def Let_def mload_def pd_present_def pd_table_def)

lemma walkpgdir_absent:
  "\<not> pd_present (mem s) d (PDX va) \<Longrightarrow> walkpgdir d va False env s = Ret 0 env s"
  by (simp add: walkpgdir_def Let_def mload_def pd_present_def)

lemma walkpgdir_full:
  assumes "\<not> pd_present (mem s) d (PDX va)" and "kmem_pool s []"
  shows "walkpgdir d va True env s = Ret 0 env s"
proof -
  have "freelist s = 0" "kmem_ready s" using assms(2) by (auto simp: kmem_pool_def kmem_ok_def)
  then show ?thesis using assms(1) by (simp add: walkpgdir_def Let_def mload_def pd_present_def exec)
qed

lemma walkpgdir_new:
  assumes "\<not> pd_present (mem s) d (PDX va)" and "kmem_pool s (t # fl)"
  shows "walkpgdir d va True env s = Ret (t + 4 * PTX va) env
    (s\<lparr>freelist := load32 (mem s) t, mem := table_mem (mem s) d (PDX va) t\<rparr>)"
proof -
  have "freelist s = t" "t \<noteq> 0" "kmem_ready s" using assms(2) by (auto simp: kmem_pool_def kmem_ok_def)
  then show ?thesis
    using assms(1)
    by (simp add: walkpgdir_def Let_def mload_def mstore_def pd_present_def exec mfill_page table_mem_def
        table_flags_def or.assoc)
qed

lemma walkpgdir_alloc:
  assumes ok: "space_ok s fl d"
  shows "\<exists>r s' fl'. walkpgdir d va True env s = Ret r env s' \<and> vm_ext d s fl s' fl' \<and>
    (\<forall>vb. pte_of (mem s') d vb = pte_of (mem s) d vb) \<and> length fl \<le> Suc (length fl') \<and>
    (if r = 0 then fl' = [] \<and> fl = []
     else pd_present (mem s') d (PDX va) \<and> r = pd_table (mem s') d (PDX va) + 4 * PTX va)"
proof -
  note g = space_okE [OF ok]
  consider (pres) "pd_present (mem s) d (PDX va)" | (full) "\<not> pd_present (mem s) d (PDX va)" "fl = []"
    | (new) t fl' where "\<not> pd_present (mem s) d (PDX va)" "fl = t # fl'"
    by (cases fl) auto
  then show ?thesis
  proof cases
    case pres
    then show ?thesis
      using vm_ext_refl [OF ok] walkpgdir_present [OF pres, of True env]
        entry_nonnull [OF present_table(1) [OF g(1) pres] PTX_less] by fastforce
  next
    case full
    then show ?thesis
      using vm_ext_refl [OF ok] walkpgdir_full [of s d va env] g(2) by fastforce
  next
    case new
    let ?s = "s\<lparr>freelist := load32 (mem s) t, mem := table_mem (mem s) d (PDX va) t\<rparr>"
    have t: "page_ok s t" "t \<notin> vm_pages (mem s) d" "t \<noteq> d"
      using g new(2) in_vm_pages(1) [of d "mem s"] by auto
    have "pd_present (mem ?s) d (PDX va)" "pd_table (mem ?s) d (PDX va) = t"
      using table_mem_pd [OF t(1) g(5) t(3) PDX_less PDX_less, of "mem s" va va] by auto
    moreover have "vm_ext d s fl ?s fl'" using new_table [of s t fl' d va] ok new by simp
    moreover have "walkpgdir d va True env s = Ret (t + 4 * PTX va) env ?s"
      using walkpgdir_new [of s d va t fl' env] new g(2) by simp
    ultimately show ?thesis
      using entry_nonnull [OF t(1) PTX_less [of va]] table_mem_pte [OF g(1) t(1,2) new(1)] new(2)
      by (intro exI [of _ "t + 4 * PTX va"] exI [of _ ?s] exI [of _ fl']) simp
  qed
qed

text \<open>The entries after mapping \<open>c\<close> pages at \<open>a\<close>, given those before.\<close>

definition map_ptes :: "uint \<Rightarrow> nat \<Rightarrow> uint \<Rightarrow> uint \<Rightarrow> (uint \<Rightarrow> uint) \<Rightarrow> uint \<Rightarrow> uint" where
  "map_ptes a c pa perm f vb =
     (if unat (PGROUNDDOWN vb - a) < 4096 * c then (pa + (PGROUNDDOWN vb - a)) OR perm OR PTE_P else f vb)"

lemma aligned_diff:
  fixes x a :: uint
  assumes "unat x mod 4096 = 0" and "unat a mod 4096 = 0"
  shows "unat (x - a) mod 4096 = 0"
proof -
  have "4096 dvd unat x" "4096 dvd unat a" "4096 dvd (4294967296 :: nat)"
    using assms by (auto simp: mod_eq_0_iff_dvd)
  then show ?thesis
    by (auto simp: unat_sub_if' mod_eq_0_iff_dvd intro!: dvd_diff_nat dvd_add)
qed

lemma map_ptes_0 [simp]: "map_ptes a 0 pa perm f = f"
  by (simp add: map_ptes_def fun_eq_iff)

lemma map_ptes_Suc:
  assumes "unat a mod 4096 = 0" and "4096 * c + 4096 \<le> 4294967296"
  shows "map_ptes (a + PGSIZE) c (pa + PGSIZE) perm
      (\<lambda>vb. if PGROUNDDOWN vb = a then pa OR perm OR PTE_P else f vb) vb = map_ptes a (Suc c) pa perm f vb"
proof -
  let ?y = "PGROUNDDOWN vb - a"
  have y: "unat ?y mod 4096 = 0" by (rule aligned_diff [OF PGROUNDDOWN_aligned assms(1)])
  have e: "PGROUNDDOWN vb - (a + PGSIZE) = ?y - 4096" by (simp add: PGSIZE_def)
  show ?thesis
  proof (cases "PGROUNDDOWN vb = a")
    case True
    then have "unat (?y - 4096) = 4294963200" by simp
    with True show ?thesis using assms(2) by (simp add: map_ptes_def e)
  next
    case False
    then have "unat ?y \<noteq> 0" by (simp add: unat_eq_zero)
    then have "4096 \<le> unat ?y" using y by (metis mod_less not_less)
    moreover from this have "unat (?y - 4096) = unat ?y - 4096" by (simp add: unat_sub word_le_nat_alt)
    ultimately show ?thesis using False by (auto simp: map_ptes_def e PGSIZE_def algebra_simps)
  qed
qed

lemma map_ptes_1: "unat a mod 4096 = 0 \<Longrightarrow>
    map_ptes a (Suc 0) pa perm f vb = (if PGROUNDDOWN vb = a then pa OR perm OR PTE_P else f vb)"
  using map_ptes_Suc [of a 0 pa perm f vb] by simp

lemma aligned_plus: "unat (a :: uint) mod 4096 = 0 \<Longrightarrow> unat (a + PGSIZE) mod 4096 = 0"
proof -
  assume a: "unat a mod 4096 = 0"
  have "unat (0 - PGSIZE :: uint) mod 4096 = 0" by (simp add: PGSIZE_def)
  from aligned_diff [OF a this] show ?thesis by simp
qed

lemma aligned_round: "unat a mod 4096 = 0 \<Longrightarrow> PGROUNDDOWN a = a"
  using PGROUNDDOWN_plus_off [of a] unat_page_off [of a] by (metis add.right_neutral unat_eq_zero)

lemma PGROUNDDOWN_add: "unat a mod 4096 = 0 \<Longrightarrow> PGROUNDDOWN (a + of_nat j * PGSIZE) = a + of_nat j * PGSIZE"
proof (rule aligned_round, induction j)
  case (Suc j)
  then show ?case using aligned_plus [of "a + of_nat j * PGSIZE"] by (simp add: algebra_simps)
qed simp

lemma unat_pages: "4096 * k < 4294967296 \<Longrightarrow> unat (of_nat k * PGSIZE :: uint) = 4096 * k"
  using unat_of_nat_small [of "4096 * k", where 'i = 32] by (simp add: PGSIZE_def mult.commute)

text \<open>One turn of the loop of \<^verbatim>\<open>mappages\<close>: the page is mapped, or no free page is left.\<close>

lemma mappages_turn:
  assumes "space_ok s fl d" and "unat a mod 4096 = 0" and "pte_of (mem s) d a AND PTE_P = 0"
  shows "mappages_from (Suc n) d a last_a pa perm env s = Ret (- 1) env s \<and> fl = [] \<or>
    (\<exists>s' fl'. mappages_from (Suc n) d a last_a pa perm env s =
        (if a = last_a then kret 0 else mappages_from n d (a + PGSIZE) last_a (pa + PGSIZE) perm) env s' \<and>
      vm_ext d s fl s' fl' \<and> length fl \<le> Suc (length fl') \<and>
      pte_of (mem s') d = (\<lambda>vb. if PGROUNDDOWN vb = a then pa OR perm OR PTE_P else pte_of (mem s) d vb))"
proof -
  from walkpgdir_alloc [OF assms(1), of a env] obtain r s1 fl1 where
    w: "walkpgdir d a True env s = Ret r env s1" and e1: "vm_ext d s fl s1 fl1"
    and p1: "pte_of (mem s1) d = pte_of (mem s) d" and l1: "length fl \<le> Suc (length fl1)"
    and r: "if r = 0 then fl1 = [] \<and> fl = []
       else pd_present (mem s1) d (PDX a) \<and> r = pd_table (mem s1) d (PDX a) + 4 * PTX a"
    by (auto simp: fun_eq_iff)
  show ?thesis
  proof (cases "r = 0")
    case True
    with r have "fl = []" by simp
    then have "walkpgdir d a True env s = Ret 0 env s"
      using walkpgdir_full [of s d a env] walkpgdir_present [of s d a True env] space_okE(2) [OF assms(1)]
        present_table(1) [OF space_okE(1) [OF assms(1)], of a] entry_nonnull [of s _ "PTX a"] PTX_less [of a]
        w True by (cases "pd_present (mem s) d (PDX a)") auto
    with \<open>fl = []\<close> show ?thesis by (simp add: exec)
  next
    case False
    let ?m = "pte_store (mem s1) d a (pa OR perm OR PTE_P)"
    note ok1 = vm_ext_space [OF e1]
    from False r have pr: "pd_present (mem s1) d (PDX a)" and rr: "r = pd_table (mem s1) d (PDX a) + 4 * PTX a"
      by auto
    have e2: "vm_ext d s fl (s1\<lparr>mem := ?m\<rparr>) fl1"
      by (rule vm_ext_trans [OF e1 pte_store_ext [OF ok1 pr]])
    have p2: "pte_of ?m d = (\<lambda>vb. if PGROUNDDOWN vb = a then pa OR perm OR PTE_P else pte_of (mem s) d vb)"
      using pte_of_store [OF space_okE(1) [OF ok1] pr] p1 aligned_round [OF assms(2)]
      by (simp add: fun_eq_iff)
    have "pte_of (mem s1) d a = load32 (mem s1) r" using pr by (simp add: pte_of_alt rr)
    then have "load32 (mem s1) r AND PTE_P = 0" using assms(3) p1 by simp
    then have "mappages_from (Suc n) d a last_a pa perm env s =
        (if a = last_a then kret 0 else mappages_from n d (a + PGSIZE) last_a (pa + PGSIZE) perm) env (s1\<lparr>mem := ?m\<rparr>)"
      using False by (simp add: exec w mload_def mstore_def pte_store_def rr)
    with e2 l1 p2 show ?thesis
      by (intro disjI2 exI [of _ "s1\<lparr>mem := ?m\<rparr>"] exI [of _ fl1]) simp
  qed
qed

text \<open>
  The loop over \<open>Suc k\<close> pages: it maps them all, or as many as the free pages
  allow, and then there is no free page left.
\<close>

lemma mappages_from_spec:
  assumes "space_ok s fl d" and "unat a mod 4096 = 0" and "unat a + 4096 * k < 4294967296" and "k < n"
    and "\<And>j. j \<le> k \<Longrightarrow> pte_of (mem s) d (a + of_nat j * PGSIZE) AND PTE_P = 0"
  shows "\<exists>r s' fl' c. mappages_from n d a (a + of_nat k * PGSIZE) pa perm env s = Ret r env s' \<and>
    vm_ext d s fl s' fl' \<and> length fl \<le> length fl' + Suc k \<and>
    pte_of (mem s') d = map_ptes a c pa perm (pte_of (mem s) d) \<and>
    (r = 0 \<and> c = Suc k \<or> r = - 1 \<and> c \<le> k \<and> fl' = [] \<and> length fl \<le> c)"
  using assms
proof (induction n arbitrary: s fl a pa k)
  case 0
  then show ?case by simp
next
  case (Suc n)
  let ?l = "a + of_nat k * PGSIZE"
  have "k < 1048576" using Suc.prems(3) by linarith
  then have k: "4096 * k < 4294967296" "4096 * k + 4096 \<le> 4294967296" by linarith+
  have nz: "of_nat j * PGSIZE \<noteq> (0 :: uint)" if "j \<le> k" "0 < j" for j
    using unat_pages [of j] that k by auto
  from mappages_turn [OF Suc.prems(1,2), of n ?l pa perm env] Suc.prems(5) [of 0]
  consider (full) "mappages_from (Suc n) d a ?l pa perm env s = Ret (- 1) env s" "fl = []"
    | (turn) s1 fl1 where "mappages_from (Suc n) d a ?l pa perm env s =
        (if a = ?l then kret 0 else mappages_from n d (a + PGSIZE) ?l (pa + PGSIZE) perm) env s1"
      "vm_ext d s fl s1 fl1" "length fl \<le> Suc (length fl1)"
      "pte_of (mem s1) d = (\<lambda>vb. if PGROUNDDOWN vb = a then pa OR perm OR PTE_P else pte_of (mem s) d vb)"
    by auto
  then show ?case
  proof cases
    case full
    then show ?thesis
      using vm_ext_refl [OF Suc.prems(1)]
      by (intro exI [of _ "- 1"] exI [of _ s] exI [of _ "[]"] exI [of _ 0]) simp
  next
    case turn
    show ?thesis
    proof (cases k)
      case 0
      then show ?thesis
        using turn Suc.prems(2)
        by (intro exI [of _ 0] exI [of _ s1] exI [of _ fl1] exI [of _ "Suc 0"]) (simp add: fun_eq_iff map_ptes_1)
    next
      case (Suc k')
      let ?a = "a + PGSIZE"
      have a: "unat ?a = unat a + 4096"
        using Suc.prems(3) Suc by (simp add: unat_word_ariths PGSIZE_def)
      have un: "pte_of (mem s1) d (?a + of_nat j * PGSIZE) AND PTE_P = 0" if "j \<le> k'" for j
        using Suc.prems(5) [of "Suc j"] that Suc nz [of "Suc j"] PGROUNDDOWN_add [OF Suc.prems(2), of "Suc j"]
        by (simp add: turn(4) algebra_simps)
      obtain r s' fl' c where ih: "mappages_from n d ?a (?a + of_nat k' * PGSIZE) (pa + PGSIZE) perm env s1 = Ret r env s'"
          "vm_ext d s1 fl1 s' fl'" "length fl1 \<le> length fl' + Suc k'"
          "pte_of (mem s') d = map_ptes ?a c (pa + PGSIZE) perm (pte_of (mem s1) d)"
          "r = 0 \<and> c = Suc k' \<or> r = - 1 \<and> c \<le> k' \<and> fl' = [] \<and> length fl1 \<le> c"
        using Suc.IH [OF vm_ext_space [OF turn(2)] aligned_plus [OF Suc.prems(2)], of k' "pa + PGSIZE"]
          Suc.prems(3,4) Suc a un by auto
      have "pte_of (mem s') d = map_ptes a (Suc c) pa perm (pte_of (mem s) d)"
        unfolding ih(4) turn(4) using ih(5) k(2) Suc
        by (intro ext map_ptes_Suc [OF Suc.prems(2)]) auto
      moreover have l: "?l = ?a + of_nat k' * PGSIZE" "a \<noteq> ?l"
        using Suc nz [of k] by (auto simp: algebra_simps)
      have "mappages_from (Suc n) d a ?l pa perm env s = Ret r env s'"
        using turn(1) ih(1) l(2) unfolding l(1) [symmetric] by (simp only: if_False)
      ultimately show ?thesis
        using ih(3,5) vm_ext_trans [OF turn(2) ih(2)] turn(3) Suc
        by (intro exI [of _ r] exI [of _ s'] exI [of _ fl'] exI [of _ "Suc c"]) (auto simp del: mappages_from.simps)
    qed
  qed
qed

lemma round_last:
  assumes "unat va mod 4096 = 0" and "unat va + 4096 * Suc k \<le> 4294967296"
  shows "PGROUNDDOWN (va + of_nat (Suc k) * PGSIZE - 1) = va + of_nat k * PGSIZE"
proof -
  have e: "va + of_nat (Suc k) * PGSIZE - 1 = va + of_nat (4096 * k + 4095)"
    by (simp add: PGSIZE_def algebra_simps)
  have "unat (va + of_nat (4096 * k + 4095)) = unat va + (4096 * k + 4095)"
    using assms(2) by (intro unat_plus_of_nat) simp
  moreover have "unat (va + of_nat (4096 * k)) = unat va + 4096 * k"
    using assms(2) by (intro unat_plus_of_nat) simp
  moreover from assms(1) obtain q where q: "unat va = 4096 * q" by (auto simp: mod_eq_0_iff_dvd elim: dvdE)
  have "(4096 * q + (4096 * k + 4095)) div 4096 = q + k" by linarith
  then have "(4096 * q + (4096 * k + 4095)) div 4096 * 4096 = 4096 * q + 4096 * k" by simp
  ultimately have "unat (PGROUNDDOWN (va + of_nat (4096 * k + 4095))) = unat (va + of_nat (4096 * k))"
    unfolding unat_PGROUNDDOWN by (simp only: q)
  then have "PGROUNDDOWN (va + of_nat (4096 * k + 4095)) = va + of_nat (4096 * k)"
    by (simp only: word_unat_eq_iff)
  then show ?thesis unfolding e by (simp add: PGSIZE_def algebra_simps)
qed

lemma mappages_spec:
  assumes "space_ok s fl d" and "unat va mod 4096 = 0" and "unat va + 4096 * Suc k \<le> 4294967296"
    and "\<And>j. j \<le> k \<Longrightarrow> pte_of (mem s) d (va + of_nat j * PGSIZE) AND PTE_P = 0"
  shows "\<exists>r s' fl' c. mappages d va (of_nat (Suc k) * PGSIZE) pa perm env s = Ret r env s' \<and>
    vm_ext d s fl s' fl' \<and> length fl \<le> length fl' + Suc k \<and>
    pte_of (mem s') d = map_ptes va c pa perm (pte_of (mem s) d) \<and>
    (r = 0 \<and> c = Suc k \<or> r = - 1 \<and> c \<le> k \<and> fl' = [] \<and> length fl \<le> c)"
proof -
  have "unat (of_nat k * PGSIZE :: uint) = 4096 * k"
    using assms(3) by (intro unat_pages) simp
  then have "mappages d va (of_nat (Suc k) * PGSIZE) pa perm =
      mappages_from (Suc k) d va (va + of_nat k * PGSIZE) pa perm"
    unfolding mappages_def Let_def round_last [OF assms(2,3)] aligned_round [OF assms(2)]
    by (simp add: PGSIZE_def del: mappages_from.simps)
  then show ?thesis
    using mappages_from_spec [OF assms(1,2) _ _ assms(4), of k "Suc k" pa perm env] assms(3) by simp
qed

text \<open>C16: \<^verbatim>\<open>mappages\<close> maps the \<open>Suc k\<close> pages it is asked for, each to its own page of physical
  memory, and no other address changes its mapping; or it returns \<open>-1\<close>, having mapped a prefix
  of them, when no free page is left for a page table. Nothing outside the page tables of
  this directory is written.\<close>

theorem mappages_maps:
  assumes "space_ok s fl d" and "unat va mod 4096 = 0" and "unat va + 4096 * Suc k \<le> 4294967296"
    and "\<And>j. j \<le> k \<Longrightarrow> pte_of (mem s) d (va + of_nat j * PGSIZE) AND PTE_P = 0"
  shows "\<exists>r s' fl' c. mappages d va (of_nat (Suc k) * PGSIZE) pa perm env s = Ret r env s' \<and>
    space_ok s' fl' d \<and> (r = 0 \<and> c = Suc k \<or> r = - 1 \<and> c \<le> k \<and> fl' = [] \<and> length fl \<le> c) \<and>
    (\<forall>vb. pte_of (mem s') d vb = (if unat (PGROUNDDOWN vb - va) < 4096 * c
        then (pa + (PGROUNDDOWN vb - va)) OR perm OR PTE_P else pte_of (mem s) d vb)) \<and>
    (\<forall>x. (\<forall>p \<in> vm_pages (mem s') d. \<not> in_run p 4096 x) \<longrightarrow> mem s' x = mem s x)"
proof -
  from mappages_spec [OF assms, of pa perm env] obtain r s' fl' c where
    "mappages d va (of_nat (Suc k) * PGSIZE) pa perm env s = Ret r env s'" "vm_ext d s fl s' fl'"
    "pte_of (mem s') d = map_ptes va c pa perm (pte_of (mem s) d)"
    "r = 0 \<and> c = Suc k \<or> r = - 1 \<and> c \<le> k \<and> fl' = [] \<and> length fl \<le> c" by blast
  then show ?thesis
    by (intro exI [of _ r] exI [of _ s'] exI [of _ fl'] exI [of _ c]) (auto simp: vm_ext_def map_ptes_def)
qed

text \<open>An empty directory next to two free pages.\<close>

definition small_space :: kernel where
  "small_space = boot_kernel\<lparr>mem := store32 (\<lambda>_. 0) 0x80300000 0x80301000, freelist := 0x80300000\<rparr>"

lemma small_space_pages: "page_ok small_space 0x80300000" "page_ok small_space 0x80400000"
  by (simp_all add: page_in_range small_space_def KERNBASE_def)

lemma small_space_pd:
  assumes "unat i < 1024" shows "\<not> pd_present (mem small_space) 0x80400000 i"
proof -
  have "same_on {0x80400000} (\<lambda>_. 0) (mem small_space)"
    using store_same_on [OF small_space_pages(1), of 0 "{0x80400000}" "\<lambda>_. 0" "0x80301000"]
      small_space_pages by (simp add: small_space_def)
  from same_on_entry [OF this] show ?thesis
    using assms by (simp add: pd_present_def load32_zero)
qed

lemma small_space_ok: "space_ok small_space [0x80300000, 0x80301000] 0x80400000"
  using small_space_pages small_space_pd two_page_pool
  by (auto simp: space_ok_def pgdir_ok_def vm_pages_def small_space_def)

lemma small_space_pte: "pte_of (mem small_space) 0x80400000 va = 0"
  using small_space_pd [OF PDX_less] by (simp add: pte_of_alt)

theorem mappages_maps_witness:
  "\<exists>s'. mappages 0x80400000 0x1000 PGSIZE 0x500000 PTE_W [] small_space = Ret 0 [] s' \<and>
     pte_of (mem s') 0x80400000 0x1234 = 0x500000 OR PTE_W OR PTE_P"
proof -
  have r: "PGROUNDDOWN 0x1234 - 0x1000 = 0" by (simp add: PGROUNDDOWN_def PGSIZE_def)
  have p: "of_nat (Suc 0) * PGSIZE = PGSIZE" by simp
  have "\<exists>r s' fl' c. mappages 0x80400000 0x1000 PGSIZE 0x500000 PTE_W [] small_space = Ret r [] s' \<and>
      (r = 0 \<and> c = Suc 0 \<or> r = - 1 \<and> c \<le> 0 \<and> fl' = ([] :: uint list) \<and> 2 \<le> c) \<and>
      pte_of (mem s') 0x80400000 0x1234 = (if 0 < 4096 * c
        then 0x500000 OR PTE_W OR PTE_P else pte_of (mem small_space) 0x80400000 0x1234)"
    using mappages_maps [OF small_space_ok, of "0x1000" 0 "0x500000" PTE_W "[]"]
    unfolding p by (simp add: small_space_pte) (use r in force)
  then show ?thesis by auto
qed

end
