(* ===== verification/Uvm.thy ===== *)
theory Uvm
  imports Pagetables
begin

text \<open>
  The user half of an address space: the pages of a process as \<^verbatim>\<open>allocuvm\<close>,
  \<^verbatim>\<open>deallocuvm\<close> and \<^verbatim>\<open>copyuvm\<close> of \<^verbatim>\<open>vm.c\<close> build, shrink and copy them. The
  invariant \<open>user_ok\<close> says that every mapped user page has a frame of its own, which is
  neither free nor part of the page tables; \<open>ubyte\<close> is the byte a process reads at an
  address.
\<close>

section \<open>The pages of a process\<close>

definition mapped :: "32 bytes \<Rightarrow> uint \<Rightarrow> uint \<Rightarrow> bool" where
  "mapped m d va \<longleftrightarrow> pte_of m d va AND PTE_P \<noteq> 0"

text \<open>The page an address is mapped to, and the byte a process sees there.\<close>

definition frame :: "32 bytes \<Rightarrow> uint \<Rightarrow> uint \<Rightarrow> uint" where
  "frame m d va = P2V (PTE_ADDR (pte_of m d va))"

definition ubyte :: "32 bytes \<Rightarrow> uint \<Rightarrow> uint \<Rightarrow> uchar" where
  "ubyte m d va = m (frame m d va + page_off va)"

text \<open>
  The user half of an address space: each mapped page has a frame of its own, which is neither
  free nor a page table.
\<close>

definition user_ok :: "kernel \<Rightarrow> uint list \<Rightarrow> uint \<Rightarrow> bool" where
  "user_ok s fl d \<longleftrightarrow> space_ok s fl d \<and>
     (\<forall>va < KERNBASE. mapped (mem s) d va \<longrightarrow> page_ok s (frame (mem s) d va) \<and>
        frame (mem s) d va \<notin> set fl \<and> frame (mem s) d va \<notin> vm_pages (mem s) d) \<and>
     (\<forall>va < KERNBASE. \<forall>vb < KERNBASE. mapped (mem s) d va \<longrightarrow> mapped (mem s) d vb \<longrightarrow>
        frame (mem s) d va = frame (mem s) d vb \<longrightarrow> PGROUNDDOWN va = PGROUNDDOWN vb)"

lemma user_okD:
  assumes "user_ok s fl d"
  shows "space_ok s fl d"
    and "\<And>va. va < KERNBASE \<Longrightarrow> mapped (mem s) d va \<Longrightarrow> page_ok s (frame (mem s) d va)"
    and "\<And>va. va < KERNBASE \<Longrightarrow> mapped (mem s) d va \<Longrightarrow> frame (mem s) d va \<notin> set fl"
    and "\<And>va. va < KERNBASE \<Longrightarrow> mapped (mem s) d va \<Longrightarrow> frame (mem s) d va \<notin> vm_pages (mem s) d"
    and "\<And>va vb. va < KERNBASE \<Longrightarrow> vb < KERNBASE \<Longrightarrow> mapped (mem s) d va \<Longrightarrow> mapped (mem s) d vb \<Longrightarrow>
        frame (mem s) d va = frame (mem s) d vb \<Longrightarrow> PGROUNDDOWN va = PGROUNDDOWN vb"
  using assms unfolding user_ok_def by blast+

lemma PTE_P_bit: "x AND PTE_P \<noteq> 0 \<longleftrightarrow> bit x 0" for x :: uint
  by (auto simp: PTE_P_def and_one_eq mod2_eq_if bit_0)

lemma flags_small:
  assumes "unat (fg :: uint) < 4096"
  shows "unat (fg OR PTE_P) < 4096"
proof -
  have "(fg OR PTE_P) AND mask 12 = fg OR PTE_P"
  proof (rule bit_word_eqI)
    fix n assume n: "n < LENGTH(32)"
    show "bit ((fg OR PTE_P) AND mask 12) n = bit (fg OR PTE_P) n"
    proof (cases "n < 12")
      case True
      with n show ?thesis by (simp add: bit_simps)
    next
      case False
      then have "\<not> bit fg n" using not_bit_ge [of fg 12 n] assms by simp
      with False show ?thesis by (simp add: bit_simps PTE_P_def bit_1_iff)
    qed
  qed
  then show ?thesis using unat_and_mask [of "fg OR PTE_P" 12] by simp
qed

lemma frame_entry:
  assumes "page_ok s p" and "unat fg < 4096"
  shows "P2V (PTE_ADDR (V2P p OR fg OR PTE_P)) = p" and "(V2P p OR fg OR PTE_P) AND PTE_P \<noteq> 0"
    and "PTE_FLAGS (V2P p OR fg OR PTE_P) = fg OR PTE_P"
proof -
  show "P2V (PTE_ADDR (V2P p OR fg OR PTE_P)) = p" "PTE_FLAGS (V2P p OR fg OR PTE_P) = fg OR PTE_P"
    using pte_flags [OF V2P_aligned [OF assms(1)] flags_small [OF assms(2)]] by simp_all
  have "bit (V2P p OR fg OR PTE_P) 0" by (simp add: bit_or_iff PTE_P_def)
  then show "(V2P p OR fg OR PTE_P) AND PTE_P \<noteq> 0" by (simp only: PTE_P_bit simp_thms)
qed

lemma page_off_in_run: "in_run p 4096 (p + page_off va)"
  by (simp add: in_run_def unat_page_off)

lemma disjoint_page: "page_ok s p \<Longrightarrow> page_ok s q \<Longrightarrow> p \<noteq> q \<Longrightarrow> in_run p 4096 x \<Longrightarrow> \<not> in_run q 4096 x"
  using page_ok_disjoint disjoint_runs_iff by blast

text \<open>The state after a free page was taken and filled.\<close>

definition with_page :: "kernel \<Rightarrow> uint \<Rightarrow> 32 bytes \<Rightarrow> kernel" where
  "with_page s p m0 = s\<lparr>freelist := load32 (mem s) p, mem := m0\<rparr>"

lemma with_page_simps [simp]:
  "mem (with_page s p m0) = m0" "page_ok (with_page s p m0) = page_ok s"
  by (simp_all add: with_page_def)

lemma with_page_same_on:
  assumes "page_ok s p" and "\<And>x. \<not> in_run p 4096 x \<Longrightarrow> m0 x = mem s x"
    and "\<And>q. q \<in> P \<Longrightarrow> page_ok s q \<and> q \<noteq> p"
  shows "same_on P (mem s) m0"
  unfolding same_on_def using assms disjoint_page by blast

lemma with_page_space:
  assumes ok: "space_ok s (p # fl) d" and m0: "\<And>x. \<not> in_run p 4096 x \<Longrightarrow> m0 x = mem s x"
  shows "space_ok (with_page s p m0) fl d" and "vm_pages m0 d = vm_pages (mem s) d"
    and "pte_of m0 d = pte_of (mem s) d"
proof -
  note g = space_okE [OF ok]
  have p: "page_ok s p" "p \<notin> vm_pages (mem s) d" "p \<notin> set fl"
    using g kmem.pool_distinct [OF g(2)] by auto
  have sf: "same_on (set fl) (mem s) m0" and sv: "same_on (vm_pages (mem s) d) (mem s) m0"
    using p g by (auto intro!: with_page_same_on [OF p(1) m0])
  show v: "vm_pages m0 d = vm_pages (mem s) d" by (rule same_on_vm_pages [OF sv in_vm_pages(1)])
  show "pte_of m0 d = pte_of (mem s) d" using same_on_pte [OF sv] by blast
  have "kmem_pool (s\<lparr>freelist := load32 (mem s) p\<rparr>) fl"
    using g(2) kmem_ok_alloc [of s p fl] by (simp add: kmem_pool_def)
  from pool_same_on [OF this] sf have "kmem_pool (with_page s p m0) fl" by (simp add: with_page_def)
  moreover have "pgdir_ok (with_page s p m0) d"
    using same_on_pgdir_ok [OF sv in_vm_pages(1)] g(1) by (simp add: pgdir_ok_def with_page_def)
  ultimately show "space_ok (with_page s p m0) fl d"
    using g(3) v by (auto simp: space_ok_def)
qed

text \<open>
  From \<open>s\<close> to \<open>s'\<close> the address space took pages from the free list; nothing else was
  written, and the pages it had kept their contents.
\<close>

definition grown :: "uint \<Rightarrow> kernel \<Rightarrow> uint list \<Rightarrow> kernel \<Rightarrow> uint list \<Rightarrow> bool" where
  "grown d s fl s' fl' \<longleftrightarrow> user_ok s' fl' d \<and>
     (\<exists>m f. s' = s\<lparr>mem := m, freelist := f\<rparr>) \<and> (\<exists>used. fl = used @ fl') \<and>
     vm_pages (mem s') d \<subseteq> vm_pages (mem s) d \<union> set fl \<and>
     (\<forall>va. mapped (mem s') d va \<longrightarrow> frame (mem s') d va \<in> set fl \<or>
        mapped (mem s) d va \<and> frame (mem s') d va = frame (mem s) d va) \<and>
     (\<forall>x. (\<forall>p \<in> vm_pages (mem s) d \<union> set fl. \<not> in_run p 4096 x) \<longrightarrow> mem s' x = mem s x)"

lemma grown_refl: "user_ok s fl d \<Longrightarrow> grown d s fl s fl"
  unfolding grown_def by (intro conjI exI [of _ "mem s"] exI [of _ "freelist s"] exI [of _ "[]"]) auto

lemma grown_trans:
  assumes "grown d s fl s1 fl1" and "grown d s1 fl1 s2 fl2"
  shows "grown d s fl s2 fl2"
proof -
  from assms obtain u1 u2 m1 f1 m2 f2 where
    u: "fl = u1 @ fl1" "fl1 = u2 @ fl2"
    and s: "s1 = s\<lparr>mem := m1, freelist := f1\<rparr>" "s2 = s1\<lparr>mem := m2, freelist := f2\<rparr>"
    unfolding grown_def by blast
  have v: "vm_pages (mem s1) d \<union> set fl1 \<subseteq> vm_pages (mem s) d \<union> set fl"
    "vm_pages (mem s2) d \<subseteq> vm_pages (mem s) d \<union> set fl"
    using assms u unfolding grown_def by auto
  have "mem s2 x = mem s x" if "\<forall>p \<in> vm_pages (mem s) d \<union> set fl. \<not> in_run p 4096 x" for x
  proof -
    from that v(1) have "\<forall>p \<in> vm_pages (mem s1) d \<union> set fl1. \<not> in_run p 4096 x" by blast
    with assms(2) have "mem s2 x = mem s1 x" unfolding grown_def by blast
    also from assms(1) that have "\<dots> = mem s x" unfolding grown_def by blast
    finally show ?thesis .
  qed
  moreover have "frame (mem s2) d va \<in> set fl \<or> mapped (mem s) d va \<and> frame (mem s2) d va = frame (mem s) d va"
    if "mapped (mem s2) d va" for va
  proof -
    from that assms(2) have "frame (mem s2) d va \<in> set fl1 \<or>
        mapped (mem s1) d va \<and> frame (mem s2) d va = frame (mem s1) d va" unfolding grown_def by blast
    then show ?thesis
    proof
      assume "frame (mem s2) d va \<in> set fl1"
      then show ?thesis by (simp add: u)
    next
      assume m: "mapped (mem s1) d va \<and> frame (mem s2) d va = frame (mem s1) d va"
      with assms(1) show ?thesis unfolding grown_def by simp
    qed
  qed
  moreover have "fl = (u1 @ u2) @ fl2" "s2 = s\<lparr>mem := m2, freelist := f2\<rparr>" using u s by simp_all
  ultimately show ?thesis
    using assms(2) v(2) unfolding grown_def by blast
qed

lemma user_grow:
  assumes u: "user_ok s (p # fl) d" and m0: "\<And>x. \<not> in_run p 4096 x \<Longrightarrow> m0 x = mem s x"
    and e: "vm_ext d (with_page s p m0) fl s' fl'" and fg: "unat fg < 4096"
    and pte: "pte_of (mem s') d =
      (\<lambda>vb. if PGROUNDDOWN vb = a then V2P p OR fg OR PTE_P else pte_of m0 d vb)"
  shows "grown d s (p # fl) s' fl'"
    and "\<And>va. mapped (mem s') d va \<longleftrightarrow> PGROUNDDOWN va = a \<or> mapped (mem s) d va"
    and "\<And>va. PGROUNDDOWN va = a \<Longrightarrow> ubyte (mem s') d va = m0 (p + page_off va)"
    and "\<And>va. va < KERNBASE \<Longrightarrow> PGROUNDDOWN va \<noteq> a \<Longrightarrow> mapped (mem s) d va \<Longrightarrow>
      ubyte (mem s') d va = ubyte (mem s) d va"
proof -
  note ok = user_okD(1) [OF u]
  note g = space_okE [OF ok] and w = with_page_space [OF ok m0]
  have p: "page_ok s p" "p \<notin> vm_pages (mem s) d" "p \<notin> set fl"
    using g kmem.pool_distinct [OF g(2)] by auto
  note fe = frame_entry [OF p(1) fg]
  from e obtain used m f where used: "fl = used @ fl'" "vm_pages (mem s') d = vm_pages (mem s) d \<union> set used"
    and s': "s' = s\<lparr>mem := m, freelist := f\<rparr>" and out: "\<And>x. \<forall>q \<in> vm_pages (mem s') d. \<not> in_run q 4096 x \<Longrightarrow> mem s' x = m0 x"
    unfolding vm_ext_def with_page_def by (auto simp: w)
  have pk: "page_ok s' = page_ok s" by (simp add: s')
  have vk: "page_ok s q" if "q \<in> vm_pages (mem s') d \<union> set fl" for q using that used g(4,6) by auto
  have kept: "mem s' x = m0 x" if "page_ok s q" "q \<notin> vm_pages (mem s') d" "in_run q 4096 x" for q x
    using out disjoint_page that vk by blast
  have "p \<notin> vm_pages (mem s') d" using p used by auto
  note kp = kept [OF p(1) this]
  show mp: "mapped (mem s') d va \<longleftrightarrow> PGROUNDDOWN va = a \<or> mapped (mem s) d va" for va
    by (simp add: mapped_def pte w fe)
  have fr: "frame (mem s') d va = (if PGROUNDDOWN va = a then p else frame (mem s) d va)" for va
    by (simp add: frame_def pte w fe)
  show "ubyte (mem s') d va = m0 (p + page_off va)" if "PGROUNDDOWN va = a" for va
    using kp [OF page_off_in_run] that by (simp add: ubyte_def fr)
  have old: "page_ok s (frame (mem s) d va)" "frame (mem s) d va \<noteq> p" "frame (mem s) d va \<notin> set fl"
      "frame (mem s) d va \<notin> vm_pages (mem s') d"
    if "va < KERNBASE" "mapped (mem s) d va" for va
    using user_okD(2-4) [OF u that] used by auto
  show "ubyte (mem s') d va = ubyte (mem s) d va"
    if va: "va < KERNBASE" "PGROUNDDOWN va \<noteq> a" "mapped (mem s) d va" for va
  proof -
    note o = old [OF va(1,3)]
    have "mem s' (frame (mem s) d va + page_off va) = m0 (frame (mem s) d va + page_off va)"
      by (rule kept [OF o(1,4) page_off_in_run])
    also have "\<dots> = mem s (frame (mem s) d va + page_off va)"
      by (rule m0) (rule disjoint_page [OF o(1) p(1) o(2) page_off_in_run])
    finally show ?thesis using va(2) by (simp add: ubyte_def fr)
  qed
  have fl': "q \<notin> set fl'" if "q \<notin> set fl" for q using that used by simp
  have "page_ok s' (frame (mem s') d va) \<and> frame (mem s') d va \<notin> set fl' \<and>
      frame (mem s') d va \<notin> vm_pages (mem s') d" if "va < KERNBASE" "mapped (mem s') d va" for va
    using that old [OF that(1)] p fl' \<open>p \<notin> vm_pages (mem s') d\<close>
    by (cases "PGROUNDDOWN va = a") (simp_all add: fr mp pk)
  moreover have "PGROUNDDOWN va = PGROUNDDOWN vb"
    if "va < KERNBASE" "vb < KERNBASE" "mapped (mem s') d va" "mapped (mem s') d vb"
      "frame (mem s') d va = frame (mem s') d vb" for va vb
    using that old(2) user_okD(5) [OF u that(1,2)] by (simp add: fr mp split: if_splits) metis+
  ultimately have "user_ok s' fl' d"
    unfolding user_ok_def using vm_ext_space [OF e] by blast
  moreover have "mem s' x = mem s x" if "\<forall>q \<in> vm_pages (mem s) d \<union> set (p # fl). \<not> in_run q 4096 x" for x
  proof -
    from that have "mem s' x = m0 x" by (intro out) (auto simp: used)
    with that m0 show ?thesis by simp
  qed
  ultimately show "grown d s (p # fl) s' fl'"
    unfolding grown_def using used mp fr
    by (intro conjI exI [of _ m] exI [of _ f] exI [of _ "p # used"] s') auto
qed

definition in_pages :: "uint \<Rightarrow> nat \<Rightarrow> uint \<Rightarrow> bool" where
  "in_pages a k va \<longleftrightarrow> unat (PGROUNDDOWN va - a) < 4096 * k"

lemma in_pages_Suc:
  assumes "unat a mod 4096 = 0" and "4096 * k + 4096 \<le> 4294967296"
  shows "in_pages a (Suc k) va \<longleftrightarrow> PGROUNDDOWN va = a \<or> in_pages (a + PGSIZE) k va"
    and "PGROUNDDOWN va = a \<Longrightarrow> \<not> in_pages (a + PGSIZE) k va"
proof -
  let ?y = "PGROUNDDOWN va - a"
  have y: "unat ?y mod 4096 = 0" by (rule aligned_diff [OF PGROUNDDOWN_aligned assms(1)])
  have e: "PGROUNDDOWN va - (a + PGSIZE) = ?y - 4096" by (simp add: PGSIZE_def)
  show "in_pages a (Suc k) va \<longleftrightarrow> PGROUNDDOWN va = a \<or> in_pages (a + PGSIZE) k va"
  proof (cases "PGROUNDDOWN va = a")
    case True
    then show ?thesis by (simp add: in_pages_def)
  next
    case False
    then have "unat ?y \<noteq> 0" by (simp add: unat_eq_zero)
    then have "4096 \<le> unat ?y" using y by (metis mod_less not_less)
    moreover from this have "unat (?y - 4096) = unat ?y - 4096" by (simp add: unat_sub word_le_nat_alt)
    ultimately show ?thesis using False by (auto simp: in_pages_def e)
  qed
  show "\<not> in_pages (a + PGSIZE) k va" if "PGROUNDDOWN va = a"
  proof -
    from that have "unat (?y - 4096) = 4294963200" by simp
    then show ?thesis using assms(2) by (simp add: in_pages_def e)
  qed
qed

lemma in_pages_0 [simp]: "\<not> in_pages a 0 va"
  by (simp add: in_pages_def)

lemma in_pages_iff:
  assumes "unat a mod 4096 = 0" and "unat a + 4096 * k \<le> 4294967296"
  shows "in_pages a k va \<longleftrightarrow> unat a \<le> unat va \<and> unat va < unat a + 4096 * k"
proof -
  from assms(1) obtain q where q: "unat a = 4096 * q" by (auto simp: mod_eq_0_iff_dvd elim: dvdE)
  have p: "unat (PGROUNDDOWN va) = 4096 * (unat va div 4096)" by (simp add: unat_PGROUNDDOWN)
  show ?thesis
  proof (cases "q \<le> unat va div 4096")
    case True
    then have "unat (PGROUNDDOWN va - a) = 4096 * (unat va div 4096) - 4096 * q"
      by (simp add: unat_sub word_le_nat_alt p q)
    then have "in_pages a k va \<longleftrightarrow> unat va div 4096 < q + k"
      using True by (auto simp: in_pages_def)
    also have "\<dots> \<longleftrightarrow> unat va < 4096 * (q + k)" by (simp add: div_less_iff_less_mult mult.commute)
    finally show ?thesis using True by (simp add: q) linarith
  next
    case False
    then have "unat (PGROUNDDOWN va) < unat a" by (simp add: p q)
    then have "unat (PGROUNDDOWN va - a) = unat (PGROUNDDOWN va) + 4294967296 - unat a"
      using unat_less_2p32 [of a] by (subst unat_sub_if') (simp add: word_size)
    with False assms(2) show ?thesis by (simp add: in_pages_def q) linarith
  qed
qed

lemma mappages_one:
  assumes "space_ok s fl d" and "fl \<noteq> []" and "unat a mod 4096 = 0" and "\<not> mapped (mem s) d a"
  shows "\<exists>s' fl'. mappages d a PGSIZE pa fg env s = Ret 0 env s' \<and> vm_ext d s fl s' fl' \<and>
    length fl \<le> Suc (length fl') \<and>
    pte_of (mem s') d = (\<lambda>vb. if PGROUNDDOWN vb = a then pa OR fg OR PTE_P else pte_of (mem s) d vb)"
proof -
  from assms(3) obtain q where "unat a = 4096 * q" by (auto simp: mod_eq_0_iff_dvd elim: dvdE)
  then have "unat a + 4096 \<le> 4294967296" using unat_less_2p32 [of a] by simp
  moreover have "length fl > 0" using assms(2) by simp
  ultimately show ?thesis
    using mappages_spec [OF assms(1,3), of 0 pa fg env] assms(4) map_ptes_1 [OF assms(3), of pa fg]
    by (auto simp: mapped_def fun_eq_iff)
qed

text \<open>A page is taken from the free list, filled and mapped.\<close>

lemma user_page_added:
  assumes u: "user_ok s (p # fl) d" and "fl \<noteq> []" and m0: "\<And>x. \<not> in_run p 4096 x \<Longrightarrow> m0 x = mem s x"
    and a: "unat a mod 4096 = 0" and "\<not> mapped (mem s) d a" and fg: "unat fg < 4096"
  shows "\<exists>s' fl'. mappages d a PGSIZE (V2P p) fg env (with_page s p m0) = Ret 0 env s' \<and>
    grown d s (p # fl) s' fl' \<and> length fl \<le> Suc (length fl') \<and>
    (\<forall>va. pte_of (mem s') d va = (if PGROUNDDOWN va = a then V2P p OR fg OR PTE_P else pte_of (mem s) d va)) \<and>
    (\<forall>va. PGROUNDDOWN va = a \<longrightarrow> PTE_FLAGS (pte_of (mem s') d va) = fg OR PTE_P \<and>
       ubyte (mem s') d va = m0 (p + page_off va)) \<and>
    (\<forall>va < KERNBASE. PGROUNDDOWN va \<noteq> a \<longrightarrow> mapped (mem s) d va \<longrightarrow> ubyte (mem s') d va = ubyte (mem s) d va)"
proof -
  note w = with_page_space [OF user_okD(1) [OF u] m0]
  have "\<not> mapped (mem (with_page s p m0)) d a" using assms(5) by (simp add: mapped_def w)
  from mappages_one [OF w(1) assms(2) a this, of "V2P p" fg env, unfolded with_page_simps] obtain s' fl' where
    e: "mappages d a PGSIZE (V2P p) fg env (with_page s p m0) = Ret 0 env s'"
       "vm_ext d (with_page s p m0) fl s' fl'" "length fl \<le> Suc (length fl')"
       "pte_of (mem s') d = (\<lambda>vb. if PGROUNDDOWN vb = a then V2P p OR fg OR PTE_P else pte_of m0 d vb)"
    by blast
  have "page_ok s p" using space_okE(4) [OF user_okD(1) [OF u]] by simp
  note fe = frame_entry [OF this fg] and gr = user_grow [OF u m0 e(2) fg e(4)]
  show ?thesis
    by (intro exI [of _ s'] exI [of _ fl'] conjI e gr(1))
       (simp_all add: e(3) fe gr(3,4), simp_all add: e(4) fe w)
qed

section \<open>Adding pages\<close>

text \<open>
  The \<open>k\<close> pages from \<open>a\<close> are now mapped with the flags \<open>F\<close> and hold the bytes \<open>B\<close>; every other
  address is mapped as before and reads as before.
\<close>

definition user_map :: "uint \<Rightarrow> uint \<Rightarrow> nat \<Rightarrow> (uint \<Rightarrow> uint) \<Rightarrow> (uint \<Rightarrow> uchar) \<Rightarrow> 32 bytes \<Rightarrow> 32 bytes \<Rightarrow> bool" where
  "user_map d a k F B m m' \<longleftrightarrow> (\<forall>va. if in_pages a k va
     then PTE_FLAGS (pte_of m' d va) = F va \<and> ubyte m' d va = B va
     else pte_of m' d va = pte_of m d va \<and> (va < KERNBASE \<longrightarrow> mapped m d va \<longrightarrow> ubyte m' d va = ubyte m d va))"

lemma user_map_in: "user_map d a k F B m m' \<Longrightarrow> in_pages a k va \<Longrightarrow>
    PTE_FLAGS (pte_of m' d va) = F va \<and> ubyte m' d va = B va"
  and user_map_out: "user_map d a k F B m m' \<Longrightarrow> \<not> in_pages a k va \<Longrightarrow>
    pte_of m' d va = pte_of m d va \<and> (va < KERNBASE \<longrightarrow> mapped m d va \<longrightarrow> ubyte m' d va = ubyte m d va)"
  unfolding user_map_def by presburger+

lemma mapped_flags: "mapped m d va \<longleftrightarrow> PTE_FLAGS (pte_of m d va) AND PTE_P \<noteq> 0"
  unfolding mapped_def PTE_P_bit PTE_FLAGS_def hex_masks by (simp add: bit_simps)

lemma in_page_below:
  assumes "PGROUNDDOWN va = a" and "a < KERNBASE"
  shows "va < KERNBASE"
proof -
  have "unat va div 4096 * 4096 < 2147483648"
    using assms by (simp add: word_less_nat_alt KERNBASE_def flip: unat_PGROUNDDOWN)
  then have "unat va div 4096 < 524288" by linarith
  then have "unat va < 2147483648" by (simp add: div_less_iff_less_mult)
  then show ?thesis by (simp add: word_less_nat_alt KERNBASE_def)
qed

lemma in_pages_1: "unat a mod 4096 = 0 \<Longrightarrow> in_pages a (Suc 0) va \<longleftrightarrow> PGROUNDDOWN va = a"
  using in_pages_Suc(1) [of a 0 va] by simp

lemma user_map_0: "user_map d a 0 F B m m"
  by (simp add: user_map_def)

lemma user_map_Suc:
  assumes 1: "user_map d a (Suc 0) F B m m1" and 2: "user_map d (a + PGSIZE) k F B m1 m2"
    and a: "unat a mod 4096 = 0" "4096 * k + 4096 \<le> 4294967296" "a < KERNBASE"
    and F: "\<And>va. PGROUNDDOWN va = a \<Longrightarrow> F va AND PTE_P \<noteq> 0"
  shows "user_map d a (Suc k) F B m m2"
proof -
  note ip = in_pages_Suc [OF a(1,2)] in_pages_1 [OF a(1)]
  have "PTE_FLAGS (pte_of m2 d va) = F va \<and> ubyte m2 d va = B va" if in_a: "in_pages a (Suc k) va" for va
  proof (cases "PGROUNDDOWN va = a")
    case True
    have "PTE_FLAGS (pte_of m1 d va) = F va \<and> ubyte m1 d va = B va"
      using user_map_in [OF 1] True ip(3) by blast
    moreover from this F [OF True] have "mapped m1 d va" by (simp add: mapped_flags)
    ultimately show ?thesis
      using user_map_out [OF 2 ip(2) [OF True]] in_page_below [OF True a(3)] by simp
  next
    case False
    then show ?thesis using in_a user_map_in [OF 2] ip(1) by blast
  qed
  moreover have "pte_of m2 d va = pte_of m d va \<and> (va < KERNBASE \<longrightarrow> mapped m d va \<longrightarrow> ubyte m2 d va = ubyte m d va)"
    if out: "\<not> in_pages a (Suc k) va" for va
  proof -
    from out ip have n: "\<not> in_pages a (Suc 0) va" "\<not> in_pages (a + PGSIZE) k va" by blast+
    show ?thesis using user_map_out [OF 1 n(1)] user_map_out [OF 2 n(2)] by (simp add: mapped_def)
  qed
  ultimately show ?thesis unfolding user_map_def by presburger
qed

lemma user_map_mapped: "user_map d a k F B m m' \<Longrightarrow> \<not> in_pages a k va \<Longrightarrow> mapped m' d va = mapped m d va"
  using user_map_out [of d a k F B m m' va] by (simp add: mapped_def)

lemma user_page_map:
  assumes u: "user_ok s (p # fl) d" and "fl \<noteq> []" and m0: "\<And>x. \<not> in_run p 4096 x \<Longrightarrow> m0 x = mem s x"
    and a: "unat a mod 4096 = 0" and "\<not> mapped (mem s) d a" and fg: "unat fg < 4096"
    and F: "\<And>va. PGROUNDDOWN va = a \<Longrightarrow> F va = fg OR PTE_P"
    and B: "\<And>va. PGROUNDDOWN va = a \<Longrightarrow> B va = m0 (p + page_off va)"
  shows "\<exists>s' fl'. mappages d a PGSIZE (V2P p) fg env (with_page s p m0) = Ret 0 env s' \<and>
    grown d s (p # fl) s' fl' \<and> length fl \<le> Suc (length fl') \<and> user_map d a (Suc 0) F B (mem s) (mem s')"
proof -
  from user_page_added [OF assms(1-6), of env] obtain s' fl' where
    e: "mappages d a PGSIZE (V2P p) fg env (with_page s p m0) = Ret 0 env s'"
       "grown d s (p # fl) s' fl'" "length fl \<le> Suc (length fl')"
    and pt: "\<And>va. pte_of (mem s') d va = (if PGROUNDDOWN va = a then V2P p OR fg OR PTE_P else pte_of (mem s) d va)"
    and new: "\<And>va. PGROUNDDOWN va = a \<Longrightarrow> PTE_FLAGS (pte_of (mem s') d va) = fg OR PTE_P \<and>
       ubyte (mem s') d va = m0 (p + page_off va)"
    and old: "\<And>va. va < KERNBASE \<Longrightarrow> PGROUNDDOWN va \<noteq> a \<Longrightarrow> mapped (mem s) d va \<Longrightarrow>
       ubyte (mem s') d va = ubyte (mem s) d va"
    by blast
  have "user_map d a (Suc 0) F B (mem s) (mem s')"
    unfolding user_map_def in_pages_1 [OF a] using F B pt new old by simp
  with e show ?thesis by blast
qed

lemma kalloc_take:
  assumes "kmem_pool s (p # fl)"
  shows "kalloc env s = Ret p env (s\<lparr>freelist := load32 (mem s) p\<rparr>)" and "p \<noteq> 0"
  using assms kmem_ok_alloc [of s p fl] by (auto simp: kmem_pool_def exec)

definition alloc_flags :: uint where
  "alloc_flags = PTE_W OR PTE_U"

lemma allocuvm_turn:
  assumes u: "user_ok s fl d" and len: "2 \<le> length fl" and a: "unat a mod 4096 = 0"
    and un: "\<not> mapped (mem s) d a" and lt: "a < newsz"
  shows "\<exists>s' fl'. allocuvm_from (Suc n) d a oldsz newsz env s = allocuvm_from n d (a + PGSIZE) oldsz newsz env s' \<and>
    grown d s fl s' fl' \<and> length fl \<le> length fl' + 2 \<and>
    user_map d a (Suc 0) (\<lambda>_. alloc_flags OR PTE_P) (\<lambda>_. 0) (mem s) (mem s')"
proof -
  from len obtain p q fl1 where fl: "fl = p # q # fl1" by (cases fl; cases "tl fl") auto
  note u = u [unfolded fl]
  have pool: "kmem_pool s (p # q # fl1)" using user_okD(1) [OF u] by (rule space_ok_pool)
  note ka = kalloc_take [OF pool]
  have fg: "unat alloc_flags < 4096" by (simp add: alloc_flags_def PTE_W_def PTE_U_def)
  from user_page_map [OF u _ _ a un fg, of "zero_page (mem s) p" "\<lambda>_. alloc_flags OR PTE_P" "\<lambda>_. 0" env]
  obtain s' fl' where e: "mappages d a PGSIZE (V2P p) alloc_flags env (with_page s p (zero_page (mem s) p)) = Ret 0 env s'"
    "grown d s (p # q # fl1) s' fl'" "length (q # fl1) \<le> Suc (length fl')"
    "user_map d a (Suc 0) (\<lambda>_. alloc_flags OR PTE_P) (\<lambda>_. 0) (mem s) (mem s')"
    using zero_page_in [OF page_off_in_run] by (auto simp: zero_page_def write_bytes_outside)
  have "allocuvm_from (Suc n) d a oldsz newsz env s = allocuvm_from n d (a + PGSIZE) oldsz newsz env s'"
    using e(1) ka lt by (simp add: exec mfill_page with_page_def alloc_flags_def)
  with e show ?thesis unfolding fl by (intro exI [of _ s'] exI [of _ fl']) simp
qed

lemma allocuvm_from_spec:
  assumes "user_ok s fl d" and "2 * k \<le> length fl" and "unat a mod 4096 = 0"
    and "unat a + 4096 * k \<le> 2147483648" and "\<And>va. in_pages a k va \<Longrightarrow> \<not> mapped (mem s) d va"
    and "unat newsz \<le> unat a + 4096 * k" and "0 < k \<Longrightarrow> unat a + 4096 * (k - 1) < unat newsz" and "k \<le> n"
  shows "\<exists>s' fl'. allocuvm_from n d a oldsz newsz env s = Ret newsz env s' \<and> grown d s fl s' fl' \<and>
    user_map d a k (\<lambda>_. alloc_flags OR PTE_P) (\<lambda>_. 0) (mem s) (mem s')"
  using assms
proof (induction k arbitrary: s fl a n)
  case 0
  then have "\<not> a < newsz" by (simp add: word_less_nat_alt)
  then have "allocuvm_from n d a oldsz newsz env s = Ret newsz env s" by (cases n) simp_all
  then show ?case using grown_refl [OF 0(1)] user_map_0 by blast
next
  case (Suc k)
  from Suc.prems(8) obtain n' where n: "n = Suc n'" "k \<le> n'" by (cases n) auto
  have b: "4096 * k + 4096 \<le> 4294967296" "4096 * k + 4096 \<le> 2147483648" using Suc.prems(4) by simp_all
  note ip = in_pages_Suc [OF Suc.prems(3) b(1)]
  have "PGROUNDDOWN a = a" by (rule aligned_round [OF Suc.prems(3)])
  then have una: "\<not> mapped (mem s) d a" using Suc.prems(5) [of a] ip(1) [of a] by simp
  have "a < newsz" using Suc.prems(7) by (simp add: word_less_nat_alt)
  from allocuvm_turn [OF Suc.prems(1) _ Suc.prems(3) una this, of n' oldsz env] Suc.prems(2)
  obtain s1 fl1 where 1: "allocuvm_from n d a oldsz newsz env s = allocuvm_from n' d (a + PGSIZE) oldsz newsz env s1"
    "grown d s fl s1 fl1" "length fl \<le> length fl1 + 2"
    "user_map d a (Suc 0) (\<lambda>_. alloc_flags OR PTE_P) (\<lambda>_. 0) (mem s) (mem s1)"
    unfolding n by auto
  have a1: "unat (a + PGSIZE) = unat a + 4096"
    using Suc.prems(4) by (simp add: unat_word_ariths PGSIZE_def)
  have "\<not> mapped (mem s1) d va" if "in_pages (a + PGSIZE) k va" for va
    using that ip [of va] Suc.prems(5) [of va] user_map_mapped [OF 1(4), of va] in_pages_1 [OF Suc.prems(3), of va]
    by blast
  moreover have "user_ok s1 fl1 d" using 1(2) by (simp add: grown_def)
  moreover have "0 < k \<Longrightarrow> unat (a + PGSIZE) + 4096 * (k - 1) < unat newsz"
    using Suc.prems(7) a1 by (cases k) simp_all
  ultimately obtain s' fl' where 2: "allocuvm_from n' d (a + PGSIZE) oldsz newsz env s1 = Ret newsz env s'"
    "grown d s1 fl1 s' fl'" "user_map d (a + PGSIZE) k (\<lambda>_. alloc_flags OR PTE_P) (\<lambda>_. 0) (mem s1) (mem s')"
    using Suc.IH [of s1 fl1 "a + PGSIZE" n'] Suc.prems 1(3) aligned_plus [OF Suc.prems(3)] a1 n(2) by auto
  have "a < KERNBASE" using Suc.prems(4) by (simp add: word_less_nat_alt KERNBASE_def)
  from user_map_Suc [OF 1(4) 2(3) Suc.prems(3) b(1) this]
  have "user_map d a (Suc k) (\<lambda>_. alloc_flags OR PTE_P) (\<lambda>_. 0) (mem s) (mem s')"
    by (simp add: alloc_flags_def PTE_P_def PTE_W_def PTE_U_def)
  with 1(1) 2(1) grown_trans [OF 1(2) 2(2)] show ?case by auto
qed

section \<open>Removing pages\<close>

text \<open>
  The mapped pages of the addresses \<open>R\<close> went back to the free list and are no longer mapped;
  every other address is mapped as before and reads as before.
\<close>

definition shrunk :: "uint \<Rightarrow> (uint \<Rightarrow> bool) \<Rightarrow> kernel \<Rightarrow> uint list \<Rightarrow> kernel \<Rightarrow> uint list \<Rightarrow> bool" where
  "shrunk d R s fl s' fl' \<longleftrightarrow> user_ok s' fl' d \<and> (\<exists>m f. s' = s\<lparr>mem := m, freelist := f\<rparr>) \<and>
     set fl' = set fl \<union> frame (mem s) d ` {va. R va \<and> mapped (mem s) d va} \<and>
     (\<forall>va. pte_of (mem s') d va = (if R va \<and> mapped (mem s) d va then 0 else pte_of (mem s) d va)) \<and>
     (\<forall>va < KERNBASE. mapped (mem s') d va \<longrightarrow> ubyte (mem s') d va = ubyte (mem s) d va)"

lemma shrunk_idle:
  assumes "user_ok s fl d" and "\<And>va. R va \<Longrightarrow> \<not> mapped (mem s) d va"
  shows "shrunk d R s fl s fl"
  unfolding shrunk_def using assms by (intro conjI exI [of _ "mem s"] exI [of _ "freelist s"]) auto

lemma shrunkD:
  assumes "shrunk d R s fl s' fl'"
  shows "user_ok s' fl' d" and "\<exists>m f. s' = s\<lparr>mem := m, freelist := f\<rparr>"
    and "set fl' = set fl \<union> frame (mem s) d ` {va. R va \<and> mapped (mem s) d va}"
    and "pte_of (mem s') d va = (if R va \<and> mapped (mem s) d va then 0 else pte_of (mem s) d va)"
    and "va < KERNBASE \<Longrightarrow> mapped (mem s') d va \<Longrightarrow> ubyte (mem s') d va = ubyte (mem s) d va"
  using assms unfolding shrunk_def by simp_all

lemma shrunk_mapped:
  assumes "shrunk d R s fl s' fl'"
  shows "mapped (mem s') d va \<longleftrightarrow> mapped (mem s) d va \<and> \<not> R va"
    and "mapped (mem s') d va \<Longrightarrow> frame (mem s') d va = frame (mem s) d va"
proof -
  note p = shrunkD(4) [OF assms, of va]
  show m: "mapped (mem s') d va \<longleftrightarrow> mapped (mem s) d va \<and> \<not> R va"
    unfolding mapped_def [of "mem s'"] p by (auto simp: mapped_def)
  show "mapped (mem s') d va \<Longrightarrow> frame (mem s') d va = frame (mem s) d va"
    using m by (simp add: frame_def p)
qed

lemma shrunk_trans:
  assumes 1: "shrunk d R s fl s1 fl1" and 2: "shrunk d Q s1 fl1 s2 fl2"
  shows "shrunk d (\<lambda>va. R va \<or> Q va) s fl s2 fl2"
proof -
  obtain m1 f1 m2 f2 where "s1 = s\<lparr>mem := m1, freelist := f1\<rparr>" "s2 = s1\<lparr>mem := m2, freelist := f2\<rparr>"
    using shrunkD(2) [OF 1] shrunkD(2) [OF 2] by blast
  then have "s2 = s\<lparr>mem := m2, freelist := f2\<rparr>" by simp
  then have s2: "\<exists>m f. s2 = s\<lparr>mem := m, freelist := f\<rparr>" by blast
  note m1 = shrunk_mapped [OF 1] and m2 = shrunk_mapped [OF 2]
  have "frame (mem s1) d ` {va. Q va \<and> mapped (mem s1) d va} = frame (mem s) d ` {va. Q va \<and> mapped (mem s1) d va}"
    by (rule image_cong) (auto simp: m1(2))
  then have "set fl2 = set fl \<union> frame (mem s) d ` ({va. R va \<and> mapped (mem s) d va} \<union> {va. Q va \<and> mapped (mem s1) d va})"
    unfolding shrunkD(3) [OF 2] shrunkD(3) [OF 1] by (simp only: image_Un Un_assoc)
  also have "{va. R va \<and> mapped (mem s) d va} \<union> {va. Q va \<and> mapped (mem s1) d va} = {va. (R va \<or> Q va) \<and> mapped (mem s) d va}"
    by (auto simp: m1(1))
  finally have fl2: "set fl2 = set fl \<union> frame (mem s) d ` {va. (R va \<or> Q va) \<and> mapped (mem s) d va}" .
  have "pte_of (mem s2) d va = (if (R va \<or> Q va) \<and> mapped (mem s) d va then 0 else pte_of (mem s) d va)" for va
    using m1(1) [of va] unfolding shrunkD(4) [OF 2] shrunkD(4) [OF 1] by auto
  moreover have "ubyte (mem s2) d va = ubyte (mem s) d va" if "va < KERNBASE" "mapped (mem s2) d va" for va
    using shrunkD(5) [OF 2 that] shrunkD(5) [OF 1 that(1)] that m2(1) by simp
  ultimately show ?thesis unfolding shrunk_def using fl2 s2 shrunkD(1) [OF 2] by simp
qed

lemma pte_of_zero_unmapped: "mapped m d va \<longleftrightarrow> bit (pte_of m d va) 0"
  unfolding mapped_def PTE_P_bit ..

lemma PGROUNDDOWN_idem [simp]: "PGROUNDDOWN (PGROUNDDOWN va) = PGROUNDDOWN va"
  by (rule aligned_round [OF PGROUNDDOWN_aligned])

lemma pte_of_round: "PGROUNDDOWN va = PGROUNDDOWN vb \<Longrightarrow> pte_of m d va = pte_of m d vb"
  using same_page_iff [of va vb] by (simp add: pte_of_alt)

lemma mapped_present: "mapped m d va \<Longrightarrow> pd_present m d (PDX va)"
  by (auto simp: mapped_def pte_of_alt split: if_splits)

text \<open>One page: it is freed, then its entry is cleared.\<close>

lemma page_freed_space:
  assumes u: "user_ok s fl d" and a: "a < KERNBASE" "mapped (mem s) d a"
    and p_def: "p = frame (mem s) d a" and m1_def: "m1 = kfree_mem (mem s) p (freelist s)"
    and s1_def: "s1 = s\<lparr>mem := m1, freelist := p\<rparr>"
  shows "space_ok s1 (p # fl) d" and "vm_pages m1 d = vm_pages (mem s) d" and "pte_of m1 d = pte_of (mem s) d"
    and "pd_present m1 d (PDX a)" and "\<And>x. \<not> in_run p 4096 x \<Longrightarrow> m1 x = mem s x"
    and "pd_table m1 d (PDX a) = pd_table (mem s) d (PDX a)"
proof -
  note g = space_okE [OF user_okD(1) [OF u]]
  note p = user_okD(2-4) [OF u a, folded p_def]
  show out: "m1 x = mem s x" if "\<not> in_run p 4096 x" for x
    using that unfolding m1_def by (rule kfree_mem_outside)
  have sv: "same_on (vm_pages (mem s) d) (mem s) m1"
    using p g by (auto intro!: with_page_same_on [OF p(1) out])
  show v1: "vm_pages m1 d = vm_pages (mem s) d" by (rule same_on_vm_pages [OF sv in_vm_pages(1)])
  show "pte_of m1 d = pte_of (mem s) d" using same_on_pte [OF sv] by blast
  show "pd_present m1 d (PDX a)" "pd_table m1 d (PDX a) = pd_table (mem s) d (PDX a)"
    using mapped_present [OF a(2)] same_on_pd [OF sv in_vm_pages(1) PDX_less] by simp_all
  have "kmem_pool s1 (p # fl)"
    using kmem_ok_free [of s fl p] g(2) p by (simp add: kmem_pool_def s1_def m1_def)
  moreover have "pgdir_ok s1 d"
    using same_on_pgdir_ok [OF sv in_vm_pages(1)] g(1) by (simp add: pgdir_ok_def s1_def)
  ultimately show "space_ok s1 (p # fl) d"
    using g(3) v1 p by (auto simp: space_ok_def s1_def)
qed

lemma page_freed:
  assumes u: "user_ok s fl d" and a: "a < KERNBASE" "mapped (mem s) d a"
    and p_def: "p = frame (mem s) d a" and m1_def: "m1 = kfree_mem (mem s) p (freelist s)"
    and s': "s' = s\<lparr>freelist := p, mem := pte_store m1 d a 0\<rparr>"
  shows "shrunk d (\<lambda>va. PGROUNDDOWN va = PGROUNDDOWN a) s fl s' (p # fl)" (is "shrunk d ?R s fl s' _")
proof -
  define s1 where s1_def: "s1 = s\<lparr>mem := m1, freelist := p\<rparr>"
  have s1: "mem s1 = m1" "s' = s1\<lparr>mem := pte_store m1 d a 0\<rparr>" "mem s' = pte_store m1 d a 0" "page_ok s' = page_ok s"
    by (simp_all add: s1_def s')
  note f = page_freed_space [OF u a p_def m1_def s1_def]
  note g = space_okE [OF user_okD(1) [OF u]] and p = user_okD(2-4) [OF u a, folded p_def]
  have e: "vm_ext d s1 (p # fl) s' (p # fl)"
    using pte_store_ext [OF f(1), unfolded s1(1), OF f(4), of 0] unfolding s1(2) .
  have pte: "pte_of (mem s') d vb = (if PGROUNDDOWN vb = PGROUNDDOWN a then 0 else pte_of (mem s) d vb)" for vb
    using pte_of_store [OF space_okE(1) [OF f(1)], unfolded s1(1), OF f(4), of 0 vb] unfolding s1(3) f(3) .
  have v': "vm_pages (mem s') d = vm_pages (mem s) d"
    using pte_store_pd(2) [OF space_okE(1) [OF f(1)], unfolded s1(1), OF f(4), of 0] unfolding s1(3) f(2) .
  have mp: "mapped (mem s') d vb \<longleftrightarrow> mapped (mem s) d vb \<and> PGROUNDDOWN vb \<noteq> PGROUNDDOWN a" for vb
    by (simp add: mapped_def pte)
  have fr: "frame (mem s') d vb = frame (mem s) d vb" if "mapped (mem s') d vb" for vb
    using that mp by (simp add: frame_def pte)
  have ne: "frame (mem s) d vb \<noteq> p" if "vb < KERNBASE" "mapped (mem s') d vb" for vb
    using user_okD(5) [OF u that(1) a(1) _ a(2)] that mp p_def by blast
  have bt: "ubyte (mem s') d vb = ubyte (mem s) d vb" if vb: "vb < KERNBASE" "mapped (mem s') d vb" for vb
  proof -
    have o: "mapped (mem s) d vb" using mp vb by blast
    let ?x = "frame (mem s) d vb + page_off vb"
    note q = user_okD(2-4) [OF u vb(1) o]
    have "\<forall>r \<in> vm_pages (mem s') d. \<not> in_run r 4096 ?x"
      unfolding v' using q g(6) disjoint_page page_off_in_run by blast
    then have "mem s' ?x = m1 ?x" using e unfolding vm_ext_def s1(1) by blast
    also have "\<dots> = mem s ?x"
      by (rule f(5)) (rule disjoint_page [OF q(1) p(1) ne [OF vb] page_off_in_run])
    finally show ?thesis using fr [OF vb(2)] by (simp only: ubyte_def)
  qed
  have "page_ok s' (frame (mem s') d va) \<and> frame (mem s') d va \<notin> set (p # fl) \<and>
      frame (mem s') d va \<notin> vm_pages (mem s') d" if "va < KERNBASE" "mapped (mem s') d va" for va
    unfolding fr [OF that(2)] v' s1(4) using user_okD(2-4) [OF u that(1)] ne [OF that] mp that(2) by simp
  moreover have "PGROUNDDOWN va = PGROUNDDOWN vb"
    if "va < KERNBASE" "vb < KERNBASE" "mapped (mem s') d va" "mapped (mem s') d vb"
      "frame (mem s') d va = frame (mem s') d vb" for va vb
    using user_okD(5) [OF u that(1,2)] that(3,4) mp that(5) [unfolded fr [OF that(3)] fr [OF that(4)]] by blast
  ultimately have uo: "user_ok s' (p # fl) d"
    unfolding user_ok_def using vm_ext_space [OF e] by blast
  have pa: "mapped (mem s) d va \<and> frame (mem s) d va = p" if "PGROUNDDOWN va = PGROUNDDOWN a" for va
    using a(2) pte_of_round [OF that] by (simp add: mapped_def frame_def p_def)
  have "frame (mem s) d ` {va. ?R va \<and> mapped (mem s) d va} = {p}" using pa by auto
  moreover have "pte_of (mem s') d va = (if ?R va \<and> mapped (mem s) d va then 0 else pte_of (mem s) d va)" for va
    unfolding pte using pa [of va] by auto
  moreover have "\<exists>m f. s' = s\<lparr>mem := m, freelist := f\<rparr>"
    unfolding s' by (intro exI [of _ "pte_store m1 d a 0"] exI [of _ p]) simp
  ultimately show ?thesis
    unfolding shrunk_def using uo bt by simp
qed

text \<open>The pages of the addresses from \<open>lo\<close> up to, but not including, \<open>hi\<close>.\<close>

definition page_range :: "uint \<Rightarrow> uint \<Rightarrow> uint \<Rightarrow> bool" where
  "page_range lo hi va \<longleftrightarrow> lo \<le> va \<and> PGROUNDDOWN va < hi"

lemma page_range_split:
  assumes "unat a mod 4096 = 0" and "a < hi" and "unat hi \<le> 2147483648"
  shows "page_range a hi va \<longleftrightarrow> PGROUNDDOWN va = a \<or> page_range (a + PGSIZE) hi va"
proof -
  from assms(1) obtain q where q: "unat a = 4096 * q" by (auto simp: mod_eq_0_iff_dvd elim: dvdE)
  have a1: "unat (a + PGSIZE) = unat a + 4096"
    using assms(2,3) by (simp add: unat_word_ariths PGSIZE_def word_less_nat_alt)
  have r: "PGROUNDDOWN va = a \<longleftrightarrow> unat va div 4096 = q"
    by (simp add: word_unat_eq_iff unat_PGROUNDDOWN q)
  show ?thesis
    unfolding page_range_def word_le_nat_alt word_less_nat_alt unat_PGROUNDDOWN r a1 q
    using assms(2) [unfolded word_less_nat_alt q] by auto
qed

lemma page_range_jump:
  assumes "a < hi" and "unat hi \<le> 2147483648"
  shows "unat (PGADDR (PDX a + 1) 0 0 - PGSIZE + PGSIZE) = (unat (PDX a) + 1) * 4194304"
proof -
  have "unat (PDX a) < 512" using assms by (simp add: unat_PDX word_less_nat_alt div_less_iff_less_mult)
  then have "unat (PDX a + 1) = unat (PDX a) + 1" by (simp add: unat_word_ariths)
  moreover have "PGADDR (PDX a + 1) 0 0 - PGSIZE + PGSIZE = PGADDR (PDX a + 1) 0 0" by simp
  ultimately show ?thesis
    using unat_PGADDR [of "PDX a + 1" 0 0] \<open>unat (PDX a) < 512\<close> by simp
qed

lemma page_range_empty:
  assumes "unat a mod 4096 = 0" and "\<not> a < hi"
  shows "\<not> page_range a hi va"
proof -
  from assms(1) obtain q where q: "unat a = 4096 * q" by (auto simp: mod_eq_0_iff_dvd elim: dvdE)
  have "q \<le> unat va div 4096" if "4096 * q \<le> unat va"
    using that by (simp add: less_eq_div_iff_mult_less_eq mult.commute)
  then show ?thesis
    using assms(2) unfolding page_range_def word_le_nat_alt word_less_nat_alt unat_PGROUNDDOWN q by auto
qed

lemma shrunk_none: "user_ok s fl d \<Longrightarrow> unat a mod 4096 = 0 \<Longrightarrow> \<not> a < hi \<Longrightarrow> shrunk d (page_range a hi) s fl s fl"
  by (rule shrunk_idle) (simp_all add: page_range_empty)

lemma shrunk_cong:
  assumes "\<And>va. mapped (mem s) d va \<Longrightarrow> R va = Q va"
  shows "shrunk d R s fl s' fl' = shrunk d Q s fl s' fl'"
proof -
  have "(R va \<and> mapped (mem s) d va) = (Q va \<and> mapped (mem s) d va)" for va using assms by blast
  then show ?thesis by (simp add: shrunk_def)
qed

lemma walkpgdir_find:
  assumes "pgdir_ok s d" and "pd_present (mem s) d (PDX va)"
  shows "\<exists>pte. walkpgdir d va False env s = Ret pte env s \<and> pte \<noteq> 0 \<and>
    load32 (mem s) pte = pte_of (mem s) d va \<and> pte = pd_table (mem s) d (PDX va) + 4 * PTX va"
  using walkpgdir_present [OF assms(2)] entry_nonnull [OF present_table(1) [OF assms] PTX_less [of va]] assms(2)
  by (simp add: pte_of_alt)

text \<open>One turn of the loop: from \<open>a\<close> it goes on at \<open>a'\<close>, and the pages \<open>R\<close> were freed.\<close>

definition dealloc_step :: "nat \<Rightarrow> uint \<Rightarrow> uint \<Rightarrow> kernel \<Rightarrow> uint list \<Rightarrow> (uint \<Rightarrow> bool) \<Rightarrow> uint \<Rightarrow> uint \<Rightarrow> kernel \<Rightarrow> uint list \<Rightarrow> bool" where
  "dealloc_step n d hi s fl R a a' s1 fl1 \<longleftrightarrow>
     (\<forall>env. deallocuvm_from (Suc n) d a hi env s = deallocuvm_from n d a' hi env s1) \<and>
     shrunk d R s fl s1 fl1 \<and> unat a' mod 4096 = 0 \<and> unat a + 4096 \<le> unat a' \<and>
     (\<forall>va. mapped (mem s) d va \<longrightarrow> page_range a hi va = (R va \<or> page_range a' hi va))"

lemma dealloc_stepD:
  assumes "dealloc_step n d hi s fl R a a' s1 fl1"
  shows "deallocuvm_from (Suc n) d a hi env s = deallocuvm_from n d a' hi env s1"
    and "shrunk d R s fl s1 fl1" and "unat a' mod 4096 = 0" and "unat a + 4096 \<le> unat a'"
    and "mapped (mem s) d va \<Longrightarrow> page_range a hi va = (R va \<or> page_range a' hi va)"
  using assms unfolding dealloc_step_def by simp_all

lemma dealloc_absent:
  assumes u: "user_ok s fl d" and a: "unat a mod 4096 = 0" and lt: "a < hi" and hi: "unat hi \<le> 2147483648"
    and absent: "\<not> pd_present (mem s) d (PDX a)"
  shows "dealloc_step n d hi s fl (\<lambda>_. False) a (PGADDR (PDX a + 1) 0 0 - PGSIZE + PGSIZE) s fl"
    (is "dealloc_step n d hi s fl ?R a ?a s fl")
proof -
  note j = page_range_jump [OF lt hi]
  have "page_range a hi va = page_range ?a hi va" if "mapped (mem s) d va" for va
  proof -
    have "PDX va \<noteq> PDX a" using mapped_present [OF that] absent by auto
    then have "unat (PDX va) \<noteq> unat (PDX a)" by (simp add: word_unat_eq_iff)
    then have "unat a \<le> unat va \<longleftrightarrow> (unat (PDX a) + 1) * 4194304 \<le> unat va"
      unfolding unat_PDX by auto
    then show ?thesis by (simp only: page_range_def word_le_nat_alt j)
  qed
  moreover have "unat a + 4096 \<le> unat ?a"
  proof -
    from a obtain q where q: "unat a = 4096 * q" by (auto simp: mod_eq_0_iff_dvd elim: dvdE)
    define r t where "r = q div 1024" and "t = q mod 1024"
    then have "q = r * 1024 + t" "t < 1024" by simp_all
    then have "4096 * q + 4096 \<le> (r + 1) * 4194304" by simp
    then have "4096 * q + 4096 \<le> (q div 1024 + 1) * 4194304" by (simp only: r_def)
    moreover have "unat (PDX a) = q div 1024" by (simp add: unat_PDX q)
    ultimately show ?thesis unfolding j q by simp
  qed
  moreover have "unat ?a mod 4096 = 0" unfolding j by (simp add: mod_eq_0_iff_dvd)
  moreover have "deallocuvm_from (Suc n) d a hi env s = deallocuvm_from n d ?a hi env s" for env
    using walkpgdir_absent [OF absent] lt by (simp add: kbind_apply)
  ultimately show ?thesis
    unfolding dealloc_step_def using shrunk_idle [OF u, of ?R] by blast
qed

lemma dealloc_empty:
  assumes u: "user_ok s fl d" and a: "unat a mod 4096 = 0" and lt: "a < hi" and hi: "unat hi \<le> 2147483648"
    and empty: "pd_present (mem s) d (PDX a)" "\<not> mapped (mem s) d a"
  shows "dealloc_step n d hi s fl (\<lambda>_. False) a (a + PGSIZE) s fl"
proof -
  note g = space_okE(1) [OF user_okD(1) [OF u]]
  have a1: "unat (a + PGSIZE) = unat a + 4096"
    using lt hi by (simp add: unat_word_ariths PGSIZE_def word_less_nat_alt)
  have "deallocuvm_from (Suc n) d a hi env s = deallocuvm_from n d (a + PGSIZE) hi env s" for env
  proof -
    from walkpgdir_find [OF g empty(1), of env] obtain pte where
      "walkpgdir d a False env s = Ret pte env s" "pte \<noteq> 0" "load32 (mem s) pte = pte_of (mem s) d a" by blast
    then show ?thesis using lt empty(2) by (simp add: kbind_apply mload_def mapped_def)
  qed
  moreover have "page_range a hi va = page_range (a + PGSIZE) hi va" if "mapped (mem s) d va" for va
    using page_range_split [OF a lt hi, of va] pte_of_round [of va a "mem s" d] that empty(2) aligned_round [OF a]
    by (auto simp: mapped_def)
  ultimately show ?thesis
    unfolding dealloc_step_def using shrunk_idle [OF u, of "\<lambda>_. False"] aligned_plus [OF a] a1 by simp
qed

lemma dealloc_page:
  assumes u: "user_ok s fl d" and k: "KERNBASE < k_end s" and a: "unat a mod 4096 = 0" and lt: "a < hi"
    and hi: "unat hi \<le> 2147483648" and page: "mapped (mem s) d a"
    and p: "p = frame (mem s) d a" and m1: "m1 = kfree_mem (mem s) p (freelist s)"
    and s': "s' = s\<lparr>freelist := p, mem := pte_store m1 d a 0\<rparr>"
  shows "dealloc_step n d hi s fl (\<lambda>va. PGROUNDDOWN va = PGROUNDDOWN a) a (a + PGSIZE) s' (p # fl)"
proof -
  note g = space_okE [OF user_okD(1) [OF u]]
  have kb: "a < KERNBASE" using lt hi by (simp add: word_less_nat_alt KERNBASE_def)
  have a1: "unat (a + PGSIZE) = unat a + 4096"
    using lt hi by (simp add: unat_word_ariths PGSIZE_def word_less_nat_alt)
  note f = page_freed_space [OF u kb page p m1 refl] and pk = user_okD(2) [OF u kb page, folded p]
  let ?e = "pte_of (mem s) d a"
  have addr: "PTE_ADDR ?e \<noteq> 0" "P2V (PTE_ADDR ?e) = p" "?e AND PTE_P \<noteq> 0"
    using pk k page by (auto simp: p frame_def page_ok_def P2V_def mapped_def)
  have ready: "kmem_ready s" using g(2) by (simp add: kmem_pool_def)
  have "deallocuvm_from (Suc n) d a hi env s = deallocuvm_from n d (a + PGSIZE) hi env s'" for env
  proof -
    from walkpgdir_find [OF g(1) mapped_present [OF page], of env] obtain pte where
      w: "walkpgdir d a False env s = Ret pte env s" "pte \<noteq> 0" "load32 (mem s) pte = ?e"
         "pte = pd_table (mem s) d (PDX a) + 4 * PTX a" by blast
    from w show ?thesis
      using lt addr kfree_exec [OF ready pk, of env] f(6)
      by (simp add: kbind_apply kthen_apply mload_def mstore_def Let_def pte_store_def s' m1)
  qed
  moreover have "shrunk d (\<lambda>va. PGROUNDDOWN va = PGROUNDDOWN a) s fl s' (p # fl)"
    by (rule page_freed [OF u kb page p m1 s'])
  ultimately show ?thesis
    unfolding dealloc_step_def
    using aligned_plus [OF a] a1 page_range_split [OF a lt hi] aligned_round [OF a] by simp
qed

lemma dealloc_turn:
  assumes "user_ok s fl d" and "KERNBASE < k_end s" and "unat a mod 4096 = 0" and "a < hi"
    and "unat hi \<le> 2147483648"
  shows "\<exists>R a' s1 fl1. dealloc_step n d hi s fl R a a' s1 fl1"
proof -
  consider (absent) "\<not> pd_present (mem s) d (PDX a)" | (empty) "pd_present (mem s) d (PDX a)" "\<not> mapped (mem s) d a"
    | (page) "mapped (mem s) d a" by blast
  then show ?thesis
  proof cases
    case absent
    from dealloc_absent [OF assms(1,3-5) this] show ?thesis by (intro exI)
  next
    case empty
    from dealloc_empty [OF assms(1,3-5) this] show ?thesis by (intro exI)
  next
    case page
    from dealloc_page [OF assms this refl refl refl] show ?thesis by (intro exI)
  qed
qed

lemma deallocuvm_from_spec:
  assumes "user_ok s fl d" and "KERNBASE < k_end s" and "unat a mod 4096 = 0" and "unat hi \<le> 2147483648"
    and "unat hi \<le> unat a + 4096 * n"
  shows "\<exists>s' fl'. deallocuvm_from n d a hi env s = Ret () env s' \<and> shrunk d (page_range a hi) s fl s' fl'"
  using assms
proof (induction n arbitrary: s fl a)
  case 0
  then have "\<not> a < hi" by (simp add: word_less_nat_alt)
  then show ?case using shrunk_none [OF 0(1,3)] by auto
next
  case (Suc n)
  show ?case
  proof (cases "a < hi")
    case False
    then show ?thesis using shrunk_none [OF Suc.prems(1,3)] by auto
  next
    case lt: True
    obtain R a' s1 fl1 where st: "dealloc_step n d hi s fl R a a' s1 fl1"
      using dealloc_turn [OF Suc.prems(1-3) lt Suc.prems(4)] by blast
    note 1 = st [THEN dealloc_stepD(1)] st [THEN dealloc_stepD(2)] st [THEN dealloc_stepD(3)]
      st [THEN dealloc_stepD(4)] and r = st [THEN dealloc_stepD(5)]
    have "k_end s1 = k_end s" using shrunkD(2) [OF 1(2)] by auto
    then have "KERNBASE < k_end s1" "unat hi \<le> unat a' + 4096 * n" using Suc.prems(2,5) 1(4) by simp_all
    from Suc.IH [OF shrunkD(1) [OF 1(2)] this(1) 1(3) Suc.prems(4) this(2)]
    obtain s' fl' where 2: "deallocuvm_from n d a' hi env s1 = Ret () env s'" "shrunk d (page_range a' hi) s1 fl1 s' fl'"
      by blast
    have "shrunk d (page_range a hi) s fl s' fl'"
      using shrunk_trans [OF 1(2) 2(2)] by (rule iffD2 [OF shrunk_cong, rotated]) (rule r)
    moreover have "deallocuvm_from (Suc n) d a hi env s = Ret () env s'" unfolding 1(1) by (rule 2(1))
    ultimately show ?thesis by (intro exI conjI)
  qed
qed

section \<open>Copying an address space\<close>

text \<open>Pages that the address space \<open>d\<close> neither uses for its tables nor can take.\<close>

definition aside :: "kernel \<Rightarrow> uint list \<Rightarrow> uint \<Rightarrow> uint set \<Rightarrow> bool" where
  "aside s fl d P \<longleftrightarrow> (\<forall>p \<in> P. page_ok s p \<and> p \<notin> vm_pages (mem s) d \<and> p \<notin> set fl)"

lemma grown_aside:
  assumes g: "grown d s fl s' fl'" and a: "aside s fl d P" and u: "user_ok s fl d"
  shows "same_on P (mem s) (mem s')" and "aside s' fl' d P"
proof -
  note sp = space_okE [OF user_okD(1) [OF u]]
  from g obtain used m f where used: "fl = used @ fl'" and s': "s' = s\<lparr>mem := m, freelist := f\<rparr>"
    and v: "vm_pages (mem s') d \<subseteq> vm_pages (mem s) d \<union> set fl"
    and out: "\<And>x. \<forall>p \<in> vm_pages (mem s) d \<union> set fl. \<not> in_run p 4096 x \<Longrightarrow> mem s' x = mem s x"
    unfolding grown_def by blast
  have "page_ok s' = page_ok s" by (simp add: s')
  then show "aside s' fl' d P" using a v used unfolding aside_def by auto
  show "same_on P (mem s) (mem s')"
    unfolding same_on_def
  proof (intro ballI allI impI)
    fix p x assume p: "p \<in> P" "in_run p 4096 x"
    show "mem s' x = mem s x"
    proof (rule out, rule ballI)
      fix q assume q: "q \<in> vm_pages (mem s) d \<union> set fl"
      then have "page_ok s q" "page_ok s p" "p \<noteq> q" using sp(4,6) a p(1) unfolding aside_def by auto
      then show "\<not> in_run q 4096 x" using disjoint_page p(2) by blast
    qed
  qed
qed

lemma grown_pgdir:
  assumes "grown d s fl s' fl'" and "same_on P (mem s) (mem s')" and "pd \<in> P" and "pgdir_ok s pd"
  shows "pgdir_ok s' pd"
proof -
  from assms(1) obtain m f where s': "s' = s\<lparr>mem := m, freelist := f\<rparr>" unfolding grown_def by blast
  have "pgdir_ok (s\<lparr>mem := m\<rparr>) pd" using same_on_pgdir_ok [of P s m pd] assms by (simp add: s')
  then show ?thesis by (simp add: s' pgdir_ok_def)
qed

lemma same_on_trans: "same_on P m m1 \<Longrightarrow> same_on P m1 m2 \<Longrightarrow> same_on P m m2"
  by (simp add: same_on_def)

lemma same_on_mono: "same_on P m m' \<Longrightarrow> Q \<subseteq> P \<Longrightarrow> same_on Q m m'"
  by (auto simp: same_on_def)

text \<open>The pages of the first \<open>sz\<close> bytes of an address space, with its tables.\<close>

definition own_pages :: "32 bytes \<Rightarrow> uint \<Rightarrow> uint \<Rightarrow> uint set" where
  "own_pages m pd sz = vm_pages m pd \<union> frame m pd ` {va. va < sz}"

lemma own_pages_kept:
  assumes "same_on (own_pages m pd sz) m m'"
  shows "pte_of m' pd = pte_of m pd" and "va < sz \<Longrightarrow> ubyte m' pd va = ubyte m pd va"
proof -
  show p: "pte_of m' pd = pte_of m pd"
    using same_on_pte [OF same_on_mono [OF assms]] by (auto simp: own_pages_def)
  show "ubyte m' pd va = ubyte m pd va" if "va < sz"
    using assms that page_off_in_run [of "frame m pd va" va]
    by (auto simp: ubyte_def frame_def p own_pages_def same_on_def)
qed

lemma flags_with_P: "bit e 0 \<Longrightarrow> PTE_FLAGS e OR PTE_P = PTE_FLAGS e"
  unfolding PTE_FLAGS_def hex_masks PTE_P_def
  by (rule bit_word_eqI) (auto simp: bit_simps bit_1_iff)

lemma memmove_page:
  assumes "page_ok s p" and "page_ok s q"
  shows "memmove m p q 4096 = write_bytes m p (read_bytes m q 4096)"
  using page_ok_bounds(2) [OF assms(1)] page_ok_bounds(2) [OF assms(2)] by (intro memmove_eq) simp_all

lemma copied_byte: "unat off < 4096 \<Longrightarrow> write_bytes m p (read_bytes m q 4096) (p + off) = m (q + off)"
  by (simp add: write_bytes_def)

lemma copyuvm_turn:
  assumes u: "user_ok s fl d" and len: "2 \<le> length fl" and i: "unat i mod 4096 = 0"
    and un: "\<not> mapped (mem s) d i" and lt: "i < sz"
    and pd: "pgdir_ok s pd" and P: "P = own_pages m pd sz" "same_on P m (mem s)" "aside s fl d P"
    and pm: "mapped m pd i"
  shows "\<exists>s' fl'. copyuvm_from (Suc n) d pd i sz env s = copyuvm_from n d pd (i + PGSIZE) sz env s' \<and>
    grown d s fl s' fl' \<and> length fl \<le> length fl' + 2 \<and>
    user_map d i (Suc 0) (\<lambda>va. PTE_FLAGS (pte_of m pd va)) (ubyte m pd) (mem s) (mem s')"
proof -
  from len obtain p q fl1 where fl: "fl = p # q # fl1" by (cases fl; cases "tl fl") auto
  note u = u [unfolded fl]
  have pool: "kmem_pool s (p # q # fl1)" using user_okD(1) [OF u] by (rule space_ok_pool)
  note ka = kalloc_take [OF pool] and own = own_pages_kept [OF P(2) [unfolded P(1)]]
  let ?e = "pte_of m pd i" and ?f = "frame m pd i"
  let ?m0 = "write_bytes (mem s) p (read_bytes (mem s) ?f 4096)"
  have f: "page_ok s ?f" "?f \<in> P" using P(1,3) lt by (auto simp: aside_def own_pages_def)
  have pk: "page_ok s p" using space_okE(4) [OF user_okD(1) [OF u]] by simp
  have pi: "pd_present (mem s) pd (PDX i)" using pm own(1) mapped_present by (auto simp: mapped_def)
  have e: "bit ?e 0" "unat (PTE_FLAGS ?e) < 4096" using pm by (simp_all add: pte_of_zero_unmapped unat_PTE_FLAGS)
  have same: "pte_of m pd va = ?e" if "PGROUNDDOWN va = i" for va
    using pte_of_round [of va i m pd] that aligned_round [OF i] by simp
  have m0: "?m0 x = mem s x" if "\<not> in_run p 4096 x" for x using that by (simp add: write_bytes_outside)
  have F: "PTE_FLAGS (pte_of m pd va) = PTE_FLAGS ?e OR PTE_P" if "PGROUNDDOWN va = i" for va
    using same [OF that] flags_with_P [OF e(1)] by simp
  have B: "ubyte m pd va = ?m0 (p + page_off va)" if "PGROUNDDOWN va = i" for va
  proof -
    have "?m0 (p + page_off va) = mem s (?f + page_off va)" by (rule copied_byte) (simp add: unat_page_off)
    also have "\<dots> = m (?f + page_off va)" using P(2) f(2) page_off_in_run unfolding same_on_def by blast
    finally show ?thesis using same [OF that] by (simp add: ubyte_def frame_def)
  qed
  have "q # fl1 \<noteq> []" by simp
  from user_page_map [where F = "\<lambda>va. PTE_FLAGS (pte_of m pd va)" and B = "ubyte m pd" and env = env,
      OF u this m0 i un e(2) F B] obtain s' fl' where
    r: "mappages d i PGSIZE (V2P p) (PTE_FLAGS ?e) env (with_page s p ?m0) = Ret 0 env s'"
    "grown d s (p # q # fl1) s' fl'" "length (q # fl1) \<le> Suc (length fl')"
    "user_map d i (Suc 0) (\<lambda>va. PTE_FLAGS (pte_of m pd va)) (ubyte m pd) (mem s) (mem s')"
    by blast
  from walkpgdir_find [OF pd pi, of env] obtain pte where
    w: "walkpgdir pd i False env s = Ret pte env s" "pte \<noteq> 0" "load32 (mem s) pte = ?e"
    unfolding own(1) by blast
  have "memmove (mem s) p (P2V (PTE_ADDR ?e)) 4096 = ?m0"
    using memmove_page [OF pk f(1)] by (simp add: frame_def)
  then have "copyuvm_from (Suc n) d pd i sz env s = copyuvm_from n d pd (i + PGSIZE) sz env s'"
    using r(1) ka lt w pm by (simp add: kbind_apply kthen_apply mload_def Let_def mapped_def with_page_def PGSIZE_def)
  with r show ?thesis unfolding fl by (intro exI [of _ s'] exI [of _ fl']) simp
qed

lemma copyuvm_from_spec:
  assumes "user_ok s fl d" and "2 * k \<le> length fl" and "unat i mod 4096 = 0"
    and "unat i + 4096 * k \<le> 2147483648" and "\<And>va. in_pages i k va \<Longrightarrow> \<not> mapped (mem s) d va"
    and "unat sz \<le> unat i + 4096 * k" and "0 < k \<Longrightarrow> unat i + 4096 * (k - 1) < unat sz" and "k \<le> n"
    and "pgdir_ok s pd" and P: "P = own_pages m pd sz" and "same_on P m (mem s)" and "aside s fl d P"
    and pm: "\<And>va. va < sz \<Longrightarrow> mapped m pd va"
  shows "\<exists>s' fl'. copyuvm_from n d pd i sz env s = Ret d env s' \<and> grown d s fl s' fl' \<and>
    user_map d i k (\<lambda>va. PTE_FLAGS (pte_of m pd va)) (ubyte m pd) (mem s) (mem s')"
  using assms(1-9,11,12)
proof (induction k arbitrary: s fl i n)
  case 0
  then have "\<not> i < sz" by (simp add: word_less_nat_alt)
  then have "copyuvm_from n d pd i sz env s = Ret d env s" by (cases n) simp_all
  then show ?case using grown_refl [OF 0(1)] user_map_0 by blast
next
  case (Suc k)
  let ?F = "\<lambda>va. PTE_FLAGS (pte_of m pd va)"
  from Suc.prems(8) obtain n' where n: "n = Suc n'" "k \<le> n'" by (cases n) auto
  have b: "4096 * k + 4096 \<le> 4294967296" "4096 * k + 4096 \<le> 2147483648" using Suc.prems(4) by simp_all
  note ip = in_pages_Suc [OF Suc.prems(3) b(1)] and ri = aligned_round [OF Suc.prems(3)]
  have una: "\<not> mapped (mem s) d i" using Suc.prems(5) [of i] ip(1) [of i] ri by simp
  have lt: "i < sz" using Suc.prems(7) by (simp add: word_less_nat_alt)
  from copyuvm_turn [OF Suc.prems(1) _ Suc.prems(3) una lt Suc.prems(9) P Suc.prems(10,11) pm [OF lt], of n' env] Suc.prems(2)
  obtain s1 fl1 where 1: "copyuvm_from n d pd i sz env s = copyuvm_from n' d pd (i + PGSIZE) sz env s1"
    "grown d s fl s1 fl1" "length fl \<le> length fl1 + 2" "user_map d i (Suc 0) ?F (ubyte m pd) (mem s) (mem s1)"
    unfolding n by auto
  note as = grown_aside [OF 1(2) Suc.prems(11,1)]
  have i1: "unat (i + PGSIZE) = unat i + 4096"
    using Suc.prems(4) by (simp add: unat_word_ariths PGSIZE_def)
  have "\<not> mapped (mem s1) d va" if "in_pages (i + PGSIZE) k va" for va
    using that ip [of va] Suc.prems(5) [of va] user_map_mapped [OF 1(4), of va] in_pages_1 [OF Suc.prems(3), of va]
    by blast
  moreover have "user_ok s1 fl1 d" using 1(2) by (simp add: grown_def)
  moreover have "0 < k \<Longrightarrow> unat (i + PGSIZE) + 4096 * (k - 1) < unat sz"
    using Suc.prems(7) i1 by (cases k) simp_all
  moreover have "pgdir_ok s1 pd"
    using grown_pgdir [OF 1(2) as(1) _ Suc.prems(9)] in_vm_pages(1) by (simp add: P own_pages_def)
  ultimately obtain s' fl' where 2: "copyuvm_from n' d pd (i + PGSIZE) sz env s1 = Ret d env s'"
    "grown d s1 fl1 s' fl'" "user_map d (i + PGSIZE) k ?F (ubyte m pd) (mem s1) (mem s')"
    using Suc.IH [of s1 fl1 "i + PGSIZE" n'] Suc.prems 1(3) aligned_plus [OF Suc.prems(3)] i1 n(2)
      same_on_trans [OF Suc.prems(10) as(1)] as(2) by auto
  have "i < KERNBASE" using Suc.prems(4) by (simp add: word_less_nat_alt KERNBASE_def)
  moreover have "?F va AND PTE_P \<noteq> 0" if "PGROUNDDOWN va = i" for va
    using pm [OF lt] pte_of_round [of va i m pd] that ri unfolding mapped_flags by simp
  ultimately have "user_map d i (Suc k) ?F (ubyte m pd) (mem s) (mem s')"
    by (rule user_map_Suc [OF 1(4) 2(3) Suc.prems(3) b(1)])
  with 1(1) 2(1) grown_trans [OF 1(2) 2(2)] show ?case by auto
qed

section \<open>Properties\<close>

lemma PGROUNDUP_user:
  assumes "sz < KERNBASE"
  shows "unat (PGROUNDUP sz) \<le> 2147483648" and "unat sz \<le> unat (PGROUNDUP sz)"
    and "unat (PGROUNDUP sz) < unat sz + 4096" and "unat (PGROUNDUP sz) mod 4096 = 0"
proof -
  have s: "unat sz < 2147483648" using assms by (simp add: word_less_nat_alt KERNBASE_def)
  then have "unat sz + 4095 < 4294967296" by simp
  note b = PGROUNDUP_bounds [OF this]
  show "unat sz \<le> unat (PGROUNDUP sz)" "unat (PGROUNDUP sz) < unat sz + 4096" by (rule b)+
  show a: "unat (PGROUNDUP sz) mod 4096 = 0" by (rule PGROUNDUP_aligned)
  then obtain q where q: "unat (PGROUNDUP sz) = 4096 * q" by (auto simp: mod_eq_0_iff_dvd elim: dvdE)
  have "4096 * q < 2147483648 + 4096" using b(2) s q by simp
  then show "unat (PGROUNDUP sz) \<le> 2147483648" using q by simp
qed

lemma PGROUNDUP_mono: 
  assumes "a \<le> b" and "b < KERNBASE"
  shows "unat (PGROUNDUP a) \<le> unat (PGROUNDUP b)"
proof -
  have "unat a \<le> unat b" "unat b < 2147483648"
    using assms by (simp_all add: word_le_nat_alt word_less_nat_alt KERNBASE_def)
  then show ?thesis by (simp add: unat_PGROUNDUP div_le_mono)
qed

text \<open>C17: \<^verbatim>\<open>allocuvm\<close> with enough free pages: every page from the old end of the process to the new
  one is mapped, present, writable and accessible to the user, and reads as zero; every other address
  keeps its mapping and its contents, and the pages of the process, its page tables and the free
  pages stay apart.\<close>

theorem allocuvm_grows:
  assumes "user_ok s fl d" and "oldsz \<le> newsz" and "newsz < KERNBASE"
    and "\<And>va. PGROUNDUP oldsz \<le> va \<Longrightarrow> va < PGROUNDUP newsz \<Longrightarrow> \<not> mapped (mem s) d va"
    and "2 * ((unat (PGROUNDUP newsz) - unat (PGROUNDUP oldsz)) div 4096) \<le> length fl"
  shows "\<exists>s' fl'. allocuvm d oldsz newsz env s = Ret newsz env s' \<and> user_ok s' fl' d \<and>
    (\<forall>va. if PGROUNDUP oldsz \<le> va \<and> va < PGROUNDUP newsz
       then PTE_FLAGS (pte_of (mem s') d va) = PTE_W OR PTE_U OR PTE_P \<and> ubyte (mem s') d va = 0
       else pte_of (mem s') d va = pte_of (mem s) d va \<and>
         (va < KERNBASE \<longrightarrow> mapped (mem s) d va \<longrightarrow> ubyte (mem s') d va = ubyte (mem s) d va))"
proof -
  let ?a = "PGROUNDUP oldsz" and ?e = "PGROUNDUP newsz"
  define k where "k = (unat ?e - unat ?a) div 4096"
  have "oldsz < KERNBASE" using assms(2,3) by simp
  note o = PGROUNDUP_user [OF this] and n = PGROUNDUP_user [OF assms(3)] and le = PGROUNDUP_mono [OF assms(2,3)]
  have k: "unat ?a + 4096 * k = unat ?e"
    using o(4) n(4) le unfolding k_def by (auto simp: mod_eq_0_iff_dvd dvd_diff_nat)
  have ip: "in_pages ?a k va \<longleftrightarrow> ?a \<le> va \<and> va < ?e" for va
    using in_pages_iff [OF o(4), of k va] k n(1) by (simp add: word_le_nat_alt word_less_nat_alt)
  have "unat newsz \<le> unat ?a + 4096 * k" "0 < k \<Longrightarrow> unat ?a + 4096 * (k - 1) < unat newsz"
    using k n(2,3) by (cases k; simp)+
  moreover have "k \<le> 2 ^ 20" using k n(1) by simp
  ultimately obtain s' fl' where r: "allocuvm_from (2 ^ 20) d ?a oldsz newsz env s = Ret newsz env s'"
    "grown d s fl s' fl'" "user_map d ?a k (\<lambda>_. alloc_flags OR PTE_P) (\<lambda>_. 0) (mem s) (mem s')"
    using allocuvm_from_spec [OF assms(1), of k ?a newsz "2 ^ 20" oldsz env] assms(4,5) o(4) k n(1) ip
    unfolding k_def [symmetric] by auto
  then have "allocuvm d oldsz newsz env s = Ret newsz env s'"
    using leD [OF assms(2)] leD [of KERNBASE newsz] assms(3) by (auto simp: allocuvm_def)
  moreover have "user_ok s' fl' d" using r(2) by (simp add: grown_def)
  ultimately show ?thesis
    using r(3) unfolding user_map_def ip alloc_flags_def
    by (intro exI [of _ s'] exI [of _ fl']) (simp add: or.assoc)
qed

text \<open>C18: \<^verbatim>\<open>deallocuvm\<close> always returns; it unmaps every page from the new end of the process to the old
  one and puts exactly the pages that were mapped there on the free list; the rest of the address
  space keeps its mappings and its contents.\<close>

theorem deallocuvm_frees:
  assumes "user_ok s fl d" and "KERNBASE < k_end s" and "newsz < oldsz" and "oldsz \<le> KERNBASE"
  shows "\<exists>s' fl'. deallocuvm d oldsz newsz env s = Ret newsz env s' \<and> user_ok s' fl' d \<and>
    set fl' = set fl \<union> frame (mem s) d ` {va. PGROUNDUP newsz \<le> va \<and> PGROUNDDOWN va < oldsz \<and> mapped (mem s) d va} \<and>
    (\<forall>va. mapped (mem s') d va \<longleftrightarrow> mapped (mem s) d va \<and> \<not> (PGROUNDUP newsz \<le> va \<and> PGROUNDDOWN va < oldsz)) \<and>
    (\<forall>va. mapped (mem s') d va \<longrightarrow> pte_of (mem s') d va = pte_of (mem s) d va \<and>
       (va < KERNBASE \<longrightarrow> ubyte (mem s') d va = ubyte (mem s) d va))"
proof -
  let ?a = "PGROUNDUP newsz"
  have "unat oldsz \<le> 2147483648" "unat oldsz \<le> unat ?a + 4096 * 2 ^ 20"
    using assms(4) unat_less_2p32 [of oldsz] by (simp_all add: word_le_nat_alt KERNBASE_def)
  from deallocuvm_from_spec [OF assms(1,2) PGROUNDUP_aligned this, of env] obtain s' fl' where
    r: "deallocuvm_from (2 ^ 20) d ?a oldsz env s = Ret () env s'" "shrunk d (page_range ?a oldsz) s fl s' fl'" by blast
  then have "deallocuvm d oldsz newsz env s = Ret newsz env s'"
    using leD [of oldsz newsz] assms(3) by (auto simp: deallocuvm_def kthen_apply)
  moreover have "{va. page_range ?a oldsz va \<and> mapped (mem s) d va} =
      {va. ?a \<le> va \<and> PGROUNDDOWN va < oldsz \<and> mapped (mem s) d va}" by (auto simp: page_range_def)
  moreover have "pte_of (mem s') d va = pte_of (mem s) d va" if "mapped (mem s') d va" for va
    using shrunkD(4) [OF r(2), of va] shrunk_mapped(1) [OF r(2), of va] that by simp
  ultimately show ?thesis
    using shrunkD(1,3,5) [OF r(2)] shrunk_mapped(1) [OF r(2)]
    by (intro exI [of _ s'] exI [of _ fl']) (simp add: page_range_def)
qed

text \<open>C19: the loop of \<^verbatim>\<open>copyuvm\<close>, with enough free pages, gives the child the first \<open>sz\<close> bytes of the
  parent: each byte and each page's permissions are those of the parent, on pages of its own. The
  parent reads as before, and no page of the child is a page of the parent.\<close>

theorem copyuvm_from_copies:
  assumes "user_ok s fl d" and "sz < KERNBASE" and "2 * (unat (PGROUNDUP sz) div 4096) \<le> length fl"
    and "\<And>va. va < PGROUNDUP sz \<Longrightarrow> \<not> mapped (mem s) d va"
    and "pgdir_ok s pd" and "\<And>va. va < sz \<Longrightarrow> mapped (mem s) pd va" and "aside s fl d (own_pages (mem s) pd sz)"
  shows "\<exists>s' fl'. copyuvm_from (2 ^ 20) d pd 0 sz env s = Ret d env s' \<and> user_ok s' fl' d \<and>
    (\<forall>va < sz. mapped (mem s') d va \<and> PTE_FLAGS (pte_of (mem s') d va) = PTE_FLAGS (pte_of (mem s) pd va) \<and>
       ubyte (mem s') d va = ubyte (mem s) pd va \<and> ubyte (mem s') pd va = ubyte (mem s) pd va \<and>
       frame (mem s') d va \<notin> own_pages (mem s) pd sz)"
proof -
  let ?e = "PGROUNDUP sz" and ?P = "own_pages (mem s) pd sz"
  define k where "k = unat ?e div 4096"
  note n = PGROUNDUP_user [OF assms(2)]
  have k: "4096 * k = unat ?e" using n(4) unfolding k_def by auto
  have ip: "in_pages 0 k va \<longleftrightarrow> va < ?e" for va
    using in_pages_iff [of 0 k va] k n(1) by (simp add: word_less_nat_alt)
  have "unat sz \<le> unat (0 :: uint) + 4096 * k" "0 < k \<Longrightarrow> unat (0 :: uint) + 4096 * (k - 1) < unat sz"
    using k n(2,3) by (cases k; simp)+
  moreover have "k \<le> 2 ^ 20" using k n(1) by simp
  moreover have "same_on ?P (mem s) (mem s)" by (simp add: same_on_def)
  ultimately obtain s' fl' where r: "copyuvm_from (2 ^ 20) d pd 0 sz env s = Ret d env s'"
    "grown d s fl s' fl'" "user_map d 0 k (\<lambda>va. PTE_FLAGS (pte_of (mem s) pd va)) (ubyte (mem s) pd) (mem s) (mem s')"
    using copyuvm_from_spec [OF assms(1), of k 0 sz "2 ^ 20" pd ?P "mem s" env] assms(3-7) k n(1) ip
    unfolding k_def [symmetric] by auto
  have u': "user_ok s' fl' d" using r(2) by (simp add: grown_def)
  note as = grown_aside [OF r(2) assms(7,1)]
  have "mapped (mem s') d va \<and> PTE_FLAGS (pte_of (mem s') d va) = PTE_FLAGS (pte_of (mem s) pd va) \<and>
       ubyte (mem s') d va = ubyte (mem s) pd va" if "va < sz" for va
  proof -
    have "va < ?e" using that n(2) by (simp add: word_less_nat_alt)
    then show ?thesis using user_map_in [OF r(3)] ip assms(6) [OF that] by (simp add: mapped_flags)
  qed
  moreover have "frame (mem s') d va \<notin> ?P" if "va < sz" "mapped (mem s') d va" for va
  proof -
    have "va < ?e" using that n(2) by (simp add: word_less_nat_alt)
    with assms(4) r(2) that(2) have "frame (mem s') d va \<in> set fl" unfolding grown_def by blast
    with assms(7) show ?thesis unfolding aside_def by blast
  qed
  ultimately show ?thesis
    using r(1) u' own_pages_kept(2) [OF as(1)] by blast
qed

section \<open>Small address spaces\<close>

text \<open>Freed pages next to memory that is all zero.\<close>

definition free_page :: "uint \<Rightarrow> kernel \<Rightarrow> kernel" where
  "free_page p s = s\<lparr>mem := kfree_mem (mem s) p (freelist s), freelist := p\<rparr>"

definition four_free :: kernel where
  "four_free = free_page 0x80303000 (free_page 0x80302000 (free_page 0x80301000 (free_page 0x80300000
     (boot_kernel\<lparr>k_end := 0x80200000, mem := \<lambda>_. 0\<rparr>))))"

definition free4 :: "uint list" where
  "free4 = [0x80303000, 0x80302000, 0x80301000, 0x80300000]"

lemma free_page_pool: "kmem_pool s ps \<Longrightarrow> page_ok s p \<Longrightarrow> p \<notin> set ps \<Longrightarrow> kmem_pool (free_page p s) (p # ps)"
  using kmem_ok_free [of s ps p] by (simp add: kmem_pool_def free_page_def)

lemma free_page_simps [simp]:
  "page_ok (free_page p s) = page_ok s" "k_end (free_page p s) = k_end s"
  "\<not> in_run p 4096 x \<Longrightarrow> mem (free_page p s) x = mem s x"
  by (simp_all add: free_page_def kfree_mem_outside)

lemma page_ok_four: "unat p mod 4096 = 0 \<Longrightarrow> 0x80200000 \<le> p \<Longrightarrow> p < 0x8E000000 \<Longrightarrow> page_ok four_free p"
  unfolding four_free_def free_page_simps
  by (rule page_in_range) (simp_all add: KERNBASE_def word_less_nat_alt word_le_nat_alt)

lemma four_free_pool: "kmem_pool four_free free4"
proof -
  have "kmem_pool (boot_kernel\<lparr>k_end := 0x80200000, mem := \<lambda>_. 0\<rparr>) []"
    by (simp add: kmem_pool_def kmem_ok_def kmem_ready_def)
  then show ?thesis
    unfolding four_free_def free4_def
    by (intro free_page_pool) (simp_all add: page_in_range KERNBASE_def)
qed

lemma four_free_zero:
  assumes "page_ok four_free p" and "p \<notin> set free4" and "in_run p 4096 x"
  shows "mem four_free x = 0"
proof -
  have "\<not> in_run q 4096 x" if "q \<in> set free4" for q
    using disjoint_page [OF assms(1) kmem.pool_managed [OF four_free_pool that]] assms that by blast
  then show ?thesis by (simp add: four_free_def free4_def)
qed

text \<open>A directory page that is all zero maps nothing.\<close>

lemma zero_dir:
  assumes "\<And>x. in_run d 4096 x \<Longrightarrow> m x = 0"
  shows "unat i < 1024 \<Longrightarrow> \<not> pd_present m d i" and "vm_pages m d = {d}" and "\<not> mapped m d va"
proof -
  have "load32 m (d + 4 * i) = 0" if "unat i < 1024" for i
    using load32_cong [of "d + 4 * i" m "\<lambda>_. 0"] entry_in_page [OF that, of d] assms by (simp add: load32_zero)
  then show n: "\<not> pd_present m d i" if "unat i < 1024" for i using that by (simp add: pd_present_def)
  show "vm_pages m d = {d}" using n by (auto simp: vm_pages_def)
  show "\<not> mapped m d va" using mapped_present n [OF PDX_less] by blast
qed

lemma zero_dir_user:
  assumes "kmem_pool s fl" and "page_ok s d" and "d \<notin> set fl" and "\<And>x. in_run d 4096 x \<Longrightarrow> mem s x = 0"
  shows "user_ok s fl d"
  using assms(1-3) zero_dir [OF assms(4)] by (simp add: user_ok_def space_ok_def pgdir_ok_def)

lemma four_free_user: "user_ok four_free free4 0x80400000" "\<not> mapped (mem four_free) 0x80400000 va"
proof -
  have p: "page_ok four_free 0x80400000" by (rule page_ok_four) simp_all
  have n: "0x80400000 \<notin> set free4" by (simp add: free4_def)
  note z = four_free_zero [OF p n]
  show "user_ok four_free free4 0x80400000" by (rule zero_dir_user [OF four_free_pool p n z])
  show "\<not> mapped (mem four_free) 0x80400000 va" by (rule zero_dir(3) [OF z])
qed

text \<open>A process with one page, and an empty directory for its child.\<close>

lemma one_page_process:
  "\<exists>s fl. user_ok s fl 0x80400000 \<and> (\<exists>m f. s = four_free\<lparr>mem := m, freelist := f\<rparr>) \<and> 2 \<le> length fl \<and>
     (\<forall>va < 4096. mapped (mem s) 0x80400000 va) \<and> user_ok s fl 0x80401000 \<and>
     (\<forall>va. \<not> mapped (mem s) 0x80401000 va) \<and> pgdir_ok s 0x80400000 \<and>
     aside s fl 0x80401000 (own_pages (mem s) 0x80400000 100)"
proof -
  let ?d = "0x80400000 :: uint" and ?c = "0x80401000 :: uint"
  note u = four_free_user(1)
  have len: "2 \<le> length free4" by (simp add: free4_def)
  from allocuvm_turn [OF u len _ four_free_user(2), of 0 4096 0 0 "[]"]
  obtain s fl where g: "grown ?d four_free free4 s fl" "4 \<le> length fl + 2"
    and um: "user_map ?d 0 (Suc 0) (\<lambda>_. alloc_flags OR PTE_P) (\<lambda>_. 0) (mem four_free) (mem s)"
    by (auto simp: free4_def)
  have us: "user_ok s fl ?d" using g(1) by (simp add: grown_def)
  note sp = space_okE [OF user_okD(1) [OF us]]
  have ke: "\<exists>m f. s = four_free\<lparr>mem := m, freelist := f\<rparr>" using g(1) unfolding grown_def by blast
  then have pk: "page_ok s = page_ok four_free" by auto
  have fl: "set fl \<subseteq> set free4"
  proof -
    from g(1) obtain used where "free4 = used @ fl" unfolding grown_def by blast
    from arg_cong [OF this, of set] have "set free4 = set used \<union> set fl" unfolding set_append .
    then show ?thesis by blast
  qed
  have mp: "mapped (mem s) ?d va" if "va < 4096" for va
  proof -
    have "in_pages 0 (Suc 0) va" using that by (simp add: in_pages_iff word_less_nat_alt)
    from user_map_in [OF um this] show ?thesis
      by (simp add: mapped_flags alloc_flags_def PTE_P_def PTE_W_def PTE_U_def)
  qed
  have c: "page_ok four_free ?c" by (rule page_ok_four) simp_all
  have nc: "?c \<notin> set free4" by (simp add: free4_def)
  have vd: "vm_pages (mem four_free) ?d = {?d}"
    using zero_dir(2) [OF four_free_zero, of ?d] page_ok_four [of ?d] by (simp add: free4_def)
  have "aside four_free free4 ?d {?c}" using c nc vd by (simp add: aside_def)
  from grown_aside(1) [OF g(1) this u] four_free_zero [OF c nc]
  have z: "mem s x = 0" if "in_run ?c 4096 x" for x using that by (simp add: same_on_def)
  have uc: "user_ok s fl ?c"
    using sp(2) c nc fl z unfolding pk [symmetric] by (intro zero_dir_user) auto
  have fr: "page_ok s (frame (mem s) ?d va) \<and> frame (mem s) ?d va \<noteq> ?c \<and> frame (mem s) ?d va \<notin> set fl"
    if "va < 100" for va
  proof -
    have va: "va < 4096" "va < KERNBASE" using that by (simp_all add: word_less_nat_alt KERNBASE_def)
    have "frame (mem s) ?d va \<in> set free4"
      using g(1) mp [OF va(1)] four_free_user(2) unfolding grown_def by blast
    then show ?thesis using user_okD(2,3) [OF us va(2) mp [OF va(1)]] nc by auto
  qed
  have "p \<noteq> ?c" if "p \<in> vm_pages (mem s) ?d" for p
    using that g(1) nc vd unfolding grown_def by auto
  then have "aside s fl ?c (own_pages (mem s) ?d 100)"
    using sp(3,6) fr zero_dir(2) [OF z] by (auto simp: aside_def own_pages_def)
  with us ke g(2) mp uc zero_dir(3) [OF z] sp(1) show ?thesis
    by (intro exI [of _ s] exI [of _ fl]) simp
qed

theorem allocuvm_grows_witness:
  "\<exists>s'. allocuvm 0x80400000 0 100 [] four_free = Ret 100 [] s' \<and>
     mapped (mem s') 0x80400000 50 \<and> ubyte (mem s') 0x80400000 50 = 0"
proof -
  have r: "PGROUNDUP 0 = 0" "PGROUNDUP 100 = 4096" by (simp_all add: PGROUNDUP_def PGSIZE_def)
  have "\<exists>s'. allocuvm 0x80400000 0 100 [] four_free = Ret 100 [] s' \<and>
      PTE_FLAGS (pte_of (mem s') 0x80400000 50) = PTE_W OR PTE_U OR PTE_P \<and> ubyte (mem s') 0x80400000 50 = 0"
    using allocuvm_grows [OF four_free_user(1), of 0 100 "[]"] four_free_user(2) unfolding r
    by (auto simp: KERNBASE_def free4_def dest: spec [where x = 50])
  then obtain s' where "allocuvm 0x80400000 0 100 [] four_free = Ret 100 [] s'" "ubyte (mem s') 0x80400000 50 = 0"
    and f: "PTE_FLAGS (pte_of (mem s') 0x80400000 50) = PTE_W OR PTE_U OR PTE_P" by blast
  moreover have "mapped (mem s') 0x80400000 50"
    unfolding mapped_flags f by (simp add: PTE_P_def PTE_W_def PTE_U_def)
  ultimately show ?thesis by blast
qed

theorem deallocuvm_frees_witness:
  "\<exists>s s'. mapped (mem s) 0x80400000 50 \<and> deallocuvm 0x80400000 4096 0 [] s = Ret 0 [] s' \<and>
     \<not> mapped (mem s') 0x80400000 50"
proof -
  obtain s fl m f where s: "user_ok s fl 0x80400000" "\<forall>va < 4096. mapped (mem s) 0x80400000 va"
    and "s = four_free\<lparr>mem := m, freelist := f\<rparr>"
    using one_page_process by blast
  then have k: "k_end s = 0x80200000" by (simp add: four_free_def)
  have r: "PGROUNDUP 0 = 0" "PGROUNDDOWN 50 = 0" by (simp_all add: PGROUNDUP_def PGROUNDDOWN_def PGSIZE_def)
  from deallocuvm_frees [OF s(1), of 0 4096 "[]"] k
  have "\<exists>s'. deallocuvm 0x80400000 4096 0 [] s = Ret 0 [] s' \<and> \<not> mapped (mem s') 0x80400000 50"
    unfolding r(1) by (auto simp: KERNBASE_def r(2))
  moreover have "mapped (mem s) 0x80400000 50" by (rule s(2) [rule_format]) simp
  ultimately show ?thesis by blast
qed

theorem copyuvm_from_copies_witness:
  "\<exists>s s'. copyuvm_from (2 ^ 20) 0x80401000 0x80400000 0 100 [] s = Ret 0x80401000 [] s' \<and>
     mapped (mem s') 0x80401000 50 \<and> ubyte (mem s') 0x80401000 50 = ubyte (mem s) 0x80400000 50"
proof -
  obtain s fl where s: "user_ok s fl 0x80401000" "2 \<le> length fl" "\<forall>va < 4096. mapped (mem s) 0x80400000 va"
    "\<forall>va. \<not> mapped (mem s) 0x80401000 va" "pgdir_ok s 0x80400000" "aside s fl 0x80401000 (own_pages (mem s) 0x80400000 100)"
    using one_page_process by blast
  have r: "PGROUNDUP 100 = 4096" by (simp add: PGROUNDUP_def PGSIZE_def)
  have "mapped (mem s) 0x80400000 va" if "va < 100" for va using s(3) that by (simp add: word_less_nat_alt)
  with copyuvm_from_copies [OF s(1) _ _ _ s(5) _ s(6), of "[]"] s(2,4)
  obtain s' where "copyuvm_from (2 ^ 20) 0x80401000 0x80400000 0 100 [] s = Ret 0x80401000 [] s'"
    "\<forall>va < 100. mapped (mem s') 0x80401000 va \<and> ubyte (mem s') 0x80401000 va = ubyte (mem s) 0x80400000 va"
    unfolding r by (auto simp: KERNBASE_def)
  moreover from this(2) have "mapped (mem s') 0x80401000 50 \<and> ubyte (mem s') 0x80401000 50 = ubyte (mem s) 0x80400000 50"
    by (rule allE [of _ 50]) simp
  ultimately show ?thesis by blast
qed

end
