(* ===== verification/Sigframe.thy ===== *)
theory Sigframe
  imports Signals Uvm
begin

text \<open>
  Signal frames on the user stack: what \<^verbatim>\<open>user_handler\<close> of \<^verbatim>\<open>proc.c\<close> leaves in the
  memory of a process, through its page table, and what \<^verbatim>\<open>sigret\<close> undoes.
\<close>

section \<open>User memory through the page table\<close>

text \<open>The address space that the processor uses.\<close>

definition uspace :: "kernel \<Rightarrow> uint list \<Rightarrow> uint \<Rightarrow> bool" where
  "uspace s fl d \<longleftrightarrow> user_ok s fl d \<and> P2V (hw_cr3 (hw s)) = d"

abbreviation ubytes :: "kernel \<Rightarrow> uint \<Rightarrow> 32 bytes" where
  "ubytes s d \<equiv> ubyte (mem s) d"

definition user_addr :: "kernel \<Rightarrow> uint \<Rightarrow> uint \<Rightarrow> bool" where
  "user_addr s d va \<longleftrightarrow> va < KERNBASE \<and> mapped (mem s) d va"

lemma uspace_simps:
  "uspace (s\<lparr>tframes := t\<rparr>) fl d = uspace s fl d" "uspace (s\<lparr>ptable := q\<rparr>) fl d = uspace s fl d"
  by (simp_all add: uspace_def user_ok_def space_ok_def pgdir_ok_def kmem_pool_def kmem_ok_def kmem_ready_def page_ok_def)

lemma virt_user:
  assumes "uspace s fl d" and "user_addr s d va"
  shows "virt s va = Some (frame (mem s) d va + page_off va)"
proof -
  have "\<not> KERNBASE \<le> va" using assms(2) by (auto simp: user_addr_def not_le)
  then show ?thesis
    using assms by (simp add: virt_def uspace_def user_addr_def mapped_def frame_def Let_def)
qed

lemma frame_inj:
  assumes u: "user_ok s fl d" and a: "user_addr s d va" and b: "user_addr s d vb"
    and eq: "frame (mem s) d va + page_off va = frame (mem s) d vb + page_off vb"
  shows "va = vb"
proof -
  note a = a [unfolded user_addr_def] and b = b [unfolded user_addr_def]
  have fe: "frame (mem s) d va = frame (mem s) d vb"
    using disjoint_page [OF user_okD(2) [OF u] user_okD(2) [OF u], of va vb] a b
      page_off_in_run [of "frame (mem s) d va" va] page_off_in_run [of "frame (mem s) d vb" vb] eq by metis
  then have "PGROUNDDOWN va = PGROUNDDOWN vb" using user_okD(5) [OF u] a b by blast
  moreover have "page_off va = page_off vb" using eq fe by simp
  ultimately show ?thesis using PGROUNDDOWN_plus_off by metis
qed

lemma user_store:
  assumes us: "uspace s fl d" and a: "user_addr s d va"
    and s': "s' = s\<lparr>mem := (mem s)(frame (mem s) d va + page_off va := b)\<rparr>"
  shows "uspace s' fl d" and "pte_of (mem s') d = pte_of (mem s) d"
    and "\<And>vb. user_addr s d vb \<Longrightarrow> ubytes s' d vb = (if vb = va then b else ubytes s d vb)"
proof -
  have u: "user_ok s fl d" using us by (simp add: uspace_def)
  note g = space_okE [OF user_okD(1) [OF u]]
  let ?f = "frame (mem s) d va"
  have f: "page_ok s ?f" "?f \<notin> set fl" "?f \<notin> vm_pages (mem s) d"
    using user_okD(2-4) [OF u] a by (auto simp: user_addr_def)
  have same: "same_on P (mem s) (mem s')" if P: "\<And>p. p \<in> P \<Longrightarrow> page_ok s p \<and> p \<noteq> ?f" for P
    unfolding same_on_def
  proof (intro ballI allI impI)
    fix p x assume "p \<in> P" "in_run p 4096 x"
    then have "x \<noteq> ?f + page_off va"
      using P disjoint_page [OF f(1)] page_off_in_run [of ?f va] by blast
    then show "mem s' x = mem s x" by (simp add: s')
  qed
  have sv: "same_on (vm_pages (mem s) d) (mem s) (mem s')" using g(6) f(3) by (intro same) auto
  have sf: "same_on (set fl) (mem s) (mem s')" using g(4) f(2) by (intro same) auto
  show pt: "pte_of (mem s') d = pte_of (mem s) d" using same_on_pte [OF sv] by blast
  have vm: "vm_pages (mem s') d = vm_pages (mem s) d" by (rule same_on_vm_pages [OF sv in_vm_pages(1)])
  have sp: "space_ok s' fl d"
    using pool_same_on [OF g(2) sf] same_on_pgdir_ok [OF sv in_vm_pages(1)] g(1,3) vm
    by (auto simp: space_ok_def s')
  have fr: "frame (mem s') d = frame (mem s) d" and mp: "mapped (mem s') d = mapped (mem s) d"
    by (simp_all add: frame_def mapped_def pt fun_eq_iff)
  have pk: "page_ok s' = page_ok s" by (simp add: s')
  have "user_ok s' fl d"
    unfolding user_ok_def vm fr mp pk
    by (rule conjI [OF sp u [unfolded user_ok_def, THEN conjunct2]])
  then show "uspace s' fl d" using us by (simp add: uspace_def s')
  show "ubytes s' d vb = (if vb = va then b else ubytes s d vb)" if "user_addr s d vb" for vb
    using frame_inj [OF u a that] unfolding ubyte_def fr by (auto simp: s')
qed

lemma vload_user:
  assumes "uspace s fl d" and "\<And>i. i < n \<Longrightarrow> user_addr s d (va + of_nat i)"
  shows "vload va n env s = Ret (read_bytes (ubytes s d) va n) env s"
  using assms(2)
proof (induction n arbitrary: va)
  case 0
  then show ?case by (simp add: read_bytes_def)
next
  case (Suc n)
  have "user_addr s d va" using Suc.prems [of 0] by simp
  then have "vload8 va env s = Ret (ubytes s d va) env s"
    using virt_user [OF assms(1)] by (simp add: vload8_def ubyte_def)
  moreover have "vload (va + 1) n env s = Ret (read_bytes (ubytes s d) (va + 1) n) env s"
    using Suc.prems [of "Suc i" for i] by (intro Suc.IH) (simp add: add.assoc)
  moreover have "read_bytes (ubytes s d) va (Suc n) = ubytes s d va # read_bytes (ubytes s d) (va + 1) n"
    using read_bytes_append [of "ubytes s d" va 1 n] by (simp add: read_bytes_def)
  ultimately show ?case by (simp add: kbind_apply)
qed

text \<open>What a store through the page table does, seen by the process.\<close>

definition uwrites :: "kernel \<Rightarrow> uint \<Rightarrow> uint \<Rightarrow> uchar list \<Rightarrow> kernel \<Rightarrow> bool" where
  "uwrites s d va bs s' \<longleftrightarrow> (\<exists>m. s' = s\<lparr>mem := m\<rparr>) \<and> pte_of (mem s') d = pte_of (mem s) d \<and>
     (\<forall>vb. user_addr s d vb \<longrightarrow> ubytes s' d vb = write_bytes (ubytes s d) va bs vb)"

lemma user_addr_cong: "pte_of (mem s') d = pte_of (mem s) d \<Longrightarrow> user_addr s' d = user_addr s d"
  by (simp add: user_addr_def mapped_def fun_eq_iff)

lemma vstore_user:
  assumes "uspace s fl d" and "\<And>i. i < length bs \<Longrightarrow> user_addr s d (va + of_nat i)" and "length bs < 4294967296"
  shows "\<exists>s'. vstore va bs env s = Ret () env s' \<and> uspace s' fl d \<and> uwrites s d va bs s'"
  using assms
proof (induction bs arbitrary: va s)
  case Nil
  then show ?case by (auto simp: uwrites_def intro!: exI [of _ "mem s"])
next
  case (Cons b bs)
  have a: "user_addr s d va" using Cons.prems(2) [of 0] by simp
  let ?s1 = "s\<lparr>mem := (mem s)(frame (mem s) d va + page_off va := b)\<rparr>"
  note st = user_store [OF Cons.prems(1) a refl, where b = b]
  have v8: "vstore8 va b env s = Ret () env ?s1"
    using virt_user [OF Cons.prems(1) a] by (simp add: vstore8_def)
  have "user_addr ?s1 d (va + 1 + of_nat i)" if "i < length bs" for i
    using Cons.prems(2) [of "Suc i"] that user_addr_cong [OF st(2)] by (simp add: add.assoc)
  with Cons.IH [OF st(1), of "va + 1"] Cons.prems(3) obtain s' where
    r: "vstore (va + 1) bs env ?s1 = Ret () env s'" "uspace s' fl d" "uwrites ?s1 d (va + 1) bs s'" by auto
  have "ubytes s' d vb = write_bytes (ubytes s d) va (b # bs) vb" if "user_addr s d vb" for vb
  proof -
    have "ubytes s' d vb = write_bytes (ubytes ?s1 d) (va + 1) bs vb"
      using r(3) that user_addr_cong [OF st(2)] by (simp add: uwrites_def)
    also have "\<dots> = write_bytes ((ubytes s d)(va := b)) (va + 1) bs vb"
      using st(3) [OF that] by (simp add: write_bytes_def)
    also have "\<dots> = write_bytes (ubytes s d) va (b # bs) vb"
      using Cons.prems(3) by (subst write_bytes_Cons) simp_all
    finally show ?thesis .
  qed
  moreover have "pte_of (mem s') d = pte_of (mem s) d" using r(3) st(2) by (simp add: uwrites_def)
  moreover have "\<exists>m. s' = s\<lparr>mem := m\<rparr>" using r(3) by (auto simp: uwrites_def)
  ultimately have "uwrites s d va (b # bs) s'" by (simp add: uwrites_def)
  with r(1,2) v8 show ?case by (auto simp: kthen_apply)
qed

lemma write_bytes_cong: "m x = m' x \<Longrightarrow> write_bytes m a bs x = write_bytes m' a bs x"
  by (simp add: write_bytes_def)

lemma write_bytes_front:
  fixes a :: uint
  assumes "length bs + length cs < 4294967296"
  shows "write_bytes (write_bytes m (a + of_nat (length bs)) cs) a bs = write_bytes m a (bs @ cs)"
proof
  fix x
  show "write_bytes (write_bytes m (a + of_nat (length bs)) cs) a bs x = write_bytes m a (bs @ cs) x"
  proof (cases "unat (x - a) < length bs")
    case True
    then show ?thesis by (simp add: write_bytes_def nth_append)
  next
    case False
    have n: "unat (of_nat (length bs) :: uint) = length bs" using assms by (intro unat_of_nat_small) simp
    then have "(of_nat (length bs) :: uint) \<le> x - a" using False by (simp add: word_le_nat_alt)
    then have "unat (x - a - of_nat (length bs)) = unat (x - a) - length bs" by (simp add: unat_sub n)
    with False show ?thesis by (auto simp: write_bytes_def nth_append diff_diff_eq)
  qed
qed

section \<open>Entering a user handler\<close>

text \<open>
  The state after \<^verbatim>\<open>user_handler\<close> has saved the trap frame and the mask, but for the user
  stack.
\<close>

definition handler_frame :: "proc \<Rightarrow> nat \<Rightarrow> kernel \<Rightarrow> trapframe" where
  "handler_frame x sig s = (tframes s (p_tf x))\<lparr>
     tf_esp := tf_esp (tframes s (p_tf x)) - of_nat (length (sigret_code s)) - 8, tf_eip := p_sig_handlers x sig\<rparr>"

definition sig_stack :: "proc \<Rightarrow> nat \<Rightarrow> kernel \<Rightarrow> uchar list" where
  "sig_stack x sig s = le_bytes32 (tf_esp (tframes s (p_tf x)) - of_nat (length (sigret_code s))) @
     le_bytes32 (of_nat sig) @ sigret_code s"

lemma length_sig_stack [simp]: "length (sig_stack x sig s) = 8 + length (sigret_code s)"
  by (simp add: sig_stack_def)

definition saved_proc :: "proc \<Rightarrow> nat \<Rightarrow> kernel \<Rightarrow> uint \<Rightarrow> proc" where
  "saved_proc x sig s d = x\<lparr>p_tf_backup := p_kstack x, p_sigmask := load32 (ubytes s d) (p_sig_handlers x sig + 4),
     p_sigmask_backup := p_sigmask x\<rparr>"

definition handler_state :: "kernel \<Rightarrow> nat \<Rightarrow> proc \<Rightarrow> proc \<Rightarrow> 32 bytes \<Rightarrow> trapframe \<Rightarrow> kernel" where
  "handler_state s p x y m t = s\<lparr>mem := m, tframes := (tframes s)(p_kstack x := tframes s (p_tf x), p_tf x := t),
     ptable := (ptable s)(p := y)\<rparr>"

lemma handler_state_simps:
  "(handler_state s p x y m t)\<lparr>mem := m'\<rparr> = handler_state s p x y m' t" "mem (handler_state s p x y m t) = m"
  "tframes (handler_state s p x y m t) (p_tf x) = t" "sigret_code (handler_state s p x y m t) = sigret_code s"
  "p_kstack x \<noteq> p_tf x \<Longrightarrow> upd_tf (p_tf x) f env (handler_state s p x y m t) = Ret () env (handler_state s p x y m (f t))"
  "uspace (handler_state s p x y (mem s) t) fl d = uspace s fl d"
  "uspace (handler_state s p x y m t) fl d = uspace (handler_state s p x y m t') fl d"
  by (simp_all add: handler_state_def upd_tf_def uspace_simps fun_upd_twist)

lemma handler_store:
  assumes "uspace (handler_state s p x y m t) fl d" and "pte_of m d = pte_of (mem s) d" and "length bs < 4294967296"
    and "\<And>i. i < length bs \<Longrightarrow> user_addr s d (va + of_nat i)"
  shows "\<exists>m'. vstore va bs env (handler_state s p x y m t) = Ret () env (handler_state s p x y m' t) \<and>
    uspace (handler_state s p x y m' t) fl d \<and> pte_of m' d = pte_of (mem s) d \<and>
    (\<forall>vb. user_addr s d vb \<longrightarrow> ubyte m' d vb = write_bytes (ubyte m d) va bs vb)"
proof -
  let ?B = "handler_state s p x y m t"
  have ua: "user_addr ?B d = user_addr s d" by (rule user_addr_cong) (simp add: handler_state_simps assms(2))
  from vstore_user [OF assms(1) _ assms(3), of va env] assms(4)
  obtain s' where r: "vstore va bs env ?B = Ret () env s'" "uspace s' fl d" "uwrites ?B d va bs s'"
    unfolding ua by blast
  from r(3) obtain m' where m': "s' = handler_state s p x y m' t" unfolding uwrites_def handler_state_simps by blast
  from r assms(2) show ?thesis unfolding uwrites_def ua m' handler_state_simps(2) by (intro exI [of _ m']) simp
qed

lemma handler_saves:
  assumes us: "uspace s fl d" and x: "x = ptable s p" and ks: "p_kstack x \<noteq> p_tf x"
    and h: "\<And>i. i < 4 \<Longrightarrow> user_addr s d (p_sig_handlers x sig + 4 + of_nat i)"
    and s2: "s2 = set_proc p (x\<lparr>p_tf_backup := p_kstack x\<rparr>) (s\<lparr>tframes := (tframes s)(p_kstack x := tframes s (p_tf x))\<rparr>)"
  shows "vload32 (p_sig_handlers x sig + 4) env s2 = Ret (load32 (ubytes s d) (p_sig_handlers x sig + 4)) env s2"
    and "set_proc p (saved_proc x sig s d) (s\<lparr>tframes := (tframes s)(p_kstack x := tframes s (p_tf x))\<rparr>) =
      handler_state s p x (saved_proc x sig s d) (mem s) (tframes s (p_tf x))"
proof -
  have m: "mem s2 = mem s" by (simp add: s2)
  have "uspace s2 fl d" using us unfolding s2 set_proc_def by (simp add: uspace_simps)
  moreover have "user_addr s2 d = user_addr s d" by (rule user_addr_cong) (simp add: m)
  ultimately show "vload32 (p_sig_handlers x sig + 4) env s2 = Ret (load32 (ubytes s d) (p_sig_handlers x sig + 4)) env s2"
    using vload_user [of s2 fl d 4 "p_sig_handlers x sig + 4" env] h
    by (simp add: vload32_def kbind_apply load32_def m)
  show "set_proc p (saved_proc x sig s d) (s\<lparr>tframes := (tframes s)(p_kstack x := tframes s (p_tf x))\<rparr>) =
      handler_state s p x (saved_proc x sig s d) (mem s) (tframes s (p_tf x))"
    using ks by (simp add: set_proc_def handler_state_def fun_upd_idem)
qed

lemma user_handler_exec:
  assumes us: "uspace s fl d" and cpu: "cpu_ok (hw s)" "cur_proc (hw s) = Some p" and x: "x = ptable s p"
    and len: "length (sigret_code s) < 4096"
    and esp: "esp = tf_esp (handler_frame x sig s)"
    and stack: "\<And>i. i < length (sig_stack x sig s) \<Longrightarrow> user_addr s d (esp + of_nat i)"
    and h: "\<And>i. i < 4 \<Longrightarrow> user_addr s d (p_sig_handlers x sig + 4 + of_nat i)"
    and ks: "p_kstack x \<noteq> p_tf x"
  shows "\<exists>m. user_handler p sig env s = Ret () env (handler_state s p x (saved_proc x sig s d) m (handler_frame x sig s)) \<and>
    uspace (handler_state s p x (saved_proc x sig s d) m (handler_frame x sig s)) fl d \<and> pte_of m d = pte_of (mem s) d \<and>
    (\<forall>vb. user_addr s d vb \<longrightarrow> ubyte m d vb = write_bytes (ubytes s d) esp (sig_stack x sig s) vb)"
proof -
  let ?t = "tframes s (p_tf x)" and ?code = "sigret_code s" and ?B = "handler_state s p x (saved_proc x sig s d)"
  define esp1 esp2 where "esp1 = tf_esp ?t - of_nat (length ?code)" and "esp2 = esp1 - 4"
  note hs = handler_state_simps and sv = handler_saves [OF us x ks h refl]
  have e: "tf_esp ?t - of_nat (length ?code) = esp1" "esp1 - 4 = esp2" "esp2 - 4 = esp" "esp + 4 = esp2" "esp + 8 = esp1" "esp2 + 4 = esp1"
    by (simp_all add: esp handler_frame_def esp1_def esp2_def)
  have hf: "handler_frame x sig s = ?t\<lparr>tf_esp := esp, tf_eip := p_sig_handlers x sig\<rparr>"
    by (simp add: esp handler_frame_def)
  have a0: "user_addr s d (esp + of_nat i)" if "i < 8 + length ?code" for i using stack that by simp
  have a1: "user_addr s d (esp1 + of_nat i)" if "i < length ?code" for i
    using a0 [of "8 + i"] that by (simp add: e(5) [symmetric] add.assoc)
  have a2: "user_addr s d (esp2 + of_nat i)" if "i < 4" for i
    using a0 [of "4 + i"] that by (simp add: e(4) [symmetric] add.assoc)
  have u0: "uspace (?B (mem s) (?t\<lparr>tf_esp := esp1\<rparr>)) fl d" using us by (simp add: hs(6))
  from handler_store [OF u0 refl, of ?code esp1 env] len a1 obtain m1 where
    m1: "vstore esp1 ?code env (?B (mem s) (?t\<lparr>tf_esp := esp1\<rparr>)) = Ret () env (?B m1 (?t\<lparr>tf_esp := esp1\<rparr>))"
    "uspace (?B m1 (?t\<lparr>tf_esp := esp2\<rparr>)) fl d" "pte_of m1 d = pte_of (mem s) d"
    "\<forall>vb. user_addr s d vb \<longrightarrow> ubyte m1 d vb = write_bytes (ubytes s d) esp1 ?code vb"
    unfolding hs(7) [of s p x _ _ "?t\<lparr>tf_esp := esp1\<rparr>" fl d "?t\<lparr>tf_esp := esp2\<rparr>"] by auto
  from handler_store [OF m1(2,3), of "le_bytes32 (of_nat sig)" esp2 env] a2 obtain m2 where
    m2: "vstore esp2 (le_bytes32 (of_nat sig)) env (?B m1 (?t\<lparr>tf_esp := esp2\<rparr>)) = Ret () env (?B m2 (?t\<lparr>tf_esp := esp2\<rparr>))"
    "uspace (?B m2 (?t\<lparr>tf_esp := esp\<rparr>)) fl d" "pte_of m2 d = pte_of (mem s) d"
    "\<forall>vb. user_addr s d vb \<longrightarrow> ubyte m2 d vb = write_bytes (ubyte m1 d) esp2 (le_bytes32 (of_nat sig)) vb"
    unfolding hs(7) [of s p x _ _ "?t\<lparr>tf_esp := esp2\<rparr>" fl d "?t\<lparr>tf_esp := esp\<rparr>"] by auto
  from handler_store [OF m2(2,3), of "le_bytes32 esp1" esp env] a0 obtain m3 where
    m3: "vstore esp (le_bytes32 esp1) env (?B m2 (?t\<lparr>tf_esp := esp\<rparr>)) = Ret () env (?B m3 (?t\<lparr>tf_esp := esp\<rparr>))"
    "uspace (?B m3 (handler_frame x sig s)) fl d" "pte_of m3 d = pte_of (mem s) d"
    "\<forall>vb. user_addr s d vb \<longrightarrow> ubyte m3 d vb = write_bytes (ubyte m2 d) esp (le_bytes32 esp1) vb"
    unfolding hs(7) [of s p x _ _ "?t\<lparr>tf_esp := esp\<rparr>" fl d "handler_frame x sig s"] by auto
  have "user_handler p sig env s = Ret () env (?B m3 (handler_frame x sig s))"
    using cpu sv(1) m1(1) m2(1) m3(1) sv(2) [unfolded saved_proc_def]
    by (simp add: user_handler_def kbind_apply kthen_apply exec sigprocmask_def vstore32_def x [symmetric] hs(3,4)
        hs(5) [OF ks] UINT_SIZE_def e hf saved_proc_def)
  moreover have "ubyte m3 d vb = write_bytes (ubytes s d) esp (sig_stack x sig s) vb" if "user_addr s d vb" for vb
  proof -
    have "ubyte m3 d vb = write_bytes (write_bytes (write_bytes (ubytes s d) esp1 ?code) esp2 (le_bytes32 (of_nat sig)))
        esp (le_bytes32 esp1) vb"
      using m1(4) m2(4) m3(4) that by (simp add: write_bytes_def)
    also have "\<dots> = write_bytes (ubytes s d) esp (sig_stack x sig s) vb"
      using len e(6) write_bytes_front [of "le_bytes32 (of_nat sig)" ?code "ubytes s d" esp2]
        write_bytes_front [of "le_bytes32 esp1" "le_bytes32 (of_nat sig) @ ?code" "ubytes s d" esp]
      by (simp add: e(1,4,6) sig_stack_def)
    finally show ?thesis .
  qed
  ultimately show ?thesis using m3(2,3) by blast
qed

text \<open>A process that can enter the handler of a signal.\<close>

definition can_enter :: "kernel \<Rightarrow> uint list \<Rightarrow> uint \<Rightarrow> nat \<Rightarrow> nat \<Rightarrow> bool" where
  "can_enter s fl d p sig \<longleftrightarrow> uspace s fl d \<and> cpu_ok (hw s) \<and> cur_proc (hw s) = Some p \<and>
     length (sigret_code s) < 4096 \<and> p_kstack (ptable s p) \<noteq> p_tf (ptable s p) \<and>
     (\<forall>i < 8 + length (sigret_code s). user_addr s d (tf_esp (handler_frame (ptable s p) sig s) + of_nat i)) \<and>
     (\<forall>i < 4. user_addr s d (p_sig_handlers (ptable s p) sig + 4 + of_nat i))"

lemma user_handler_enters:
  assumes c: "can_enter s fl d p sig" and x: "x = ptable s p"
  shows "\<exists>m. user_handler p sig env s = Ret () env (handler_state s p x (saved_proc x sig s d) m (handler_frame x sig s)) \<and>
    uspace (handler_state s p x (saved_proc x sig s d) m (handler_frame x sig s)) fl d \<and> pte_of m d = pte_of (mem s) d \<and>
    (\<forall>vb. user_addr s d vb \<longrightarrow> ubyte m d vb = write_bytes (ubytes s d) (tf_esp (handler_frame x sig s)) (sig_stack x sig s) vb)"
  using c unfolding can_enter_def x [symmetric] by (intro user_handler_exec [OF _ _ _ x]) simp_all

lemma saved_proc_simps [simp]:
  "p_tf (saved_proc x sig s d) = p_tf x" "p_kstack (saved_proc x sig s d) = p_kstack x"
  "p_tf_backup (saved_proc x sig s d) = p_kstack x" "p_sigmask_backup (saved_proc x sig s d) = p_sigmask x"
  "p_psignals (saved_proc x sig s d) = p_psignals x" "p_sig_handlers (saved_proc x sig s d) = p_sig_handlers x"
  by (simp_all add: saved_proc_def)

lemma handler_state_simps2:
  "ptable (handler_state s p x y m t) p = y" "hw (handler_state s p x y m t) = hw s"
  "p_kstack x \<noteq> p_tf x \<Longrightarrow> tframes (handler_state s p x y m t) (p_kstack x) = tframes s (p_tf x)"
  by (simp_all add: handler_state_def)

section \<open>Returning from a handler\<close>

lemma handle_signals_idle:
  assumes "cpu_ok (hw s)" and "cur_proc (hw s) = Some p" and "p_psignals (ptable s p) = 0"
  shows "handle_signals tf env s = Ret () env s"
proof -
  have "kfor ns (deliver_one p) env s = Ret () env s" if "set ns \<subseteq> {..<32}" for ns
    using that
  proof (induction ns)
    case (Cons n ns)
    then show ?case using deliver_one_cases(1) [of n s p env] assms(3) by (simp add: kthen_apply)
  qed simp
  moreover have "set [SIG_MIN..<Suc SIG_MAX] \<subseteq> {..<32}" by (auto simp: SIG_MIN_def SIG_MAX_def)
  moreover have "myproc env s = Ret (Some p) env s" using assms(1,2) by (simp add: exec cur_proc_def)
  ultimately show ?thesis by (simp add: handle_signals_def kbind_apply)
qed

lemma sigret_exec:
  assumes "cpu_ok (hw s)" and "cur_proc (hw s) = Some p" and "p_psignals (ptable s p) = 0" and x: "x = ptable s p"
  shows "sigret env s = Ret 0 env (set_proc p (x\<lparr>p_sigmask := p_sigmask_backup x\<rparr>)
    (s\<lparr>tframes := (tframes s)(p_tf x := tframes s (p_tf_backup x))\<rparr>))"
  using assms by (simp add: sigret_def kbind_apply kthen_apply exec handle_signals_idle [of _ p] set_proc_def)

section \<open>Properties\<close>

text \<open>C24: Delivering a signal to a user handler: the process will go on at the handler, with its stack
  pointer at a frame that holds, upwards, the address to return to, the signal number, and at that
  address the code that calls \<^verbatim>\<open>sigret\<close>; no other byte of the process changes. The interrupted
  trap frame and the signal mask are saved, and the mask in force is the word after the first four
  bytes of the handler's code.\<close>

theorem user_handler_frame:
  assumes "can_enter s fl d p sig" and "x = ptable s p" and "t = tframes s (p_tf x)"
    and "sp = tf_esp t - of_nat (length (sigret_code s)) - 8"
  shows "\<exists>s'. user_handler p sig env s = Ret () env s' \<and>
    tframes s' (p_tf x) = t\<lparr>tf_esp := sp, tf_eip := p_sig_handlers x sig\<rparr> \<and>
    load32 (ubytes s' d) sp = sp + 8 \<and> load32 (ubytes s' d) (sp + 4) = of_nat sig \<and>
    read_bytes (ubytes s' d) (sp + 8) (length (sigret_code s)) = sigret_code s \<and>
    (\<forall>va. user_addr s d va \<longrightarrow> \<not> in_run sp (8 + length (sigret_code s)) va \<longrightarrow> ubytes s' d va = ubytes s d va) \<and>
    tframes s' (p_kstack x) = t \<and> p_tf_backup (ptable s' p) = p_kstack x \<and>
    p_sigmask_backup (ptable s' p) = p_sigmask x \<and>
    p_sigmask (ptable s' p) = load32 (ubytes s d) (p_sig_handlers x sig + 4)"
proof -
  let ?L = "length (sigret_code s)" and ?st = "sig_stack x sig s"
  have ks: "p_kstack x \<noteq> p_tf x" and len: "?L < 4096" using assms(1,2) by (auto simp: can_enter_def)
  have sp: "sp = tf_esp (handler_frame x sig s)" by (simp add: handler_frame_def assms(3,4))
  have hf: "handler_frame x sig s = t\<lparr>tf_esp := sp, tf_eip := p_sig_handlers x sig\<rparr>"
    by (simp add: handler_frame_def assms(3,4))
  from user_handler_enters [OF assms(1,2), of env] obtain m where
    r: "user_handler p sig env s = Ret () env (handler_state s p x (saved_proc x sig s d) m (handler_frame x sig s))"
    and b: "\<And>vb. user_addr s d vb \<Longrightarrow> ubyte m d vb = write_bytes (ubytes s d) sp ?st vb"
    unfolding sp by blast
  have rd: "read_bytes (ubyte m d) (sp + of_nat i) n = List.take n (List.drop i ?st)" if "i + n \<le> 8 + ?L" for i n
  proof (rule nth_equalityI)
    show "length (read_bytes (ubyte m d) (sp + of_nat i) n) = length (List.take n (List.drop i ?st))" using that by simp
    fix j assume "j < length (read_bytes (ubyte m d) (sp + of_nat i) n)"
    then have j: "j < n" by simp
    have "user_addr s d (sp + of_nat (i + j))"
      using assms(1) j that unfolding can_enter_def assms(2) [symmetric] sp [symmetric] by (simp del: of_nat_add)
    from b [OF this] show "read_bytes (ubyte m d) (sp + of_nat i) n ! j = List.take n (List.drop i ?st) ! j"
      using j that len write_bytes_inside [of "i + j" ?st "ubytes s d" sp] by (simp add: add.assoc)
  qed
  have "sp + 8 = tf_esp t - of_nat ?L" by (simp add: assms(4))
  then have st: "?st = le_bytes32 (sp + 8) @ le_bytes32 (of_nat sig) @ sigret_code s"
    by (simp add: sig_stack_def assms(3))
  have "load32 (ubyte m d) sp = sp + 8" "load32 (ubyte m d) (sp + 4) = of_nat sig"
    "read_bytes (ubyte m d) (sp + 8) ?L = sigret_code s"
    using rd [of 0 4] rd [of 4 4] rd [of 8 ?L] by (simp_all add: load32_def st)
  moreover have "ubyte m d va = ubytes s d va" if "user_addr s d va" "\<not> in_run sp (8 + ?L) va" for va
    using b [OF that(1)] that(2) by (simp add: write_bytes_outside)
  ultimately show ?thesis
    using r ks by (intro exI [of _ "handler_state s p x (saved_proc x sig s d) m (handler_frame x sig s)"])
      (simp add: handler_state_simps handler_state_simps2 hf assms(3), simp add: saved_proc_def)
qed



text \<open>A process with one page, about to receive signals whose handler is at address 100.\<close>

definition sig_proc :: proc where
  "sig_proc = zero_proc\<lparr>p_state := RUNNING, p_kstack := 0x80500000, p_tf := 0x80500fb4, p_sig_handlers := (\<lambda>_. 100)\<rparr>"

definition sig_kernel :: "kernel \<Rightarrow> kernel" where
  "sig_kernel s = s\<lparr>hw := proc_hw\<lparr>hw_cr3 := 0x400000\<rparr>, ptable := (\<lambda>_. sig_proc),
     tframes := (\<lambda>_. zero_tf\<lparr>tf_esp := 2048, tf_eip := 4\<rparr>)\<rparr>"

lemma proc_hw_cr3 [simp]:
  "cpu_ok (proc_hw\<lparr>hw_cr3 := c\<rparr>) = cpu_ok proc_hw" "cur_proc (proc_hw\<lparr>hw_cr3 := c\<rparr>) = cur_proc proc_hw"
  by (simp_all add: cpu_ok_def cur_proc_def cpu_of_def cur_cpu_def split: option.split)

lemma small_enter:
  assumes "uspace s fl d" and "cpu_ok (hw s)" "cur_proc (hw s) = Some p" and "length (sigret_code s) = 7"
    and "p_kstack (ptable s p) \<noteq> p_tf (ptable s p)" and "p_sig_handlers (ptable s p) sig = 100"
    and "tf_esp (tframes s (p_tf (ptable s p))) = of_nat e" and "15 \<le> e" and "e \<le> 4096"
    and "\<And>va. va < 4096 \<Longrightarrow> user_addr s d va"
  shows "can_enter s fl d p sig"
proof -
  have lt: "(of_nat n :: uint) < 4096" if "n < 4096" for n
    using that by (simp add: word_less_nat_alt unat_of_nat_small)
  have "tf_esp (handler_frame (ptable s p) sig s) + of_nat i = of_nat (e - 15 + i)" for i
    using assms(4,7,8) by (simp add: handler_frame_def of_nat_diff)
  then have "user_addr s d (tf_esp (handler_frame (ptable s p) sig s) + of_nat i)" if "i < 15" for i
    using that assms(8,9) by (simp only:) (rule assms(10), rule lt, simp)
  moreover have "user_addr s d (100 + 4 + of_nat i)" if "i < 4" for i
    using assms(10) [of "104 + of_nat i"] lt [of "104 + i"] that by simp
  ultimately show ?thesis using assms(1-6) by (simp add: can_enter_def)
qed

lemma sig_kernel_user: "\<not> use_lock s \<Longrightarrow> user_ok (sig_kernel s) fl d = user_ok s fl d"
  by (simp add: user_ok_def space_ok_def pgdir_ok_def kmem_pool_def kmem_ok_def kmem_ready_def page_ok_def sig_kernel_def)

lemma sig_kernel_ready:
  "\<exists>s fl. s = sig_kernel s \<and> uspace s fl 0x80400000 \<and> length (sigret_code s) = 7 \<and>
     (\<forall>va < 4096. user_addr s 0x80400000 va)"
proof -
  obtain s fl m f where s: "user_ok s fl 0x80400000" "\<forall>va < 4096. mapped (mem s) 0x80400000 va"
    and e: "s = four_free\<lparr>mem := m, freelist := f\<rparr>"
    using one_page_process by blast
  have l: "\<not> use_lock s" "sigret_code s = sigret_code boot_kernel"
    by (simp_all add: e four_free_def free_page_def)
  have "user_ok (sig_kernel s) fl 0x80400000"
    using s(1) unfolding sig_kernel_user [of s fl, OF l(1)] .
  then have "uspace (sig_kernel s) fl 0x80400000" by (simp add: uspace_def sig_kernel_def P2V_def KERNBASE_def)
  moreover have "user_addr (sig_kernel s) 0x80400000 va" if "va < 4096" for va
    using s(2) that by (simp add: user_addr_def sig_kernel_def KERNBASE_def word_less_nat_alt)
  moreover have "length (sigret_code (sig_kernel s)) = 7" by (simp add: sig_kernel_def l(2) boot_kernel_def)
  moreover have "sig_kernel s = sig_kernel (sig_kernel s)" by (simp add: sig_kernel_def)
  ultimately show ?thesis by blast
qed

lemma sig_kernel_fields:
  assumes "s = sig_kernel s"
  shows "hw s = proc_hw\<lparr>hw_cr3 := 0x400000\<rparr>" and "ptable s p = sig_proc"
    and "tframes s a = zero_tf\<lparr>tf_esp := 2048, tf_eip := 4\<rparr>"
proof -
  have "hw s = hw (sig_kernel s)" using assms by (rule arg_cong)
  also have "\<dots> = proc_hw\<lparr>hw_cr3 := 0x400000\<rparr>" by (simp add: sig_kernel_def)
  finally show "hw s = proc_hw\<lparr>hw_cr3 := 0x400000\<rparr>" .
  have "ptable s = ptable (sig_kernel s)" using assms by (rule arg_cong)
  also have "\<dots> = (\<lambda>_. sig_proc)" by (simp add: sig_kernel_def)
  finally show "ptable s p = sig_proc" by simp
  have "tframes s = tframes (sig_kernel s)" using assms by (rule arg_cong)
  also have "\<dots> = (\<lambda>_. zero_tf\<lparr>tf_esp := 2048, tf_eip := 4\<rparr>)" by (simp add: sig_kernel_def)
  finally show "tframes s a = zero_tf\<lparr>tf_esp := 2048, tf_eip := 4\<rparr>" by simp
qed

lemma sig_kernel_enter:
  "\<exists>s fl. s = sig_kernel s \<and> can_enter s fl 0x80400000 0 sig \<and> length (sigret_code s) = 7 \<and>
     (\<forall>va < 4096. user_addr s 0x80400000 va)"
proof -
  obtain s fl where s: "s = sig_kernel s" "uspace s fl 0x80400000" "length (sigret_code s) = 7"
    "\<forall>va < 4096. user_addr s 0x80400000 va" using sig_kernel_ready by blast
  note f = sig_kernel_fields [OF s(1)]
  have "can_enter s fl 0x80400000 0 sig"
    by (rule small_enter [OF s(2), where e = 2048]) (use s(3,4) in \<open>simp_all add: f sig_proc_def\<close>)
  with s show ?thesis by blast
qed

theorem user_handler_frame_witness:
  "\<exists>s s'. user_handler 0 5 [] s = Ret () [] s' \<and> tf_eip (tframes s' 0x80500fb4) = 100 \<and>
     load32 (ubytes s' 0x80400000) 2033 = 2041 \<and> load32 (ubytes s' 0x80400000) 2037 = 5"
proof -
  obtain s fl where s: "s = sig_kernel s" "can_enter s fl 0x80400000 0 5" "length (sigret_code s) = 7"
    using sig_kernel_enter by blast
  note f = sig_kernel_fields [OF s(1)]
  from user_handler_frame [OF s(2) refl refl refl, of "[]"] obtain s' where
    "user_handler 0 5 [] s = Ret () [] s'" "tf_eip (tframes s' 0x80500fb4) = 100"
    "load32 (ubytes s' 0x80400000) 2033 = 2041" "load32 (ubytes s' 0x80400000) 2037 = 5"
    unfolding f s(3) by (auto simp: sig_proc_def)
  then show ?thesis by (intro exI conjI)
qed



end
