(* ===== verification/Blockdev.thy ===== *)
theory Blockdev
  imports Kernel_State
begin

text \<open>
  The contract of a block device behind a cache, as the log and the file system rely on it. A
  reader gets a buffer of its own for a block, may change it, write it through, and gives it
  back; a changed block is written before it is given back, unless it is marked to stay in the
  cache. The contract is stated on a view of the state; the lemmas show what the usual
  sequences of calls do to that view.
\<close>

text \<open>
  What the users of the cache see: the contents a read returns, the disk and the writes it has
  had, the blocks that must stay in the cache, and the buffers the process has with their blocks.
\<close>

record bview =
  bv_data :: "uint \<Rightarrow> block"
  bv_disk :: "uint \<Rightarrow> block"
  bv_writes :: "(uint \<times> block) list"
  bv_dirty :: "uint set"
  bv_held :: "nat \<Rightarrow> uint option"

definition bv_room :: "nat \<Rightarrow> uint \<Rightarrow> bview \<Rightarrow> bool" where
  "bv_room cap n v \<longleftrightarrow> n \<in> bv_dirty v \<or> card (bv_dirty v \<union> ran (bv_held v)) < cap"

definition bv_hold :: "nat \<Rightarrow> uint \<Rightarrow> bview \<Rightarrow> bview" where
  "bv_hold b n v = v\<lparr>bv_held := (bv_held v)(b := Some n)\<rparr>"

definition bv_drop :: "nat \<Rightarrow> bview \<Rightarrow> bview" where
  "bv_drop b v = v\<lparr>bv_held := (bv_held v)(b := None)\<rparr>"

definition bv_put :: "uint \<Rightarrow> block \<Rightarrow> bview \<Rightarrow> bview" where
  "bv_put n x v = v\<lparr>bv_data := (bv_data v)(n := x)\<rparr>"

definition bv_write :: "uint \<Rightarrow> bview \<Rightarrow> bview" where
  "bv_write n v = v\<lparr>bv_disk := (bv_disk v)(n := bv_data v n), bv_writes := bv_writes v @ [(n, bv_data v n)],
     bv_dirty := bv_dirty v - {n}\<rparr>"

definition bv_clean :: "uint \<Rightarrow> bview \<Rightarrow> bool" where
  "bv_clean n v \<longleftrightarrow> bv_data v n = bv_disk v n"

text \<open>Copying one block over another.\<close>

definition disk_after :: "(uint \<Rightarrow> block) \<Rightarrow> (uint \<times> block) list \<Rightarrow> uint \<Rightarrow> block" where
  "disk_after d ws = fold (\<lambda>(n, x) d. d(n := x)) ws d"

lemma disk_after_simps [simp]:
  "disk_after d [] = d" "disk_after d (w # ws) = disk_after (d(fst w := snd w)) ws"
  "disk_after d (ws @ us) = disk_after (disk_after d ws) us"
  by (simp_all add: disk_after_def case_prod_beta)

lemma disk_after_other: "n \<notin> fst ` set ws \<Longrightarrow> disk_after d ws n = d n"
  by (induction ws arbitrary: d) auto

lemma disk_after_one:
  assumes "n \<in> fst ` set ws" and "\<And>w. w \<in> set ws \<Longrightarrow> fst w = n \<Longrightarrow> snd w = x"
  shows "disk_after d ws n = x"
  using assms
proof (induction ws rule: rev_induct)
  case (snoc w ws)
  show ?case
  proof (cases "fst w = n")
    case True
    then show ?thesis using snoc.prems(2) [of w] by simp
  next
    case False
    then show ?thesis using snoc.IH snoc.prems by simp
  qed
qed simp

text \<open>The view after a list of blocks has been written through.\<close>

definition written :: "(uint \<times> block) list \<Rightarrow> bview \<Rightarrow> bview" where
  "written ws v = v\<lparr>bv_data := disk_after (bv_data v) ws, bv_disk := disk_after (bv_disk v) ws,
     bv_writes := bv_writes v @ ws, bv_dirty := bv_dirty v - fst ` set ws\<rparr>"

lemma written_simps [simp]:
  "written [] v = v"
  "bv_data (written ws v) = disk_after (bv_data v) ws" "bv_disk (written ws v) = disk_after (bv_disk v) ws"
  "bv_writes (written ws v) = bv_writes v @ ws" "bv_dirty (written ws v) = bv_dirty v - fst ` set ws"
  "bv_held (written ws v) = bv_held v"
  by (simp_all add: written_def)

lemma written_append [simp]: "written (ws @ us) v = written us (written ws v)"
  by (rule bview.equality) (auto simp: written_def)

lemma written_one: "bv_write n (bv_put n x v) = written [(n, x)] v"
  by (simp add: written_def bv_write_def bv_put_def)

definition copied :: "uint \<Rightarrow> uint \<Rightarrow> bview \<Rightarrow> bview" where
  "copied dst src v = bv_write dst (bv_put dst (bv_data v src) v)"

lemma copied_written: "copied dst src v = written [(dst, bv_data v src)] v"
  by (simp add: copied_def written_one)

lemmas bv_defs = bv_hold_def bv_drop_def bv_put_def bv_write_def bv_clean_def copied_def

lemma bv_drop_hold: "bv_held v b = None \<Longrightarrow> bv_drop b (bv_put n x (bv_hold b m v)) = bv_put n x v"
  "bv_held v b = None \<Longrightarrow> bv_drop b (bv_hold b m v) = v"
  "bv_held v b = None \<Longrightarrow> bv_drop b (bv_write n (bv_put n x (bv_hold b m v))) = bv_write n (bv_put n x v)"
  by (rule bview.equality; simp add: bv_defs fun_upd_idem)+

lemma copied_drop:
  assumes "a \<noteq> b" "src \<noteq> dst" "bv_held v a = None" "bv_held v b = None"
  shows "bv_drop b (bv_drop a (bv_write dst (bv_put dst (bv_data v src) (bv_hold b dst (bv_hold a src v))))) = copied dst src v"
  using assms by (intro bview.equality) (auto simp: bv_defs fun_eq_iff)

locale block_store =
  fixes ok :: "'s \<Rightarrow> bool" and view :: "'s \<Rightarrow> bview" and keeps :: "'s \<Rightarrow> 's \<Rightarrow> bool" and size :: "'s \<Rightarrow> uint" and cap :: nat
    and rd :: "uint \<Rightarrow> ('s, nat) km" and wr :: "nat \<Rightarrow> ('s, unit) km" and rl :: "nat \<Rightarrow> ('s, unit) km"
    and cp :: "nat \<Rightarrow> nat \<Rightarrow> ('s, unit) km" and md :: "nat \<Rightarrow> (block \<Rightarrow> block) \<Rightarrow> ('s, unit) km" and data :: "nat \<Rightarrow> 's \<Rightarrow> block"
  assumes keeps_refl: "keeps s s"
    and keeps_trans: "keeps s t \<Longrightarrow> keeps t u \<Longrightarrow> keeps s u"
    and keeps_size: "keeps s t \<Longrightarrow> size t = size s"
    and data_held: "ok s \<Longrightarrow> bv_held (view s) b = Some n \<Longrightarrow> data b s = bv_data (view s) n"
    and rd_runs: "ok s \<Longrightarrow> n < size s \<Longrightarrow> n \<notin> ran (bv_held (view s)) \<Longrightarrow> bv_room cap n (view s) \<Longrightarrow>
      runs (rd n) s (\<lambda>b t. ok t \<and> keeps s t \<and> bv_held (view s) b = None \<and> view t = bv_hold b n (view s))"
    and wr_runs: "ok s \<Longrightarrow> bv_held (view s) b = Some n \<Longrightarrow>
      runs (wr b) s (\<lambda>_ t. ok t \<and> keeps s t \<and> view t = bv_write n (view s))"
    and rl_runs: "ok s \<Longrightarrow> bv_held (view s) b = Some n \<Longrightarrow> n \<in> bv_dirty (view s) \<or> bv_clean n (view s) \<Longrightarrow>
      runs (rl b) s (\<lambda>_ t. ok t \<and> keeps s t \<and> view t = bv_drop b (view s))"
    and cp_runs: "ok s \<Longrightarrow> bv_held (view s) b = Some n \<Longrightarrow> bv_held (view s) a = Some m \<Longrightarrow>
      runs (cp b a) s (\<lambda>_ t. ok t \<and> keeps s t \<and> view t = bv_put n (bv_data (view s) m) (view s))"
    and md_runs: "ok s \<Longrightarrow> bv_held (view s) b = Some n \<Longrightarrow>
      runs (md b f) s (\<lambda>_ t. ok t \<and> keeps s t \<and> view t = bv_put n (f (bv_data (view s) n)) (view s))"
begin

text \<open>An operation that leaves the view \<open>v\<close>.\<close>

definition gives :: "('s, unit) km \<Rightarrow> 's \<Rightarrow> bview \<Rightarrow> bool" where
  "gives m s v \<longleftrightarrow> runs m s (\<lambda>_ t. ok t \<and> keeps s t \<and> view t = v)"

lemma givesI: "runs m s (\<lambda>_ t. ok t \<and> keeps s t \<and> view t = v) \<Longrightarrow> gives m s v"
  by (simp add: gives_def)

lemma gives_seq:
  assumes "gives m s v" and "\<And>t. ok t \<Longrightarrow> keeps s t \<Longrightarrow> view t = v \<Longrightarrow> gives n t w"
  shows "gives (kthen m n) s w"
  unfolding gives_def
proof (rule runs_kthen, rule runs_conseq [OF assms(1) [unfolded gives_def]])
  fix x t assume t: "ok t \<and> keeps s t \<and> view t = v"
  show "runs n t (\<lambda>_ u. ok u \<and> keeps s u \<and> view u = w)"
    by (rule runs_conseq, rule assms(2) [unfolded gives_def]) (use t keeps_trans in blast)+
qed

lemma gives_rd:
  assumes "ok s" "n < size s" "n \<notin> ran (bv_held (view s))" "bv_room cap n (view s)"
    and "\<And>b t. ok t \<Longrightarrow> keeps s t \<Longrightarrow> bv_held (view s) b = None \<Longrightarrow> view t = bv_hold b n (view s) \<Longrightarrow> gives (f b) t w"
  shows "gives (kbind (rd n) f) s w"
  unfolding gives_def
proof (rule runs_kbind, rule runs_conseq [OF rd_runs [OF assms(1-4)]])
  fix b t assume t: "ok t \<and> keeps s t \<and> bv_held (view s) b = None \<and> view t = bv_hold b n (view s)"
  show "runs (f b) t (\<lambda>_ u. ok u \<and> keeps s u \<and> view u = w)"
    by (rule runs_conseq, rule assms(5) [unfolded gives_def]) (use t keeps_trans in blast)+
qed

lemma gives_wr: "ok s \<Longrightarrow> bv_held (view s) b = Some n \<Longrightarrow> gives (wr b) s (bv_write n (view s))"
  unfolding gives_def by (rule wr_runs)

lemma gives_rl:
  "ok s \<Longrightarrow> bv_held (view s) b = Some n \<Longrightarrow> n \<in> bv_dirty (view s) \<or> bv_clean n (view s) \<Longrightarrow> gives (rl b) s (bv_drop b (view s))"
  unfolding gives_def by (rule rl_runs)

lemma gives_cp:
  "ok s \<Longrightarrow> bv_held (view s) b = Some n \<Longrightarrow> bv_held (view s) a = Some m \<Longrightarrow> gives (cp b a) s (bv_put n (bv_data (view s) m) (view s))"
  unfolding gives_def by (rule cp_runs)

lemma gives_md: "ok s \<Longrightarrow> bv_held (view s) b = Some n \<Longrightarrow> gives (md b f) s (bv_put n (f (bv_data (view s) n)) (view s))"
  unfolding gives_def by (rule md_runs)

lemma gives_eq: "gives m s v \<Longrightarrow> v = w \<Longrightarrow> gives m s w"
  by simp

lemma gives_get: "gives (f (g s)) s v \<Longrightarrow> gives (kbind (kget g) f) s v"
  unfolding gives_def by (intro runs_kbind runs_kget)

lemma gives_for:
  assumes "ok s" and "V [] = view s"
    and "\<And>ys y zs t. xs = ys @ y # zs \<Longrightarrow> ok t \<Longrightarrow> keeps s t \<Longrightarrow> view t = V ys \<Longrightarrow> gives (f y) t (V (ys @ [y]))"
  shows "gives (kfor xs f) s (V xs)"
  unfolding gives_def
proof (rule runs_kfor [where I = "\<lambda>ys t. ok t \<and> keeps s t \<and> view t = V ys"])
  show "ok s \<and> keeps s s \<and> view s = V []" using assms(1,2) keeps_refl by simp
  fix ys y zs t assume a: "xs = ys @ y # zs" and t: "ok t \<and> keeps s t \<and> view t = V ys"
  show "runs (f y) t (\<lambda>_ u. ok u \<and> keeps s u \<and> view u = V (ys @ [y]))"
    by (rule runs_conseq, rule assms(3) [OF a, unfolded gives_def]) (use t keeps_trans in blast)+
qed simp

lemma copy_tail:
  assumes "ok s" and "view s = bv_hold b dst (bv_hold a src v)" and "a \<noteq> b" "src \<noteq> dst" "bv_held v a = None" "bv_held v b = None"
    and "src \<in> bv_dirty v \<or> bv_clean src v"
  shows "gives (kthen (cp b a) (kthen (wr b) (kthen (rl a) (rl b)))) s (copied dst src v)"
proof -
  have x: "bv_data (view s) src = bv_data v src" "bv_held (view s) b = Some dst" "bv_held (view s) a = Some src"
    using assms(2,3) by (simp_all add: bv_defs)
  show ?thesis
  proof (rule gives_seq [OF gives_cp [OF assms(1) x(2,3)]])
    fix t assume t: "ok t" "view t = bv_put dst (bv_data (view s) src) (view s)"
    show "gives (kthen (wr b) (kthen (rl a) (rl b))) t (copied dst src v)"
    proof (rule gives_seq [OF gives_wr [OF t(1), of b dst]])
      show "bv_held (view t) b = Some dst" using t x by (simp add: bv_defs)
    next
      fix u assume u: "ok u" "view u = bv_write dst (view t)"
      show "gives (kthen (rl a) (rl b)) u (copied dst src v)"
      proof (rule gives_seq [OF gives_rl [OF u(1), of a src]])
        show "bv_held (view u) a = Some src" using u t x by (simp add: bv_defs)
        show "src \<in> bv_dirty (view u) \<or> bv_clean src (view u)" using u t assms(2-7) by (simp add: bv_defs)
      next
        fix w assume w: "ok w" "view w = bv_drop a (view u)"
        have h: "bv_held (view w) b = Some dst" "bv_clean dst (view w)" using w u t x assms(3) by (simp_all add: bv_defs)
        show "gives (rl b) w (copied dst src v)"
          by (rule gives_eq [OF gives_rl [OF w(1) h(1) disjI2 [OF h(2)]]])
            (use w u t x copied_drop [OF assms(3-6)] assms(2) in simp)
      qed
    qed
  qed
qed

lemma copy_block:
  assumes s: "ok s" "bv_held (view s) = (\<lambda>_. None)" and n: "src < size s" "dst < size s" "src \<noteq> dst"
    and c: "src \<in> bv_dirty (view s) \<or> bv_clean src (view s)" and f: "finite (bv_dirty (view s))"
    and room: "Suc (card (bv_dirty (view s))) < cap \<or> card (bv_dirty (view s)) < cap \<and> (src \<in> bv_dirty (view s) \<or> dst \<in> bv_dirty (view s))"
  shows "gives (kbind (rd src) (\<lambda>a. kbind (rd dst) (\<lambda>b. kthen (cp b a) (kthen (wr b) (kthen (rl a) (rl b)))))) s
      (copied dst src (view s))"
    and "gives (kbind (rd dst) (\<lambda>b. kbind (rd src) (\<lambda>a. kthen (cp b a) (kthen (wr b) (kthen (rl a) (rl b)))))) s
      (copied dst src (view s))"
proof -
  have d: "card (bv_dirty (view s)) < cap" using room by auto
  have one: "bv_room cap m (view s)" for m using d s(2) by (simp add: bv_room_def)
  have two: "bv_room cap m (bv_hold b k (view s))" if "{m, k} = {src, dst}" for b m k
  proof -
    have "ran ((\<lambda>_. None)(b := Some k)) = {k}" by (auto simp: ran_def)
    moreover have "card (insert k (bv_dirty (view s))) \<le> Suc (card (bv_dirty (view s)))"
      using card_insert_le_m1 [of "Suc (card (bv_dirty (view s)))"] f by (simp add: card_insert_if)
    moreover have "m \<in> bv_dirty (view s) \<or> k \<in> bv_dirty (view s) \<or> Suc (card (bv_dirty (view s))) < cap"
      using room that by (auto simp: doubleton_eq_iff)
    ultimately show ?thesis using s(2) d by (auto simp: bv_room_def bv_hold_def insert_absorb)
  qed
  have two: "bv_room cap dst (bv_hold b src (view s))" "bv_room cap src (bv_hold b dst (view s))" for b
    by (rule two; auto)+
  have ran1: "m \<notin> ran (bv_held (bv_hold b k (view s)))" if "m \<noteq> k" for b m k
    using s(2) that by (auto simp: bv_hold_def ran_def)
  have held: "a \<noteq> b" if "bv_held (bv_hold b k (view s)) a = None" for a b k using that by (auto simp: bv_hold_def)
  have swap: "bv_hold a k (bv_hold b m (view s)) = bv_hold b m (bv_hold a k (view s))" if "a \<noteq> b" for a b k m
    using that by (simp add: bv_hold_def fun_upd_twist)
  show "gives (kbind (rd src) (\<lambda>a. kbind (rd dst) (\<lambda>b. kthen (cp b a) (kthen (wr b) (kthen (rl a) (rl b)))))) s
      (copied dst src (view s))"
  proof (rule gives_rd [OF s(1) n(1)])
    fix a t assume t: "ok t" "keeps s t" "view t = bv_hold a src (view s)"
    show "gives (kbind (rd dst) (\<lambda>b. kthen (cp b a) (kthen (wr b) (kthen (rl a) (rl b))))) t (copied dst src (view s))"
    proof (rule gives_rd [OF t(1)])
      fix b u assume u: "ok u" "bv_held (view t) b = None" "view u = bv_hold b dst (view t)"
      show "gives (kthen (cp b a) (kthen (wr b) (kthen (rl a) (rl b)))) u (copied dst src (view s))"
        using u t held [of a src b] s(2) c n(3) by (intro copy_tail) auto
    qed (use t n keeps_size two ran1 in auto)
  qed (use s one in auto)
  show "gives (kbind (rd dst) (\<lambda>b. kbind (rd src) (\<lambda>a. kthen (cp b a) (kthen (wr b) (kthen (rl a) (rl b)))))) s
      (copied dst src (view s))"
  proof (rule gives_rd [OF s(1) n(2)])
    fix b t assume t: "ok t" "keeps s t" "view t = bv_hold b dst (view s)"
    show "gives (kbind (rd src) (\<lambda>a. kthen (cp b a) (kthen (wr b) (kthen (rl a) (rl b))))) t (copied dst src (view s))"
    proof (rule gives_rd [OF t(1)])
      fix a u assume u: "ok u" "bv_held (view t) a = None" "view u = bv_hold a src (view t)"
      show "gives (kthen (cp b a) (kthen (wr b) (kthen (rl a) (rl b)))) u (copied dst src (view s))"
        using u t held [of b dst a] s(2) c n(3) swap [of a b src dst] by (intro copy_tail) auto
    qed (use t n keeps_size two ran1 in auto)
  qed (use s one in auto)
qed

text \<open>Changing a block through, and only reading it.\<close>

lemma edit_block:
  assumes s: "ok s" "n < size s" "bv_held (view s) = (\<lambda>_. None)" "bv_room cap n (view s)"
    and ed: "\<And>b t. ok t \<Longrightarrow> keeps s t \<Longrightarrow> view t = bv_hold b n (view s) \<Longrightarrow> gives (ed b) t (bv_put n x (view t))"
  shows "gives (kbind (rd n) (\<lambda>b. kthen (ed b) (kthen (wr b) (rl b)))) s (bv_write n (bv_put n x (view s)))"
proof (rule gives_rd [OF s(1,2)])
  fix b t assume t: "ok t" "keeps s t" "view t = bv_hold b n (view s)" and b: "bv_held (view s) b = None"
  show "gives (kthen (ed b) (kthen (wr b) (rl b))) t (bv_write n (bv_put n x (view s)))"
  proof (rule gives_seq [OF ed [OF t]])
    fix u assume u: "ok u" "view u = bv_put n x (view t)"
    have h: "bv_held (view u) b = Some n" using u t by (simp add: bv_defs)
    show "gives (kthen (wr b) (rl b)) u (bv_write n (bv_put n x (view s)))"
    proof (rule gives_seq [OF gives_wr [OF u(1) h]])
      fix w assume w: "ok w" "view w = bv_write n (view u)"
      have "bv_held (view w) b = Some n" "bv_clean n (view w)" using w u t by (simp_all add: bv_defs)
      then show "gives (rl b) w (bv_write n (bv_put n x (view s)))"
        by (intro gives_eq [OF gives_rl [OF w(1) _ disjI2]]) (use w u t bv_drop_hold(3) [OF b] in simp_all)
    qed
  qed
qed (use s in auto)

lemma read_block:
  assumes s: "ok s" "n < size s" "bv_held (view s) = (\<lambda>_. None)" "bv_room cap n (view s)" "n \<in> bv_dirty (view s) \<or> bv_clean n (view s)"
    and Q: "\<And>t. ok t \<Longrightarrow> keeps s t \<Longrightarrow> view t = view s \<Longrightarrow> Q (g (bv_data (view s) n)) t"
  shows "runs (kbind (rd n) (\<lambda>b. kbind (kget (data b)) (\<lambda>d. kthen (rl b) (kret (g d))))) s Q"
proof (rule runs_kbind, rule runs_conseq [OF rd_runs [OF s(1,2) _ s(4)]])
  fix b t assume t: "ok t \<and> keeps s t \<and> bv_held (view s) b = None \<and> view t = bv_hold b n (view s)"
  then have h: "bv_held (view t) b = Some n" by (simp add: bv_defs)
  have d: "data b t = bv_data (view s) n" using data_held [OF _ h] t by (simp add: bv_defs)
  have "runs (rl b) t (\<lambda>_ u. Q (g (bv_data (view s) n)) u)"
  proof (rule runs_conseq [OF rl_runs [OF _ h]])
    fix u assume u: "ok u \<and> keeps t u \<and> view u = bv_drop b (view t)"
    then have "view u = view s" using t bv_drop_hold(2) [of "view s" b n] by simp
    then show "Q (g (bv_data (view s) n)) u" using u t keeps_trans by (intro Q) blast+
  qed (use t s(5) in \<open>auto simp: bv_defs\<close>)
  then show "runs (kbind (kget (data b)) (\<lambda>d. kthen (rl b) (kret (g d)))) t Q"
    by (intro runs_kbind runs_kget runs_kthen) (auto simp: d intro: runs_conseq runs_kret)
qed (use s in auto)

end

end
