(* ===== verification/Bcache.thy ===== *)
theory Bcache
  imports Bio Log Blockdev
begin

text \<open>
  The buffer cache keeps its promise. The list of buffers stays well linked and in order of
  use, a block is in at most one buffer, and a buffer that nobody has is marked dirty or agrees
  with the disk. On such states the operations of \<^verbatim>\<open>bio.c\<close> are those of a block device,
  the contract \<open>block_store\<close>.
\<close>

section \<open>The list of buffers\<close>

text \<open>Neighbours in \<open>xs\<close> point at each other.\<close>

fun chain :: "(nat \<Rightarrow> nat) \<Rightarrow> (nat \<Rightarrow> nat) \<Rightarrow> nat list \<Rightarrow> bool" where
  "chain nx pv (x # y # zs) \<longleftrightarrow> nx x = y \<and> pv y = x \<and> chain nx pv (y # zs)"
| "chain nx pv _ = True"

lemma chain_append: "chain nx pv (xs @ x # ys) \<longleftrightarrow> chain nx pv (xs @ [x]) \<and> chain nx pv (x # ys)"
proof (induction xs)
  case (Cons a xs)
  then show ?case by (cases xs) auto
qed simp

lemma chain_cong:
  "(\<And>x. x \<in> set (butlast xs) \<Longrightarrow> nx x = nx' x) \<Longrightarrow> (\<And>x. x \<in> set (tl xs) \<Longrightarrow> pv x = pv' x) \<Longrightarrow>
    chain nx pv xs = chain nx' pv' xs"
  by (induction nx pv xs rule: chain.induct) (auto split: if_splits)

lemma chain_find_next:
  assumes "chain nx pv (x # ys @ [h])" and "h \<notin> set ys"
  shows "nx x = hd (ys @ [h])"
  using assms by (cases ys) auto

definition bnext :: "(nat \<Rightarrow> buf) \<Rightarrow> nat \<Rightarrow> nat" where "bnext B b = b_next (B b)"
definition bprev :: "(nat \<Rightarrow> buf) \<Rightarrow> nat \<Rightarrow> nat" where "bprev B b = b_prev (B b)"

text \<open>The list from the most to the least recently used buffer.\<close>

definition lru :: "nat list \<Rightarrow> kernel \<Rightarrow> bool" where
  "lru L s \<longleftrightarrow> distinct L \<and> set L = {..<NBUF} \<and> chain (bnext (bufs s)) (bprev (bufs s)) (bhead # L @ [bhead])"

lemma lru_length: "lru L s \<Longrightarrow> length L = NBUF"
  by (metis card_lessThan distinct_card lru_def)

lemma lru_members: "lru L s \<Longrightarrow> b \<in> set L \<longleftrightarrow> b < NBUF"
  by (simp add: lru_def)

lemma bfind_next:
  assumes "chain (bnext (bufs s)) (bprev (bufs s)) (xs @ [bhead])" and "bhead \<notin> set xs" and "length xs \<le> n"
  shows "bfind n ok b_next (hd (xs @ [bhead])) env s = Ret (find (\<lambda>b. ok (bufs s b)) xs) env s"
  using assms
proof (induction xs arbitrary: n)
  case Nil
  then show ?case by (cases n) simp_all
next
  case (Cons x xs)
  obtain m where m: "n = Suc m" using Cons.prems(3) by (cases n) auto
  have "b_next (bufs s x) = hd (xs @ [bhead])" using Cons.prems(1) by (cases xs) (auto simp: bnext_def)
  moreover have "chain (bnext (bufs s)) (bprev (bufs s)) (xs @ [bhead])" using Cons.prems(1) by (cases xs) auto
  ultimately show ?case using Cons.IH [of m] Cons.prems(2,3) by (simp add: m exec)
qed

lemma bfind_prev:
  assumes "chain (bnext (bufs s)) (bprev (bufs s)) (bhead # rev xs)" and "bhead \<notin> set xs" and "length xs \<le> n"
  shows "bfind n ok b_prev (hd (xs @ [bhead])) env s = Ret (find (\<lambda>b. ok (bufs s b)) xs) env s"
  using assms
proof (induction xs arbitrary: n)
  case Nil
  then show ?case by (cases n) simp_all
next
  case (Cons x xs)
  obtain m where m: "n = Suc m" using Cons.prems(3) by (cases n) auto
  have "chain (bnext (bufs s)) (bprev (bufs s)) ((bhead # rev xs) @ [x])" using Cons.prems(1) by simp
  then have "b_prev (bufs s x) = hd (xs @ [bhead])" "chain (bnext (bufs s)) (bprev (bufs s)) (bhead # rev xs)"
    using chain_append [of "bnext (bufs s)" "bprev (bufs s)" "bhead # rev (tl xs)" "hd xs" "[x]"]
    by (cases xs; simp add: bprev_def)+
  then show ?case using Cons.IH [of m] Cons.prems(2,3) by (simp add: m exec)
qed

lemma lru_find_next:
  assumes "lru L s"
  shows "bfind NBUF ok b_next (b_next (bufs s bhead)) env s = Ret (find (\<lambda>b. ok (bufs s b)) L) env s"
proof -
  have c: "chain (bnext (bufs s)) (bprev (bufs s)) (bhead # L @ [bhead])" "bhead \<notin> set L"
    using assms by (auto simp: lru_def bhead_def)
  then have "b_next (bufs s bhead) = hd (L @ [bhead])" "chain (bnext (bufs s)) (bprev (bufs s)) (L @ [bhead])"
    by (cases L; simp add: bnext_def)+
  then show ?thesis using bfind_next [of s L NBUF ok env] c(2) lru_length [OF assms] by simp
qed

lemma lru_find_prev:
  assumes "lru L s"
  shows "bfind NBUF ok b_prev (b_prev (bufs s bhead)) env s = Ret (find (\<lambda>b. ok (bufs s b)) (rev L)) env s"
proof -
  have c: "chain (bnext (bufs s)) (bprev (bufs s)) ((bhead # L) @ [bhead])" "bhead \<notin> set L"
    using assms by (auto simp: lru_def bhead_def)
  then have "b_prev (bufs s bhead) = hd (rev L @ [bhead])" "chain (bnext (bufs s)) (bprev (bufs s)) (bhead # L)"
    using chain_append [of "bnext (bufs s)" "bprev (bufs s)" "bhead # butlast L" "last L" "[bhead]"]
    by (cases L rule: rev_cases; simp add: bprev_def)+
  then show ?thesis using bfind_prev [of s "rev L" NBUF ok env] c(2) lru_length [OF assms] by simp
qed

text \<open>Moving a buffer to the front.\<close>

definition set_next :: "nat \<Rightarrow> nat \<Rightarrow> (nat \<Rightarrow> buf) \<Rightarrow> nat \<Rightarrow> buf" where
  "set_next b n B = B(b := (B b)\<lparr>b_next := n\<rparr>)"

definition set_prev :: "nat \<Rightarrow> nat \<Rightarrow> (nat \<Rightarrow> buf) \<Rightarrow> nat \<Rightarrow> buf" where
  "set_prev b n B = B(b := (B b)\<lparr>b_prev := n\<rparr>)"

definition relink :: "nat \<Rightarrow> (nat \<Rightarrow> buf) \<Rightarrow> nat \<Rightarrow> buf" where
  "relink b B = (let B2 = set_next (bprev B b) (bnext B b) (set_prev (bnext B b) (bprev B b) B); n = bnext B2 bhead
     in set_next bhead b (set_prev n b (set_prev b bhead (set_next b n B2))))"

lemma links [simp]:
  "bnext (set_next b n B) = (bnext B)(b := n)" "bprev (set_next b n B) = bprev B"
  "bnext (set_prev b n B) = bnext B" "bprev (set_prev b n B) = (bprev B)(b := n)"
  by (simp_all add: bnext_def bprev_def set_next_def set_prev_def fun_eq_iff)

lemma upd_links:
  "upd_buf b (\<lambda>y. y\<lparr>b_next := n\<rparr>) env s = Ret () env (s\<lparr>bufs := set_next b n (bufs s)\<rparr>)"
  "upd_buf b (\<lambda>y. y\<lparr>b_prev := n\<rparr>) env s = Ret () env (s\<lparr>bufs := set_prev b n (bufs s)\<rparr>)"
  by (simp_all add: upd_buf_def set_next_def set_prev_def)

lemma bfront_exec: "bfront b env s = Ret () env (s\<lparr>bufs := relink b (bufs s)\<rparr>)"
  unfolding bfront_def relink_def Let_def bnext_def bprev_def by (simp add: upd_links kthen_apply)

lemma chain_unlink:
  assumes c: "chain nx pv (h # xs @ b # ys @ [h])" and d: "distinct (h # xs @ b # ys)"
    and nx': "nx' = nx(pv b := nx b)" and pv': "pv' = pv(nx b := pv b)"
  shows "chain nx' pv' (h # xs @ ys @ [h])"
proof -
  obtain as p where p: "h # xs = as @ [p]" by (metis append_butlast_last_id list.distinct(1))
  obtain n cs where n: "ys @ [h] = n # cs" by (metis append_is_Nil_conv list.exhaust not_Cons_self2)
  have "chain nx pv (as @ p # b # n # cs)" using c p n by (metis append.assoc append_Cons append_Nil)
  then have 1: "chain nx pv (as @ [p])" "pv b = p" "nx b = n" "chain nx pv (n # cs)"
    by (auto simp: chain_append [of nx pv as p "b # n # cs"])
  have sp: "insert h (set xs) = insert p (set as)" "p \<notin> set as" using arg_cong [OF p, of set] arg_cong [OF p, of distinct] d by auto
  have tl: "tl (as @ [p]) = xs" "butlast (n # cs) = ys" using arg_cong [OF p, of tl] arg_cong [OF n, of butlast] by simp_all
  have sn: "n \<notin> set xs" "n \<notin> set cs" "p \<notin> set ys"
    using arg_cong [OF n, of set] arg_cong [OF n, of distinct] sp d by auto
  have "chain nx' pv' (as @ [p]) = chain nx pv (as @ [p])" "chain nx' pv' (n # cs) = chain nx pv (n # cs)"
    by (rule chain_cong; use sp sn tl 1(2,3) nx' pv' in auto)+
  then have "chain nx' pv' (as @ p # n # cs)"
    using 1 by (subst chain_append) (simp add: nx' pv')
  then show ?thesis using p n by (metis append.assoc append_Cons append_Nil)
qed

lemma chain_front:
  assumes c: "chain nx pv (h # zs @ [h])" and d: "distinct (h # zs)" "b \<noteq> h" "b \<notin> set zs"
    and nx': "nx' = nx(b := nx h, h := b)" and pv': "pv' = pv(b := h, nx h := b)"
  shows "chain nx' pv' (h # b # zs @ [h])"
proof -
  obtain n cs where n: "zs @ [h] = n # cs" by (metis append_is_Nil_conv list.exhaust not_Cons_self2)
  have 1: "nx h = n" "chain nx pv (n # cs)" using c unfolding n by simp_all
  have tl: "butlast (n # cs) = zs" using arg_cong [OF n, of butlast] by simp
  have sn: "b \<noteq> n" "b \<notin> set cs" "n \<notin> set cs" "h \<notin> set zs"
    using arg_cong [OF n, of set] arg_cong [OF n, of distinct] d by auto
  have "chain nx' pv' (n # cs) = chain nx pv (n # cs)"
    by (rule chain_cong; use sn tl 1 nx' pv' d in auto)
  then show ?thesis unfolding n using 1 sn d by (simp add: nx' pv')
qed

lemma relink_links:
  "bnext (relink b B) = (let nx = (bnext B)(bprev B b := bnext B b) in nx(b := nx bhead, bhead := b))"
  "bprev (relink b B) = (let nx = (bnext B)(bprev B b := bnext B b) in ((bprev B)(bnext B b := bprev B b))(b := bhead, nx bhead := b))"
  unfolding relink_def Let_def by simp_all

text \<open>Apart from the links, nothing changes.\<close>

definition unlinked :: "buf \<Rightarrow> buf" where
  "unlinked x = x\<lparr>b_next := 0, b_prev := 0\<rparr>"

lemma unlinked_links [simp]:
  "unlinked (set_next b n B c) = unlinked (B c)" "unlinked (set_prev b n B c) = unlinked (B c)"
  by (simp_all add: unlinked_def set_next_def set_prev_def)

lemma unlinked_relink [simp]: "unlinked (relink b B c) = unlinked (B c)"
  unfolding relink_def Let_def by simp

lemma unlinked_fields:
  assumes "unlinked x = unlinked y"
  shows "b_flags x = b_flags y" "b_dev x = b_dev y" "b_blockno x = b_blockno y" "b_refcnt x = b_refcnt y"
    "b_qnext x = b_qnext y" "b_data x = b_data y"
  using assms by (cases x; cases y; simp add: unlinked_def)+

lemmas relink_fields [simp] = unlinked_fields [OF unlinked_relink]

lemma lru_relink:
  assumes "lru L s" and "b < NBUF" and "bufs s' = relink b (bufs s)"
  shows "lru (b # remove1 b L) s'"
proof -
  let ?B = "bufs s"
  have b: "b \<in> set L" "b \<noteq> bhead" using assms by (auto simp: lru_def bhead_def)
  then obtain xs ys where L: "L = xs @ b # ys" by (meson split_list)
  have d: "distinct (bhead # xs @ b # ys)" and c: "chain (bnext ?B) (bprev ?B) (bhead # xs @ b # ys @ [bhead])"
    using assms(1) L by (auto simp: lru_def bhead_def)
  have r: "remove1 b L = xs @ ys" using d L by (simp add: remove1_append)
  have "chain (bnext (relink b ?B)) (bprev (relink b ?B)) (bhead # b # (xs @ ys) @ [bhead])"
    by (rule chain_front [of "(bnext ?B)(bprev ?B b := bnext ?B b)" "(bprev ?B)(bnext ?B b := bprev ?B b)"])
      (use chain_unlink [OF c d refl refl] d b in \<open>auto simp: relink_links Let_def\<close>)
  then show ?thesis using assms(1) d L unfolding lru_def r assms(3) by auto
qed

section \<open>What the operations do to the buffers\<close>

text \<open>
  No spin lock is held and no process is on its way to sleep: what one process does between
  two switches.
\<close>

definition quiet :: "kernel \<Rightarrow> bool" where
  "quiet s \<longleftrightarrow> cpu_ok (hw s) \<and> cur_proc (hw s) \<noteq> None \<and> (\<forall>lk. lock_free lk (hw s)) \<and> (\<forall>c. settled c (ptable s))"

definition cur_pid :: "kernel \<Rightarrow> cint" where
  "cur_pid s = p_pid (ptable s (the (cur_proc (hw s))))"

definition buf_locked :: "kernel \<Rightarrow> nat \<Rightarrow> bool" where
  "buf_locked s b \<longleftrightarrow> sl_locked (hw_slocks (hw s) (BufLock b)) \<noteq> 0"

lemma quietD:
  assumes "quiet s"
  shows "cpu_ok (hw s)" "lock_free lk (hw s)" "settled c (ptable s)" "cur_proc (hw s) = Some (the (cur_proc (hw s)))"
  using assms by (auto simp: quiet_def)

lemma find_SomeD: "find P xs = Some x \<Longrightarrow> x \<in> set xs \<and> P x"
  by (auto simp: find_Some_iff)

abbreviation is_block :: "uint \<Rightarrow> uint \<Rightarrow> buf \<Rightarrow> bool" where
  "is_block dev n x \<equiv> b_dev x = dev \<and> b_blockno x = n"

abbreviation evictable :: "buf \<Rightarrow> bool" where
  "evictable x \<equiv> b_refcnt x = 0 \<and> b_flags x AND B_DIRTY = 0"

definition take_buf :: "nat \<Rightarrow> buf \<Rightarrow> kernel \<Rightarrow> kernel" where
  "take_buf b x s = s\<lparr>hw := slock_set (BufLock b) 1 (cur_pid s) (hw s), bufs := (bufs s)(b := x)\<rparr>"

lemma bget_tail:
  assumes q: "quiet s" and l: "\<not> buf_locked s b"
  shows "kthen (upd_buf b f) (kthen (release BcacheLock) (kthen (acquiresleep (BufLock b)) (kret b))) env
      (s\<lparr>hw := hold BcacheLock (hw s)\<rparr>) = Ret b env (take_buf b (f (bufs s b)) s)"
proof -
  let ?s = "s\<lparr>bufs := (bufs s)(b := f (bufs s b))\<rparr>"
  note d = quietD [OF q]
  have "release BcacheLock env (s\<lparr>hw := hold BcacheLock (hw s), bufs := bufs ?s\<rparr>) = Ret () env ?s"
    by (subst release_hold [where h = "hw s"]) (simp_all add: d)
  moreover have "acquiresleep (BufLock b) env ?s = Ret () env (take_buf b (f (bufs s b)) s)"
    by (subst acquiresleep_exec [where p = "the (cur_proc (hw s))"])
      (use d l in \<open>simp_all add: buf_locked_def take_buf_def cur_pid_def\<close>)
  ultimately show ?thesis by (simp add: upd_buf_def kthen_apply)
qed

lemma bget_exec:
  assumes q: "quiet s" and L: "lru L s" and u: "\<And>b. b < NBUF \<Longrightarrow> is_block dev n (bufs s b) \<or> evictable (bufs s b) \<Longrightarrow> \<not> buf_locked s b"
  shows "bget dev n env s =
    (case find (\<lambda>b. is_block dev n (bufs s b)) L of
       Some b \<Rightarrow> Ret b env (take_buf b ((bufs s b)\<lparr>b_refcnt := b_refcnt (bufs s b) + 1\<rparr>) s)
     | None \<Rightarrow> (case find (\<lambda>b. evictable (bufs s b)) (rev L) of
         Some b \<Rightarrow> Ret b env (take_buf b ((bufs s b)\<lparr>b_dev := dev, b_blockno := n, b_flags := 0, b_refcnt := 1\<rparr>) s)
       | None \<Rightarrow> Panic ''bget: no buffers''))"
proof -
  let ?h = "s\<lparr>hw := hold BcacheLock (hw s)\<rparr>"
  have a: "acquire BcacheLock env s = Ret () env ?h" by (rule acquire_exec) (simp_all add: quietD [OF q])
  have L': "lru L ?h" using L unfolding lru_def by simp
  note f = lru_find_next [OF L', of "is_block dev n", simplified] lru_find_prev [OF L', of evictable, simplified]
  have u': "\<not> buf_locked s b" if "find (\<lambda>b. is_block dev n (bufs s b)) L = Some b" for b
    using u find_SomeD [OF that] lru_members [OF L] by simp
  have v': "\<not> buf_locked s b" if "find (\<lambda>b. evictable (bufs s b)) (rev L) = Some b" for b
    using u find_SomeD [OF that] lru_members [OF L] by simp
  show ?thesis
    unfolding bget_def
    by (simp add: kthen_RetI [of "acquire BcacheLock", OF a]
          kbind_RetI [of "bfind NBUF (is_block dev n) b_next (b_next (bufs s bhead))", OF f(1)]
          kbind_RetI [of "bfind NBUF evictable b_prev (b_prev (bufs s bhead))", OF f(2)] bget_tail [OF q] u' v' split: option.split)
qed

section \<open>The cache as a block device\<close>

definition buf_dirty :: "kernel \<Rightarrow> nat \<Rightarrow> bool" where
  "buf_dirty s b \<longleftrightarrow> b_dev (bufs s b) = 1 \<and> b_flags (bufs s b) = B_VALID OR B_DIRTY"

text \<open>A buffer is unused, or it holds a block of the disk; while no process has it, it is dirty or agrees with the disk.\<close>

definition buf_ok :: "kernel \<Rightarrow> nat \<Rightarrow> bool" where
  "buf_ok s b \<longleftrightarrow> (let x = bufs s b in
     (b_dev x = 0 \<and> b_flags x = 0 \<or>
      b_dev x = 1 \<and> (b_flags x = B_VALID \<or> b_flags x = B_VALID OR B_DIRTY) \<and> b_blockno x < disksize s) \<and>
     (if buf_locked s b then b_dev x = 1 \<and> slock_mine (BufLock b) s \<and> b_refcnt x = 1
      else b_refcnt x = 0 \<and> (b_flags x = B_VALID \<longrightarrow> b_data x = disk s 1 (b_blockno x))))"

definition uniq :: "(nat \<Rightarrow> buf) \<Rightarrow> bool" where
  "uniq B \<longleftrightarrow> (\<forall>b < NBUF. \<forall>c < NBUF. b_dev (B b) = 1 \<and> b_dev (B c) = 1 \<and> b_blockno (B b) = b_blockno (B c) \<longrightarrow> b = c)"

definition bcache_ok :: "kernel \<Rightarrow> bool" where
  "bcache_ok s \<longleftrightarrow> quiet s \<and> (\<exists>L. lru L s) \<and> (\<forall>b < NBUF. buf_ok s b) \<and> uniq (bufs s)"

definition view_of :: "(nat \<Rightarrow> buf) \<Rightarrow> (uint \<Rightarrow> block) \<Rightarrow> uint \<Rightarrow> block" where
  "view_of B d n = (case find (\<lambda>b. is_block 1 n (B b)) [0..<NBUF] of Some b \<Rightarrow> b_data (B b) | None \<Rightarrow> d n)"

definition bview_of :: "kernel \<Rightarrow> bview" where
  "bview_of s = \<lparr>bv_data = view_of (bufs s) (disk s 1), bv_disk = disk s 1, bv_writes = disk_history s,
     bv_dirty = (\<lambda>b. b_blockno (bufs s b)) ` {b. b < NBUF \<and> buf_dirty s b},
     bv_held = (\<lambda>b. if b < NBUF \<and> buf_locked s b then Some (b_blockno (bufs s b)) else None)\<rparr>"

text \<open>Nothing else changes but that processes waiting for a buffer become runnable.\<close>

definition blocks_only :: "kernel \<Rightarrow> kernel \<Rightarrow> bool" where
  "blocks_only s s' \<longleftrightarrow>
     s'\<lparr>hw := hw s, ptable := ptable s, bufs := bufs s, disk := disk s, disk_history := disk_history s\<rparr> = s \<and>
     (hw s')\<lparr>hw_slocks := hw_slocks (hw s)\<rparr> = hw s \<and>
     (\<forall>p. (ptable s' p)\<lparr>p_state := p_state (ptable s p)\<rparr> = ptable s p)"

lemma blocks_only_refl [simp]: "blocks_only s s"
  by (simp add: blocks_only_def)

lemma blocks_only_trans:
  assumes "blocks_only s t" and "blocks_only t u"
  shows "blocks_only s u"
proof -
  note a = assms [unfolded blocks_only_def]
  have "u\<lparr>hw := hw s, ptable := ptable s, bufs := bufs s, disk := disk s, disk_history := disk_history s\<rparr> =
    (u\<lparr>hw := hw t, ptable := ptable t, bufs := bufs t, disk := disk t, disk_history := disk_history t\<rparr>)
      \<lparr>hw := hw s, ptable := ptable s, bufs := bufs s, disk := disk s, disk_history := disk_history s\<rparr>" by simp
  also have "\<dots> = s" using a by simp
  finally have 1: "u\<lparr>hw := hw s, ptable := ptable s, bufs := bufs s, disk := disk s, disk_history := disk_history s\<rparr> = s" .
  have "(hw u)\<lparr>hw_slocks := hw_slocks (hw s)\<rparr> = ((hw u)\<lparr>hw_slocks := hw_slocks (hw t)\<rparr>)\<lparr>hw_slocks := hw_slocks (hw s)\<rparr>" by simp
  then have 2: "(hw u)\<lparr>hw_slocks := hw_slocks (hw s)\<rparr> = hw s" using a by simp
  have "(ptable u p)\<lparr>p_state := p_state (ptable s p)\<rparr> = ((ptable u p)\<lparr>p_state := p_state (ptable t p)\<rparr>)\<lparr>p_state := p_state (ptable s p)\<rparr>" for p by simp
  then have "(ptable u p)\<lparr>p_state := p_state (ptable s p)\<rparr> = ptable s p" for p using a by simp
  with 1 2 show ?thesis by (simp add: blocks_only_def)
qed

lemma blocks_onlyD:
  assumes "blocks_only s s'"
  shows "log s' = log s" "disksize s' = disksize s" "sb s' = sb s" "icache s' = icache s" "cur_pid s' = cur_pid s"
    "cur_proc (hw s') = cur_proc (hw s)"
proof -
  note a = assms [unfolded blocks_only_def]
  note e = a [THEN conjunct1]
  show "log s' = log s" "disksize s' = disksize s" "sb s' = sb s" "icache s' = icache s"
    using arg_cong [OF e, of log] arg_cong [OF e, of disksize] arg_cong [OF e, of sb] arg_cong [OF e, of icache] by simp_all
  show c: "cur_proc (hw s') = cur_proc (hw s)"
    using cur_proc_simps(6) [of "hw_slocks (hw s)" "hw s'"] a by simp
  have "p_pid (ptable s' p) = p_pid (ptable s p)" for p
    using arg_cong [OF a [THEN conjunct2, THEN conjunct2, THEN spec], of p_pid] by simp
  with c show "cur_pid s' = cur_pid s" by (simp add: cur_pid_def)
qed

lemma find_unique:
  assumes "uniq B" and "b < NBUF" and "is_block 1 n (B b)"
  shows "find (\<lambda>b. is_block 1 n (B b)) [0..<NBUF] = Some b"
proof (cases "find (\<lambda>b. is_block 1 n (B b)) [0..<NBUF]")
  case None
  then show ?thesis using assms(2,3) by (auto simp: find_None_iff)
next
  case (Some c)
  then show ?thesis using assms find_SomeD [OF Some] by (auto simp: uniq_def)
qed

lemma view_of_buf: "uniq B \<Longrightarrow> b < NBUF \<Longrightarrow> is_block 1 n (B b) \<Longrightarrow> view_of B d n = b_data (B b)"
  by (simp add: view_of_def find_unique)

lemma view_of_none: "(\<And>b. b < NBUF \<Longrightarrow> \<not> is_block 1 n (B b)) \<Longrightarrow> view_of B d n = d n"
proof -
  assume "\<And>b. b < NBUF \<Longrightarrow> \<not> is_block 1 n (B b)"
  then have "find (\<lambda>b. is_block 1 n (B b)) [0..<NBUF] = None" by (auto simp: find_None_iff)
  then show ?thesis by (simp add: view_of_def)
qed

lemma view_upd:
  assumes u: "uniq B" "uniq (B(b := x))" and b: "b < NBUF" and x: "b_dev x = 1"
    and old: "b_dev (B b) = 1 \<Longrightarrow> b_blockno (B b) \<noteq> b_blockno x \<Longrightarrow> b_data (B b) = d (b_blockno (B b))"
  shows "view_of (B(b := x)) d = (view_of B d)(b_blockno x := b_data x)"
proof
  fix n
  show "view_of (B(b := x)) d n = ((view_of B d)(b_blockno x := b_data x)) n"
  proof (cases "n = b_blockno x")
    case True
    then show ?thesis using view_of_buf [OF u(2) b, of n d] x by simp
  next
    case n: False
    show ?thesis
    proof (cases "\<exists>c < NBUF. c \<noteq> b \<and> is_block 1 n (B c)")
      case True
      then obtain c where c: "c < NBUF" "c \<noteq> b" "is_block 1 n (B c)" by blast
      then show ?thesis using view_of_buf [OF u(2) c(1), of n d] view_of_buf [OF u(1) c(1), of n d] n by simp
    next
      case False
      then have "view_of (B(b := x)) d n = d n" using n by (intro view_of_none) auto
      moreover have "view_of B d n = d n"
      proof (cases "is_block 1 n (B b)")
        case True
        then show ?thesis using view_of_buf [OF u(1) b, of n d] old n by simp
      next
        case nb: False
        then have "\<not> is_block 1 n (B c)" if "c < NBUF" for c using False that by (cases "c = b") auto
        then show ?thesis by (rule view_of_none)
      qed
      ultimately show ?thesis using n by simp
    qed
  qed
qed

lemma uniq_fresh:
  assumes "uniq B" and "\<And>c. c < NBUF \<Longrightarrow> c \<noteq> b \<Longrightarrow> \<not> is_block 1 (b_blockno x) (B c)"
  shows "uniq (B(b := x))"
  unfolding uniq_def
proof (intro allI impI)
  fix c e assume c: "c < NBUF" "e < NBUF"
    and h: "b_dev ((B(b := x)) c) = 1 \<and> b_dev ((B(b := x)) e) = 1 \<and> b_blockno ((B(b := x)) c) = b_blockno ((B(b := x)) e)"
  show "c = e"
  proof (cases "c = b \<or> e = b")
    case True
    then show ?thesis using h assms(2) [OF c(1)] assms(2) [OF c(2)] by (auto split: if_splits)
  next
    case False
    then show ?thesis using h c assms(1) by (simp add: uniq_def)
  qed
qed

lemma bcache_okD:
  assumes "bcache_ok s"
  shows "quiet s" "\<exists>L. lru L s" "uniq (bufs s)" "b < NBUF \<Longrightarrow> buf_ok s b"
  using assms by (auto simp: bcache_ok_def)

lemma flag_bits [simp]:
  "B_VALID AND B_VALID \<noteq> 0" "(B_VALID OR B_DIRTY) AND B_VALID \<noteq> 0" "B_VALID AND B_DIRTY = 0"
  "(B_VALID OR B_DIRTY) AND B_DIRTY \<noteq> 0" "B_VALID \<noteq> B_VALID OR B_DIRTY" "B_VALID \<noteq> 0" "B_VALID OR B_DIRTY \<noteq> 0"
  "(B_VALID OR B_DIRTY) AND (B_VALID OR B_DIRTY) \<noteq> B_VALID" "(B_VALID OR B_DIRTY) AND NOT B_DIRTY = B_VALID"
  "B_VALID OR B_VALID = B_VALID" "(0::uint) OR B_VALID = B_VALID" "(0::uint) AND x = 0"
  by (simp_all add: B_VALID_def B_DIRTY_def)

lemma take_buf_simps [simp]:
  "bufs (take_buf b x s) = (bufs s)(b := x)" "disk (take_buf b x s) = disk s" "disksize (take_buf b x s) = disksize s"
  "ptable (take_buf b x s) = ptable s" "disk_history (take_buf b x s) = disk_history s" "cur_pid (take_buf b x s) = cur_pid s"
  "hw (take_buf b x s) = slock_set (BufLock b) 1 (cur_pid s) (hw s)"
  by (simp_all add: take_buf_def cur_pid_def)

lemma take_buf_locked [simp]: "buf_locked (take_buf b x s) c \<longleftrightarrow> c = b \<or> buf_locked s c"
  by (simp add: buf_locked_def)

lemma slock_mine_iff: "quiet s \<Longrightarrow> slock_mine (BufLock b) s \<longleftrightarrow> buf_locked s b \<and> sl_pid (hw_slocks (hw s) (BufLock b)) = cur_pid s"
  by (auto simp: slock_mine_def buf_locked_def cur_pid_def quiet_def)

lemma quiet_take [simp]: "quiet (take_buf b x s) = quiet s"
  by (simp add: quiet_def)

lemma blocks_only_take [simp]: "blocks_only s (take_buf b x s)"
  by (simp add: blocks_only_def take_buf_def slock_set_def)

lemma lru_keep:
  "lru L s \<Longrightarrow> b_next x = b_next (bufs s b) \<Longrightarrow> b_prev x = b_prev (bufs s b) \<Longrightarrow> bufs s' = (bufs s)(b := x) \<Longrightarrow> lru L s'"
proof -
  assume a: "lru L s" "b_next x = b_next (bufs s b)" "b_prev x = b_prev (bufs s b)" "bufs s' = (bufs s)(b := x)"
  then have "bnext (bufs s') = bnext (bufs s)" "bprev (bufs s') = bprev (bufs s)" by (auto simp: bnext_def bprev_def)
  with a(1) show ?thesis by (simp add: lru_def)
qed

lemma buf_ok_other:
  assumes "buf_ok s c" and "unlinked (bufs s' c) = unlinked (bufs s c)" and "disksize s' = disksize s"
    and "b_dev (bufs s c) = 1 \<Longrightarrow> disk s' 1 (b_blockno (bufs s c)) = disk s 1 (b_blockno (bufs s c))"
    and "hw_slocks (hw s') (BufLock c) = hw_slocks (hw s) (BufLock c)" and "quiet s" "quiet s'" "cur_pid s' = cur_pid s"
  shows "buf_ok s' c"
proof -
  note f = unlinked_fields [OF assms(2)]
  have "buf_locked s' c = buf_locked s c" using assms(5) by (simp add: buf_locked_def)
  moreover from this have "slock_mine (BufLock c) s' = slock_mine (BufLock c) s" using assms(5-8) by (simp add: slock_mine_iff)
  ultimately show ?thesis using assms(1,3,4) by (auto simp: buf_ok_def Let_def f)
qed

lemma unlinked_view:
  assumes "\<And>c. unlinked (B' c) = unlinked (B c)"
  shows "view_of B' d = view_of B d" "uniq B' = uniq B"
  using unlinked_fields [OF assms] by (simp_all add: view_of_def [abs_def] uniq_def cong del: option.case_cong_weak)

text \<open>A block that is read: the buffer it is found in, or the one it is put in.\<close>

lemma take_buf_view:
  assumes ok: "bcache_ok s" and b: "b < NBUF" "\<not> buf_locked s b"
    and x: "b_dev x = 1" "b_refcnt x = 1" "b_blockno x < disksize s" "b_data x = bv_data (bview_of s) (b_blockno x)"
      "b_next x = b_next (bufs s b)" "b_prev x = b_prev (bufs s b)"
    and f: "b_flags x = B_VALID \<or> b_flags x = B_VALID OR B_DIRTY" "b_flags x = B_VALID OR B_DIRTY \<longleftrightarrow> buf_dirty s b"
    and o: "b_dev (bufs s b) = 1 \<and> b_blockno (bufs s b) = b_blockno x \<or>
       \<not> buf_dirty s b \<and> (\<forall>c < NBUF. \<not> is_block 1 (b_blockno x) (bufs s c))"
  shows "bcache_ok (take_buf b x s)"
    and "bview_of (take_buf b x s) = (bview_of s)\<lparr>bv_held := (bv_held (bview_of s))(b := Some (b_blockno x))\<rparr>"
proof -
  note k = bcache_okD [OF ok]
  obtain L where L: "lru L s" using k(2) by blast
  let ?t = "take_buf b x s"
  have u: "uniq ((bufs s)(b := x))" using o k(3) b(1) by (intro uniq_fresh) (auto simp: uniq_def)
  have "buf_ok ?t c" if "c < NBUF" for c
  proof (cases "c = b")
    case True
    then show ?thesis using x f(1) k(1) by (simp add: buf_ok_def Let_def slock_mine_iff)
  next
    case False
    then show ?thesis using buf_ok_other [OF k(4) [OF that], of ?t] k(1) by simp
  qed
  moreover have "lru L ?t" by (rule lru_keep [OF L x(5,6)]) simp
  ultimately show "bcache_ok ?t" using k u by (auto simp: bcache_ok_def)
  have d: "b_data (bufs s b) = disk s 1 (b_blockno (bufs s b))" if "b_dev (bufs s b) = 1" "b_blockno (bufs s b) \<noteq> b_blockno x"
    using that o k(4) [OF b(1)] b(2) by (auto simp: buf_ok_def Let_def buf_dirty_def)
  have "view_of ((bufs s)(b := x)) (disk s 1) = (view_of (bufs s) (disk s 1))(b_blockno x := b_data x)"
    by (rule view_upd [OF k(3) u b(1) x(1)]) (use d in simp)
  then have v: "view_of ((bufs s)(b := x)) (disk s 1) = view_of (bufs s) (disk s 1)"
    using x(4) by (simp add: bview_of_def)
  have "buf_dirty ?t c \<longleftrightarrow> buf_dirty s c" "buf_dirty s c \<Longrightarrow> b_blockno (bufs ?t c) = b_blockno (bufs s c)" for c
    using f(2) o x(1) by (auto simp: buf_dirty_def)
  then have "(\<lambda>c. b_blockno (bufs ?t c)) ` {c. c < NBUF \<and> buf_dirty ?t c} = (\<lambda>c. b_blockno (bufs s c)) ` {c. c < NBUF \<and> buf_dirty s c}"
    by (intro image_cong) auto
  then show "bview_of ?t = (bview_of s)\<lparr>bv_held := (bv_held (bview_of s))(b := Some (b_blockno x))\<rparr>"
    using v b(1) by (auto simp: bview_of_def fun_eq_iff)
qed

lemma flag_bits2: "B_DIRTY \<noteq> 0" "B_VALID OR B_DIRTY \<noteq> B_VALID"
  by (simp_all add: B_VALID_def B_DIRTY_def)

lemma iderw_read:
  assumes "quiet s" "slock_mine (BufLock b) s" and x: "x = bufs s b" "b_flags x = 0" "b_dev x = 1" "b_blockno x < disksize s"
  shows "iderw b env s = Ret () env (s\<lparr>bufs := (bufs s)(b := x\<lparr>b_data := disk s 1 (b_blockno x), b_flags := B_VALID\<rparr>)\<rparr>)"
proof -
  have h: "holdingsleep (BufLock b) env s = Ret True env s"
    using holdingsleep_exec [OF quietD(1,2,4) [OF assms(1)], of "BufLock b" env] assms(2) by simp
  show ?thesis using x unfolding iderw_def
    by (simp add: kbind_RetI [of "holdingsleep (BufLock b)", OF h] upd_buf_def kthen_apply not_le B_VALID_def)
qed

lemma iderw_write:
  assumes "quiet s" "slock_mine (BufLock b) s" and x: "x = bufs s b" "b_flags x = B_VALID OR B_DIRTY" "b_dev x = 1" "b_blockno x < disksize s"
  shows "iderw b env s = Ret () env (s\<lparr>bufs := (bufs s)(b := x\<lparr>b_flags := B_VALID\<rparr>),
     disk := (disk s)(1 := (disk s 1)(b_blockno x := b_data x)), disk_history := disk_history s @ [(b_blockno x, b_data x)]\<rparr>)"
proof -
  have h: "holdingsleep (BufLock b) env s = Ret True env s"
    using holdingsleep_exec [OF quietD(1,2,4) [OF assms(1)], of "BufLock b" env] assms(2) by simp
  show ?thesis using x unfolding iderw_def
    by (simp add: kbind_RetI [of "holdingsleep (BufLock b)", OF h] upd_buf_def kthen_apply not_le flag_bits2)
qed

lemma held_view: "bv_held (bview_of s) b = Some n \<longleftrightarrow> b < NBUF \<and> buf_locked s b \<and> b_blockno (bufs s b) = n"
  by (auto simp: bview_of_def)

lemma dirty_view: "n \<in> bv_dirty (bview_of s) \<longleftrightarrow> (\<exists>b < NBUF. buf_dirty s b \<and> b_blockno (bufs s b) = n)"
  by (auto simp: bview_of_def)

lemma buf_okD:
  assumes "buf_ok s b"
  shows "buf_locked s b \<Longrightarrow> b_dev (bufs s b) = 1" "buf_locked s b \<Longrightarrow> b_refcnt (bufs s b) = 1"
    "\<not> buf_locked s b \<Longrightarrow> b_refcnt (bufs s b) = 0" "buf_locked s b \<Longrightarrow> slock_mine (BufLock b) s"
    "b_dev (bufs s b) = 1 \<Longrightarrow> b_blockno (bufs s b) < disksize s"
    "b_dev (bufs s b) = 1 \<Longrightarrow> b_flags (bufs s b) = B_VALID \<or> b_flags (bufs s b) = B_VALID OR B_DIRTY"
    "b_flags (bufs s b) AND B_DIRTY \<noteq> 0 \<Longrightarrow> buf_dirty s b"
    "buf_dirty s b \<Longrightarrow> b_flags (bufs s b) AND B_DIRTY \<noteq> 0"
  using assms by (auto simp: buf_ok_def Let_def buf_dirty_def flag_bits2 split: if_splits)

lemma evictable_exists:
  assumes ok: "bcache_ok s" and room: "card (bv_dirty (bview_of s) \<union> ran (bv_held (bview_of s))) < NBUF"
  shows "\<exists>b < NBUF. evictable (bufs s b)"
proof (rule ccontr)
  note k = bcache_okD [OF ok]
  let ?S = "bv_dirty (bview_of s) \<union> ran (bv_held (bview_of s))" and ?f = "\<lambda>b. b_blockno (bufs s b)"
  assume "\<not> (\<exists>b < NBUF. evictable (bufs s b))"
  then have ld: "buf_locked s b \<or> buf_dirty s b" if "b < NBUF" for b
    using that buf_okD(3,7) [OF k(4) [OF that]] by auto
  then have "b_dev (bufs s b) = 1" if "b < NBUF" for b
    using that buf_okD(1) [OF k(4) [OF that]] by (auto simp: buf_dirty_def)
  then have "inj_on ?f {..<NBUF}" using k(3) by (auto simp: inj_on_def uniq_def)
  moreover have "?f ` {..<NBUF} \<subseteq> ?S"
  proof
    fix n assume "n \<in> ?f ` {..<NBUF}"
    then obtain b where b: "b < NBUF" "n = ?f b" by auto
    from ld [OF b(1)] show "n \<in> ?S"
      using b by (auto simp: dirty_view ran_def held_view)
  qed
  moreover have "finite ?S"
  proof -
    have "?S \<subseteq> ?f ` {..<NBUF}" by (auto simp: dirty_view ran_def held_view)
    then show ?thesis by (rule finite_subset) simp
  qed
  ultimately have "NBUF \<le> card ?S" by (metis card_inj_on_le card_lessThan)
  with room show False by simp
qed

lemma bread_takes:
  assumes q: "quiet s" "n < disksize s" and L: "lru L s"
    and u: "\<forall>b < NBUF. is_block 1 n (bufs s b) \<or> evictable (bufs s b) \<longrightarrow> \<not> buf_locked s b"
    and v: "\<forall>b < NBUF. is_block 1 n (bufs s b) \<longrightarrow> b_flags (bufs s b) AND B_VALID \<noteq> 0"
  shows "bread 1 n env s =
    (case find (\<lambda>b. is_block 1 n (bufs s b)) L of
       Some b \<Rightarrow> Ret b env (take_buf b ((bufs s b)\<lparr>b_refcnt := b_refcnt (bufs s b) + 1\<rparr>) s)
     | None \<Rightarrow> (case find (\<lambda>b. evictable (bufs s b)) (rev L) of
         Some b \<Rightarrow> Ret b env (take_buf b ((bufs s b)\<lparr>b_dev := 1, b_blockno := n, b_refcnt := 1,
            b_data := disk s 1 n, b_flags := B_VALID\<rparr>) s)
       | None \<Rightarrow> Panic ''bget: no buffers''))"
proof -
  note g = bget_exec [OF q(1) L, of 1 n, OF u [rule_format]]
  have "b_flags (bufs s b) AND B_VALID \<noteq> 0" if "find (\<lambda>b. is_block 1 n (bufs s b)) L = Some b" for b
    using v find_SomeD [OF that] lru_members [OF L] by simp
  moreover have "iderw b env (take_buf b ((bufs s b)\<lparr>b_dev := 1, b_blockno := n, b_flags := 0, b_refcnt := 1\<rparr>) s) =
      Ret () env (take_buf b ((bufs s b)\<lparr>b_dev := 1, b_blockno := n, b_refcnt := 1,
            b_data := disk s 1 n, b_flags := B_VALID\<rparr>) s)" for b
    by (subst iderw_read [OF _ _ refl]) (use q in \<open>simp_all add: slock_mine_iff, simp add: take_buf_def\<close>)
  ultimately show ?thesis
    unfolding bread_def by (simp add: kbind_apply g kthen_apply split: option.split)
qed

lemma bread_runs:
  assumes ok: "bcache_ok s" and n: "n < disksize s" "n \<notin> ran (bv_held (bview_of s))"
    and room: "n \<in> bv_dirty (bview_of s) \<or> card (bv_dirty (bview_of s) \<union> ran (bv_held (bview_of s))) < NBUF"
  shows "runs (bread 1 n) s (\<lambda>b t. bcache_ok t \<and> blocks_only s t \<and> bv_held (bview_of s) b = None \<and>
    bview_of t = (bview_of s)\<lparr>bv_held := (bv_held (bview_of s))(b := Some n)\<rparr>)"
proof -
  note k = bcache_okD [OF ok]
  obtain L where L: "lru L s" using k(2) by blast
  have u: "\<not> buf_locked s b" if "b < NBUF" "is_block 1 n (bufs s b) \<or> evictable (bufs s b)" for b
    using that n(2) buf_okD(2) [OF k(4) [OF that(1)]] by (auto simp: ran_def held_view)
  have v: "b_flags (bufs s b) AND B_VALID \<noteq> 0" if "b < NBUF" "is_block 1 n (bufs s b)" for b
    using that buf_okD(6) [OF k(4) [OF that(1)]] by auto
  have "\<forall>b < NBUF. is_block 1 n (bufs s b) \<or> evictable (bufs s b) \<longrightarrow> \<not> buf_locked s b"
    "\<forall>b < NBUF. is_block 1 n (bufs s b) \<longrightarrow> b_flags (bufs s b) AND B_VALID \<noteq> 0" using u v by blast+
  note r = bread_takes [OF k(1) n(1) L this]
  show ?thesis
  proof (cases "find (\<lambda>b. is_block 1 n (bufs s b)) L")
    case (Some b)
    then have b: "b < NBUF" "is_block 1 n (bufs s b)" using find_SomeD [OF Some] lru_members [OF L] by auto
    let ?x = "(bufs s b)\<lparr>b_refcnt := b_refcnt (bufs s b) + 1\<rparr>"
    have l: "\<not> buf_locked s b" using u b by blast
    have "b_data (bufs s b) = bv_data (bview_of s) n" using view_of_buf [OF k(3) b] by (simp add: bview_of_def)
    then have t: "bcache_ok (take_buf b ?x s)" "bview_of (take_buf b ?x s) = (bview_of s)\<lparr>bv_held := (bv_held (bview_of s))(b := Some (b_blockno ?x))\<rparr>"
      using b buf_okD(3,6) [OF k(4) [OF b(1)]] l n(1)
      by (intro take_buf_view [OF ok b(1) l]; auto simp: buf_dirty_def)+
    have h: "bv_held (bview_of s) b = None" using l by (simp add: bview_of_def)
    have rr: "bread 1 n env s = Ret b env (take_buf b ?x s)" for env unfolding r Some by simp
    show ?thesis by (rule runsI [of "bread 1 n", OF rr]) (use t h b in simp)
  next
    case None
    then have no: "\<not> is_block 1 n (bufs s c)" if "c < NBUF" for c
      using that lru_members [OF L] by (auto simp: find_None_iff)
    then have "n \<notin> bv_dirty (bview_of s)" by (auto simp: dirty_view buf_dirty_def)
    with room obtain c where "c < NBUF" "evictable (bufs s c)" using evictable_exists [OF ok] by blast
    then have "find (\<lambda>b. evictable (bufs s b)) (rev L) \<noteq> None" using lru_members [OF L] by (auto simp: find_None_iff)
    then obtain b where e: "find (\<lambda>b. evictable (bufs s b)) (rev L) = Some b" by blast
    then have b: "b < NBUF" "evictable (bufs s b)" using find_SomeD [OF e] lru_members [OF L] by auto
    let ?x = "(bufs s b)\<lparr>b_dev := 1, b_blockno := n, b_refcnt := 1, b_data := disk s 1 n, b_flags := B_VALID\<rparr>"
    have l: "\<not> buf_locked s b" using u b by blast
    have nd: "\<not> buf_dirty s b" using buf_okD(8) [OF k(4) [OF b(1)]] b(2) by blast
    have "view_of (bufs s) (disk s 1) n = disk s 1 n" using no by (rule view_of_none)
    then have t: "bcache_ok (take_buf b ?x s)" "bview_of (take_buf b ?x s) = (bview_of s)\<lparr>bv_held := (bv_held (bview_of s))(b := Some (b_blockno ?x))\<rparr>"
      using b n(1) no nd
      by (intro take_buf_view [OF ok b(1) l]; auto simp: bview_of_def)+
    have h: "bv_held (bview_of s) b = None" using l by (simp add: bview_of_def)
    have rr: "bread 1 n env s = Ret b env (take_buf b ?x s)" for env unfolding r None e by simp
    show ?thesis by (rule runsI [of "bread 1 n", OF rr]) (use t h in simp)
  qed
qed

lemma view_disk:
  assumes "uniq B" and "b < NBUF" and "is_block 1 n (B b)"
  shows "view_of B (d(n := v)) = view_of B d"
proof
  fix m
  show "view_of B (d(n := v)) m = view_of B d m"
  proof (cases "m = n")
    case True
    then show ?thesis using view_of_buf [OF assms] by simp
  next
    case False
    then show ?thesis by (simp add: view_of_def split: option.split)
  qed
qed

lemma bview_sel:
  "bv_data (bview_of s) = view_of (bufs s) (disk s 1)" "bv_disk (bview_of s) = disk s 1" "bv_writes (bview_of s) = disk_history s"
  by (simp_all add: bview_of_def)

lemma uniq_upd: "uniq B \<Longrightarrow> b_dev x = b_dev (B b) \<Longrightarrow> b_blockno x = b_blockno (B b) \<Longrightarrow> uniq (B(b := x))"
proof -
  assume a: "uniq B" "b_dev x = b_dev (B b)" "b_blockno x = b_blockno (B b)"
  have "b_dev ((B(b := x)) c) = b_dev (B c)" "b_blockno ((B(b := x)) c) = b_blockno (B c)" for c using a(2,3) by simp_all
  with a(1) show ?thesis unfolding uniq_def by (simp only:)
qed

text \<open>Changing a held buffer, or the disk under it.\<close>

lemma held_change:
  assumes ok: "bcache_ok s" and b: "b < NBUF" "buf_locked s b"
    and x: "b_dev x = 1" "b_refcnt x = 1" "b_blockno x = b_blockno (bufs s b)" "b_next x = b_next (bufs s b)" "b_prev x = b_prev (bufs s b)"
    and f: "b_flags x = B_VALID \<or> b_flags x = B_VALID OR B_DIRTY"
    and d: "d = disk s 1 \<or> (\<exists>v. d = (disk s 1)(b_blockno x := v))"
    and t: "t = s\<lparr>bufs := (bufs s)(b := x), disk := (disk s)(1 := d), disk_history := w\<rparr>"
  shows "bcache_ok t" and "blocks_only s t"
    and "bview_of t = (bview_of s)\<lparr>bv_data := (bv_data (bview_of s))(b_blockno x := b_data x), bv_disk := d, bv_writes := w,
       bv_dirty := (if b_flags x = B_VALID then bv_dirty (bview_of s) - {b_blockno x} else insert (b_blockno x) (bv_dirty (bview_of s)))\<rparr>"
proof -
  note k = bcache_okD [OF ok]
  note o = buf_okD [OF k(4) [OF b(1)]]
  obtain L where L: "lru L s" using k(2) by blast
  have dev: "b_dev (bufs s b) = 1" using o(1) b(2) .
  have u: "uniq (bufs t)" using k(3) x(1,3) dev t by (simp add: uniq_upd)
  have q: "quiet t" "cur_pid t = cur_pid s" "hw t = hw s" "disksize t = disksize s"
    using k(1) by (simp_all add: t quiet_def cur_pid_def)
  have other: "d (b_blockno (bufs s c)) = disk s 1 (b_blockno (bufs s c))" if "c < NBUF" "c \<noteq> b" "b_dev (bufs s c) = 1" for c
    using d that k(3) b(1) dev x(3) by (auto simp: uniq_def)
  have "buf_ok t c" if "c < NBUF" for c
  proof (cases "c = b")
    case True
    have m: "slock_mine (BufLock b) t" "buf_locked t b" using o(4) b(2) k(1) q by (simp_all add: slock_mine_iff buf_locked_def)
    then show ?thesis using True x(1-3) f o(5) [OF dev] q(4) by (simp add: buf_ok_def Let_def t)
  next
    case False
    then show ?thesis using other [OF that] by (intro buf_ok_other [OF k(4) [OF that]]) (use k(1) q in \<open>simp_all add: t\<close>)
  qed
  moreover have "lru L t" by (rule lru_keep [OF L x(4,5)]) (simp add: t)
  ultimately show "bcache_ok t" using q(1) u by (auto simp: bcache_ok_def)
  show "blocks_only s t" by (simp add: blocks_only_def t)
  have "view_of (bufs t) d = view_of (bufs t) (disk s 1)"
    using d view_disk [OF u b(1), of "b_blockno x" "disk s 1"] x(1) by (auto simp: t)
  also have "\<dots> = (view_of (bufs s) (disk s 1))(b_blockno x := b_data x)"
    using view_upd [OF k(3) _ b(1) x(1), of "disk s 1"] u x(3) by (simp add: t)
  finally have v: "view_of (bufs t) d = (view_of (bufs s) (disk s 1))(b_blockno x := b_data x)" .
  have bd: "buf_dirty t c \<longleftrightarrow> (if c = b then b_flags x = B_VALID OR B_DIRTY else buf_dirty s c)" for c
    using x(1) by (simp add: buf_dirty_def t)
  have e: "c = b" if "c < NBUF" "buf_dirty s c" "b_blockno (bufs s c) = b_blockno x" for c
    using that k(3) b(1) dev x(3) by (auto simp: uniq_def buf_dirty_def)
  have bn: "b_blockno (bufs t c) = b_blockno (bufs s c)" for c using x(3) by (simp add: t)
  have in_b: "b_blockno x \<in> bv_dirty (bview_of t) \<longleftrightarrow> b_flags x \<noteq> B_VALID"
    using f e b(1) x(3) bd [of b] by (auto simp: dirty_view bd bn flag_bits2 split: if_splits)
  have in_o: "n \<in> bv_dirty (bview_of t) \<longleftrightarrow> n \<in> bv_dirty (bview_of s)" if "n \<noteq> b_blockno x" for n
  proof -
    have "buf_dirty t c \<and> b_blockno (bufs t c) = n \<longleftrightarrow> buf_dirty s c \<and> b_blockno (bufs s c) = n" for c
      using that x(3) by (cases "c = b") (auto simp: bd bn)
    then show ?thesis by (simp add: dirty_view)
  qed
  have "bv_dirty (bview_of t) = (if b_flags x = B_VALID then bv_dirty (bview_of s) - {b_blockno x} else insert (b_blockno x) (bv_dirty (bview_of s)))"
  proof (rule set_eqI)
    fix n
    show "n \<in> bv_dirty (bview_of t) \<longleftrightarrow> n \<in> (if b_flags x = B_VALID then bv_dirty (bview_of s) - {b_blockno x} else insert (b_blockno x) (bv_dirty (bview_of s)))"
      using in_b in_o [of n] by (cases "n = b_blockno x") simp_all
  qed
  moreover have "bv_held (bview_of t) = bv_held (bview_of s)"
    by (intro ext) (simp add: bview_of_def bn q(3) buf_locked_def)
  ultimately show "bview_of t = (bview_of s)\<lparr>bv_data := (bv_data (bview_of s))(b_blockno x := b_data x), bv_disk := d, bv_writes := w,
       bv_dirty := (if b_flags x = B_VALID then bv_dirty (bview_of s) - {b_blockno x} else insert (b_blockno x) (bv_dirty (bview_of s)))\<rparr>"
    using v by (intro bview.equality) (simp_all add: bview_sel t)
qed

lemma heldE:
  assumes "bcache_ok s" and "bv_held (bview_of s) b = Some n"
  shows "b < NBUF" "buf_locked s b" "b_blockno (bufs s b) = n" "b_dev (bufs s b) = 1" "b_refcnt (bufs s b) = 1"
    "n < disksize s" "slock_mine (BufLock b) s" "b_data (bufs s b) = bv_data (bview_of s) n"
    "b_flags (bufs s b) = B_VALID \<or> b_flags (bufs s b) = B_VALID OR B_DIRTY"
    "n \<in> bv_dirty (bview_of s) \<longleftrightarrow> b_flags (bufs s b) = B_VALID OR B_DIRTY"
proof -
  note k = bcache_okD [OF assms(1)]
  show h: "b < NBUF" "buf_locked s b" "b_blockno (bufs s b) = n" using assms(2) by (simp_all add: held_view)
  note o = buf_okD [OF k(4) [OF h(1)]]
  show dev: "b_dev (bufs s b) = 1" "b_refcnt (bufs s b) = 1" "slock_mine (BufLock b) s" using o h(2) by simp_all
  show "n < disksize s" "b_flags (bufs s b) = B_VALID \<or> b_flags (bufs s b) = B_VALID OR B_DIRTY" using o(5,6) dev(1) h(3) by simp_all
  show "b_data (bufs s b) = bv_data (bview_of s) n" using view_of_buf [OF k(3) h(1)] dev h(3) by (simp add: bview_sel)
  have "c = b" if "c < NBUF" "buf_dirty s c" "b_blockno (bufs s c) = n" for c
    using that k(3) h(1,3) dev(1) by (simp add: uniq_def buf_dirty_def)
  then have "n \<in> bv_dirty (bview_of s) \<longleftrightarrow> buf_dirty s b"
    unfolding dirty_view using h(1,3) by blast
  then show "n \<in> bv_dirty (bview_of s) \<longleftrightarrow> b_flags (bufs s b) = B_VALID OR B_DIRTY"
    using dev(1) by (simp add: buf_dirty_def)
qed

lemma bwrite_runs:
  assumes ok: "bcache_ok s" and h: "bv_held (bview_of s) b = Some n"
  shows "runs (bwrite b) s (\<lambda>_ t. bcache_ok t \<and> blocks_only s t \<and>
    bview_of t = (bview_of s)\<lparr>bv_disk := (bv_disk (bview_of s))(n := bv_data (bview_of s) n),
      bv_writes := bv_writes (bview_of s) @ [(n, bv_data (bview_of s) n)], bv_dirty := bv_dirty (bview_of s) - {n}\<rparr>)"
proof -
  note e = heldE [OF ok h] and q = bcache_okD(1) [OF ok]
  let ?x = "bufs s b" and ?v = "bv_data (bview_of s) n"
  let ?t = "s\<lparr>bufs := (bufs s)(b := ?x\<lparr>b_flags := B_VALID\<rparr>), disk := (disk s)(1 := (disk s 1)(n := ?v)), disk_history := disk_history s @ [(n, ?v)]\<rparr>"
  let ?s1 = "s\<lparr>bufs := (bufs s)(b := ?x\<lparr>b_flags := B_VALID OR B_DIRTY\<rparr>)\<rparr>"
  have q1: "quiet ?s1" "slock_mine (BufLock b) ?s1" using q e(7) by (simp_all add: quiet_def slock_mine_def)
  have h1: "holdingsleep (BufLock b) env s = Ret True env s" for env
    using holdingsleep_exec [OF quietD(1,2,4) [OF q], of "BufLock b" env] e(7) by simp
  have "iderw b env ?s1 = Ret () env ?t" for env
    using iderw_write [OF q1 refl, of env] e(3,4,6,8) by simp
  moreover have "b_flags ?x OR B_DIRTY = B_VALID OR B_DIRTY" using e(9) by (auto simp: B_VALID_def B_DIRTY_def)
  ultimately have r: "bwrite b env s = Ret () env ?t" for env
    unfolding bwrite_def by (simp add: kbind_RetI [of "holdingsleep (BufLock b)", OF h1] kthen_apply upd_buf_def)
  have c: "bcache_ok ?t" "blocks_only s ?t"
      "bview_of ?t = (bview_of s)\<lparr>bv_data := (bv_data (bview_of s))(n := ?v), bv_disk := (disk s 1)(n := ?v), bv_writes := disk_history s @ [(n, ?v)],
       bv_dirty := bv_dirty (bview_of s) - {n}\<rparr>"
    using held_change [OF ok e(1,2), of "?x\<lparr>b_flags := B_VALID\<rparr>" "(disk s 1)(n := ?v)" ?t "disk_history s @ [(n, ?v)]"] e(3,4,5,8) by auto
  show ?thesis by (rule runsI [of "bwrite b", OF r]) (use c in \<open>simp add: bview_sel\<close>)
qed

lemma bdata_runs:
  assumes ok: "bcache_ok s" and h: "bv_held (bview_of s) b = Some n"
  shows "runs (kmod (\<lambda>s. s\<lparr>bufs := (bufs s)(b := (bufs s b)\<lparr>b_data := f s\<rparr>)\<rparr>)) s (\<lambda>_ t. bcache_ok t \<and> blocks_only s t \<and>
    bview_of t = (bview_of s)\<lparr>bv_data := (bv_data (bview_of s))(n := f s)\<rparr>)"
proof -
  note e = heldE [OF ok h]
  let ?x = "(bufs s b)\<lparr>b_data := f s\<rparr>"
  let ?t = "s\<lparr>bufs := (bufs s)(b := ?x)\<rparr>"
  have t: "?t = s\<lparr>bufs := (bufs s)(b := ?x), disk := (disk s)(1 := disk s 1), disk_history := disk_history s\<rparr>" by simp
  have d: "(if b_flags ?x = B_VALID then bv_dirty (bview_of s) - {n} else insert n (bv_dirty (bview_of s))) = bv_dirty (bview_of s)"
    using e(9,10) by (auto simp: flag_bits2)
  have c: "bcache_ok ?t" "blocks_only s ?t"
      "bview_of ?t = (bview_of s)\<lparr>bv_data := (bv_data (bview_of s))(n := f s)\<rparr>"
    using held_change [OF ok e(1,2), of ?x "disk s 1" ?t "disk_history s"] e(3,4,5,9) t d by (auto simp: bview_of_def)
  show ?thesis by (rule runsI [of _ s "()" ?t]) (use c in simp_all)
qed

lemma bdirty_runs:
  assumes ok: "bcache_ok s" and h: "bv_held (bview_of s) b = Some n"
  shows "runs (upd_buf b (\<lambda>x. x\<lparr>b_flags := b_flags x OR B_DIRTY\<rparr>)) s (\<lambda>_ t. bcache_ok t \<and> blocks_only s t \<and>
    bview_of t = (bview_of s)\<lparr>bv_dirty := insert n (bv_dirty (bview_of s))\<rparr>)"
proof -
  note e = heldE [OF ok h]
  let ?x = "(bufs s b)\<lparr>b_flags := B_VALID OR B_DIRTY\<rparr>"
  let ?t = "s\<lparr>bufs := (bufs s)(b := ?x)\<rparr>"
  have t: "?t = s\<lparr>bufs := (bufs s)(b := ?x), disk := (disk s)(1 := disk s 1), disk_history := disk_history s\<rparr>" by simp
  have f: "b_flags (bufs s b) OR B_DIRTY = B_VALID OR B_DIRTY" using e(9) by (auto simp: B_VALID_def B_DIRTY_def)
  have c: "bcache_ok ?t" "blocks_only s ?t"
      "bview_of ?t = (bview_of s)\<lparr>bv_data := (bv_data (bview_of s))(n := b_data (bufs s b)), bv_dirty := insert n (bv_dirty (bview_of s))\<rparr>"
    using held_change [OF ok e(1,2), of ?x "disk s 1" ?t "disk_history s"] e(3,4,5) t by (auto simp: bview_of_def flag_bits2)
  show ?thesis by (rule runsI [of _ s "()" ?t]) (use c e(8) f in \<open>simp_all add: upd_buf_def\<close>)
qed

definition free_buf :: "nat \<Rightarrow> kernel \<Rightarrow> kernel" where
  "free_buf b s = s\<lparr>hw := slock_set (BufLock b) 0 0 (hw s), ptable := wake (Some (ChanSleepLock (BufLock b))) (ptable s),
     bufs := relink b ((bufs s)(b := (bufs s b)\<lparr>b_refcnt := 0\<rparr>))\<rparr>"

lemma free_buf_simps [simp]:
  "hw (free_buf b s) = slock_set (BufLock b) 0 0 (hw s)" "ptable (free_buf b s) = wake (Some (ChanSleepLock (BufLock b))) (ptable s)"
  "bufs (free_buf b s) = relink b ((bufs s)(b := (bufs s b)\<lparr>b_refcnt := 0\<rparr>))" "disk (free_buf b s) = disk s"
  "disksize (free_buf b s) = disksize s" "disk_history (free_buf b s) = disk_history s" "cur_pid (free_buf b s) = cur_pid s"
  by (simp_all add: free_buf_def cur_pid_def)

lemma quiet_free [simp]: "quiet s \<Longrightarrow> quiet (free_buf b s)"
  by (simp add: quiet_def)

lemma blocks_only_free: "blocks_only s (free_buf b s)"
  by (simp add: blocks_only_def free_buf_def slock_set_def wake_def)

lemma brelse_exec:
  assumes q: "quiet s" and m: "slock_mine (BufLock b) s" "b_refcnt (bufs s b) = 1"
  shows "brelse b env s = Ret () env (free_buf b s)"
proof -
  note d = quietD [OF q]
  let ?s1 = "s\<lparr>hw := slock_set (BufLock b) 0 0 (hw s), ptable := wake (Some (ChanSleepLock (BufLock b))) (ptable s)\<rparr>"
  have h: "holdingsleep (BufLock b) env s = Ret True env s"
    using holdingsleep_exec [OF d(1,2,4), of "BufLock b" env] m(1) by simp
  have r: "releasesleep (BufLock b) env s = Ret () env ?s1" by (rule releasesleep_exec) (simp_all add: d)
  have a: "acquire BcacheLock env ?s1 = Ret () env (?s1\<lparr>hw := hold BcacheLock (hw ?s1)\<rparr>)"
    by (rule acquire_exec) (simp_all add: d)
  have z: "release BcacheLock env (?s1\<lparr>hw := hold BcacheLock (hw ?s1), bufs := bufs (free_buf b s)\<rparr>) = Ret () env (free_buf b s)"
    by (subst release_hold [where h = "hw ?s1"]) (simp_all add: d, simp add: free_buf_def)
  show ?thesis
    unfolding brelse_def
    using m(2) r a z by (simp add: kbind_RetI [of "holdingsleep (BufLock b)", OF h] kthen_apply upd_buf_def bfront_exec)
qed

lemma free_buf_fields:
  "unlinked (bufs (free_buf b s) c) = unlinked (if c = b then (bufs s b)\<lparr>b_refcnt := 0\<rparr> else bufs s c)"
  by simp

lemma brelse_runs:
  assumes ok: "bcache_ok s" and h: "bv_held (bview_of s) b = Some n"
    and c: "n \<in> bv_dirty (bview_of s) \<or> bv_data (bview_of s) n = bv_disk (bview_of s) n"
  shows "runs (brelse b) s (\<lambda>_ t. bcache_ok t \<and> blocks_only s t \<and>
    bview_of t = (bview_of s)\<lparr>bv_held := (bv_held (bview_of s))(b := None)\<rparr>)"
proof -
  note e = heldE [OF ok h] and k = bcache_okD [OF ok]
  let ?t = "free_buf b s" and ?x = "(bufs s b)\<lparr>b_refcnt := 0\<rparr>"
  let ?B = "(bufs s)(b := ?x)"
  note f = unlinked_fields [OF free_buf_fields]
  have r: "brelse b env s = Ret () env ?t" for env by (rule brelse_exec [OF k(1) e(7,5)])
  obtain L where L: "lru L s" using k(2) by blast
  then have "lru L (s\<lparr>bufs := ?B\<rparr>)" by (rule lru_keep [where b = b and x = ?x]) simp_all
  then have l: "lru (b # remove1 b L) ?t" by (rule lru_relink [OF _ e(1)]) simp
  have v: "view_of (bufs ?t) (disk s 1) = view_of ?B (disk s 1)" "uniq (bufs ?t) = uniq ?B"
    by (rule unlinked_view; simp)+
  have u: "uniq ?B" using k(3) by (intro uniq_upd) simp_all
  have v2: "view_of ?B (disk s 1) = view_of (bufs s) (disk s 1)"
    using view_upd [OF k(3) u e(1), of "disk s 1"] e(3,4,8) by (simp add: bview_sel)
  have lk: "buf_locked ?t c \<longleftrightarrow> c \<noteq> b \<and> buf_locked s c" for c by (simp add: buf_locked_def)
  have "buf_ok ?t c" if "c < NBUF" for c
  proof (cases "c = b")
    case True
    have "b_data (bufs s b) = disk s 1 n" if "b_flags (bufs s b) = B_VALID"
      using c that e(8,10) by (simp add: bview_sel)
    then show ?thesis using True e(3,4,6,9) lk [of b] by (simp add: buf_ok_def Let_def f)
  next
    case False
    then show ?thesis using k(1) by (intro buf_ok_other [OF k(4) [OF that]]) simp_all
  qed
  then have ok': "bcache_ok ?t" using l k(1) u v(2) by (auto simp: bcache_ok_def)
  have bd: "buf_dirty ?t c = buf_dirty s c" "b_blockno (bufs ?t c) = b_blockno (bufs s c)" for c
    by (simp_all add: buf_dirty_def f)
  have "bview_of ?t = (bview_of s)\<lparr>bv_held := (bv_held (bview_of s))(b := None)\<rparr>"
  proof (rule bview.equality)
    show "bv_dirty (bview_of ?t) = bv_dirty ((bview_of s)\<lparr>bv_held := (bv_held (bview_of s))(b := None)\<rparr>)"
      by (simp add: set_eq_iff dirty_view bd del: free_buf_simps)
    show "bv_held (bview_of ?t) = bv_held ((bview_of s)\<lparr>bv_held := (bv_held (bview_of s))(b := None)\<rparr>)"
      by (rule ext) (simp add: bview_of_def bd lk del: free_buf_simps)
  qed (use v v2 in \<open>simp_all add: bview_sel\<close>)
  then show ?thesis by (intro runsI [of "brelse b", OF r]) (use ok' blocks_only_free in simp_all)
qed

interpretation bc: block_store bcache_ok bview_of blocks_only disksize NBUF "bread 1" bwrite brelse bcopy upd_bdata "\<lambda>b s. b_data (bufs s b)"
proof
  show "blocks_only s u" if "blocks_only s t" "blocks_only t u" for s t u using that by (rule blocks_only_trans)
  show "disksize t = disksize s" if "blocks_only s t" for s t using that by (rule blocks_onlyD)
  show "b_data (bufs s b) = bv_data (bview_of s) n" if "bcache_ok s" "bv_held (bview_of s) b = Some n" for s b n
    using that by (rule heldE)
  show "runs (bread 1 n) s (\<lambda>b t. bcache_ok t \<and> blocks_only s t \<and> bv_held (bview_of s) b = None \<and> bview_of t = bv_hold b n (bview_of s))"
    if "bcache_ok s" "n < disksize s" "n \<notin> ran (bv_held (bview_of s))" "bv_room NBUF n (bview_of s)" for s n
    using bread_runs [OF that(1-3)] that(4) by (simp add: bv_room_def bv_hold_def)
  show "runs (bwrite b) s (\<lambda>_ t. bcache_ok t \<and> blocks_only s t \<and> bview_of t = bv_write n (bview_of s))"
    if "bcache_ok s" "bv_held (bview_of s) b = Some n" for s b n
    using bwrite_runs [OF that] by (simp add: bv_write_def)
  show "runs (brelse b) s (\<lambda>_ t. bcache_ok t \<and> blocks_only s t \<and> bview_of t = bv_drop b (bview_of s))"
    if "bcache_ok s" "bv_held (bview_of s) b = Some n" "n \<in> bv_dirty (bview_of s) \<or> bv_clean n (bview_of s)" for s b n
    using brelse_runs [OF that(1,2)] that(3) by (simp add: bv_drop_def bv_clean_def)
  show "runs (bcopy b a) s (\<lambda>_ t. bcache_ok t \<and> blocks_only s t \<and> bview_of t = bv_put n (bv_data (bview_of s) m) (bview_of s))"
    if "bcache_ok s" "bv_held (bview_of s) b = Some n" "bv_held (bview_of s) a = Some m" for s a b n m
    using bdata_runs [OF that(1,2), of "\<lambda>s. b_data (bufs s a)"] heldE(8) [OF that(1,3)] by (simp add: bcopy_def bv_put_def)
  show "runs (upd_bdata b f) s (\<lambda>_ t. bcache_ok t \<and> blocks_only s t \<and> bview_of t = bv_put n (f (bv_data (bview_of s) n)) (bview_of s))"
    if "bcache_ok s" "bv_held (bview_of s) b = Some n" for s b n f
    using bdata_runs [OF that, of "\<lambda>s. f (b_data (bufs s b))"] heldE(8) [OF that] by (simp add: upd_bdata_def upd_buf_def bv_put_def)
qed simp

end
