(* ===== verification/Journal.thy ===== *)
theory Journal
  imports Bcache
begin

text \<open>
  The log of \<^verbatim>\<open>log.c\<close> over the buffer cache: what \<^verbatim>\<open>commit\<close> writes and in which order,
  what recovery makes of a disk on which only some of these writes have arrived, and what a
  whole transaction does.
\<close>

section \<open>The log over the cache\<close>

definition log_blk :: "logst \<Rightarrow> nat \<Rightarrow> uint" where
  "log_blk lg i = lg_start lg + of_nat i + 1"

definition logged :: "logst \<Rightarrow> uint list" where
  "logged lg = map (lg_block lg) [0..<nat (lg_n lg)]"

definition log_region :: "logst \<Rightarrow> uint set" where
  "log_region lg = {m. lg_start lg \<le> m \<and> unat m < unat (lg_start lg) + nat (lg_size lg)}"

text \<open>The log lies on the disk and the transaction fits into it; its blocks are distinct and outside of the log.\<close>

definition log_wf :: "uint \<Rightarrow> logst \<Rightarrow> bool" where
  "log_wf sz lg \<longleftrightarrow> lg_dev lg = 1 \<and> 0 \<le> lg_n lg \<and> lg_n lg \<le> int LOGSIZE \<and> lg_n lg < lg_size lg \<and>
     unat (lg_start lg) + nat (lg_size lg) \<le> unat sz \<and> distinct (logged lg) \<and>
     (\<forall>n \<in> set (logged lg). n < sz \<and> n \<notin> log_region lg)"

lemma log_update_parts [simp]:
  "quiet (s\<lparr>log := l\<rparr>) = quiet s" "lru L (s\<lparr>log := l\<rparr>) = lru L s" "buf_locked (s\<lparr>log := l\<rparr>) b = buf_locked s b"
  "slock_mine k (s\<lparr>log := l\<rparr>) = slock_mine k s" "buf_dirty (s\<lparr>log := l\<rparr>) b = buf_dirty s b"
  by (simp_all add: quiet_def lru_def buf_locked_def slock_mine_def buf_dirty_def)

lemma log_update [simp]: "bcache_ok (s\<lparr>log := l\<rparr>) = bcache_ok s" "bview_of (s\<lparr>log := l\<rparr>) = bview_of s"
proof -
  have "buf_ok (s\<lparr>log := l\<rparr>) b = buf_ok s b" for b by (simp add: buf_ok_def)
  then show "bcache_ok (s\<lparr>log := l\<rparr>) = bcache_ok s" by (simp add: bcache_ok_def)
  have "bufs (s\<lparr>log := l\<rparr>) = bufs s" "disk (s\<lparr>log := l\<rparr>) = disk s" "disk_history (s\<lparr>log := l\<rparr>) = disk_history s" by simp_all
  then show "bview_of (s\<lparr>log := l\<rparr>) = bview_of s" unfolding bview_of_def by (simp only: log_update_parts)
qed

lemma clean_unless:
  assumes "bcache_ok s" and "n \<notin> bv_dirty (bview_of s)" and "n \<notin> ran (bv_held (bview_of s))"
  shows "bv_clean n (bview_of s)"
proof (cases "\<exists>b < NBUF. is_block 1 n (bufs s b)")
  case True
  note k = bcache_okD [OF assms(1)]
  from True obtain b where b: "b < NBUF" "is_block 1 n (bufs s b)" by blast
  have "\<not> buf_locked s b" using assms(3) b by (auto simp: ran_def held_view)
  moreover have "b_flags (bufs s b) = B_VALID"
    using assms(2) b buf_okD(6) [OF k(4) [OF b(1)]] by (auto simp: dirty_view buf_dirty_def)
  ultimately have "b_data (bufs s b) = disk s 1 n" using k(4) [OF b(1)] b by (simp add: buf_ok_def Let_def)
  then show ?thesis using view_of_buf [OF k(3) b] by (simp add: bv_clean_def bview_sel)
next
  case False
  then show ?thesis using view_of_none [of "bufs s" n "disk s 1"] by (auto simp: bv_clean_def bview_sel)
qed

lemma finite_dirty: "finite (bv_dirty (bview_of s))"
  by (simp add: bview_of_def)

lemma log_blk_facts:
  assumes "log_wf sz lg" and "i < nat (lg_n lg)"
  shows "unat (log_blk lg i) = unat (lg_start lg) + i + 1" "log_blk lg i < sz" "log_blk lg i \<in> log_region lg"
    "log_blk lg i \<noteq> lg_start lg" "lg_block lg i < sz" "lg_block lg i \<notin> log_region lg"
proof -
  have w: "unat (lg_start lg) + nat (lg_size lg) \<le> unat sz" "lg_n lg < lg_size lg" using assms(1) by (auto simp: log_wf_def)
  have b: "unat (lg_start lg) + i + 1 < unat sz" using w assms(2) by linarith
  then have "unat (lg_start lg) + i + 1 < 4294967296" using unat_less_2p32 [of sz] by linarith
  then show u: "unat (log_blk lg i) = unat (lg_start lg) + i + 1"
    using unat_plus_of_nat [of "lg_start lg" "i + 1"] by (simp add: log_blk_def add.assoc add.commute [of 1])
  then show "log_blk lg i < sz" "log_blk lg i \<noteq> lg_start lg" using b by (auto simp: word_less_nat_alt)
  show "log_blk lg i \<in> log_region lg" using u w assms(2) by (simp add: log_region_def word_le_nat_alt)
  have "lg_block lg i \<in> set (logged lg)" using assms(2) by (simp add: logged_def)
  then show "lg_block lg i < sz" "lg_block lg i \<notin> log_region lg" using assms(1) by (auto simp: log_wf_def)
qed

lemma log_blk_inj:
  assumes "log_wf sz lg" "i < nat (lg_n lg)" "j < nat (lg_n lg)" "log_blk lg i = log_blk lg j"
  shows "i = j"
proof -
  have "unat (lg_start lg) + i + 1 = unat (lg_start lg) + j + 1"
    using log_blk_facts(1) [OF assms(1,2)] log_blk_facts(1) [OF assms(1,3)] arg_cong [OF assms(4), of unat] by (simp only:)
  then show ?thesis by simp
qed

lemma log_start_facts:
  assumes "log_wf sz lg"
  shows "lg_start lg < sz" "lg_start lg \<in> log_region lg"
proof -
  have w: "unat (lg_start lg) + nat (lg_size lg) \<le> unat sz" "0 \<le> lg_n lg" "lg_n lg < lg_size lg" using assms by (simp_all add: log_wf_def)
  then have "unat (lg_start lg) < unat sz" "0 < nat (lg_size lg)" by linarith+
  then show "lg_start lg < sz" "lg_start lg \<in> log_region lg" by (simp_all add: log_region_def word_less_nat_alt)
qed

lemma lg_block_inj: "log_wf sz lg \<Longrightarrow> i < nat (lg_n lg) \<Longrightarrow> j < nat (lg_n lg) \<Longrightarrow> lg_block lg i = lg_block lg j \<longleftrightarrow> i = j"
proof -
  assume a: "log_wf sz lg" "i < nat (lg_n lg)" "j < nat (lg_n lg)"
  have "distinct (logged lg)" using a(1) by (simp add: log_wf_def)
  from nth_eq_iff_index_eq [OF this, of i j] a(2,3) show ?thesis by (simp add: logged_def)
qed

lemma upt_split: "[0..<n] = ys @ y # zs \<Longrightarrow> ys = [0..<y] \<and> y < n"
proof -
  assume a: "[0..<n] = ys @ y # zs"
  have l: "length ys < n" using arg_cong [OF a, of length] by simp
  have "y = length ys" using arg_cong [OF a, of "\<lambda>xs. xs ! length ys"] l by simp
  moreover have "ys = take (length ys) [0..<n]" using a by simp
  ultimately show ?thesis using l by (simp add: take_upt min_def)
qed

text \<open>The writes that fill the log, and those that copy it to the places the blocks belong to.\<close>

definition log_writes :: "logst \<Rightarrow> (uint \<Rightarrow> block) \<Rightarrow> (uint \<times> block) list" where
  "log_writes lg d = map (\<lambda>i. (log_blk lg i, d (lg_block lg i))) [0..<nat (lg_n lg)]"

definition home_writes :: "logst \<Rightarrow> (uint \<Rightarrow> block) \<Rightarrow> (uint \<times> block) list" where
  "home_writes lg d = map (\<lambda>i. (lg_block lg i, d (log_blk lg i))) [0..<nat (lg_n lg)]"

definition head_block :: "logst \<Rightarrow> block \<Rightarrow> block" where
  "head_block lg d = fold (\<lambda>i d. store32 d (of_nat (4 + 4 * i)) (lg_block lg i)) [0..<nat (lg_n lg)]
     (store32 d 0 (of_int (lg_n lg)))"

text \<open>The state in which the log is written: the process has no buffer, and there is room for those it needs.\<close>

definition log_idle :: "kernel \<Rightarrow> bool" where
  "log_idle s \<longleftrightarrow> bcache_ok s \<and> bv_held (bview_of s) = (\<lambda>_. None) \<and> log_wf (disksize s) (log s) \<and>
     bv_dirty (bview_of s) \<inter> log_region (log s) = {}"

lemma log_idleD:
  assumes "log_idle s"
  shows "bcache_ok s" "bv_held (bview_of s) = (\<lambda>_. None)" "log_wf (disksize s) (log s)" "lg_dev (log s) = 1"
    "n \<in> bv_dirty (bview_of s) \<Longrightarrow> n \<notin> log_region (log s)" "n \<in> log_region (log s) \<Longrightarrow> n \<notin> bv_dirty (bview_of s)"
  using assms by (auto simp: log_idle_def log_wf_def)

lemma fst_map_pairs: "fst ` set (map (\<lambda>i. (f i, g i)) xs) = f ` set xs"
  by (induction xs) simp_all

lemma write_log_gives:
  assumes i: "log_idle s" and d: "set (logged (log s)) \<subseteq> bv_dirty (bview_of s)" "card (bv_dirty (bview_of s)) < NBUF"
  shows "bc.gives write_log s (written (log_writes (log s) (bv_data (bview_of s))) (bview_of s))"
proof -
  note k = log_idleD [OF i]
  let ?lg = "log s" and ?v = "bview_of s"
  let ?f = "\<lambda>i. (log_blk ?lg i, bv_data ?v (lg_block ?lg i))"
  have "bc.gives (kfor [0..<nat (lg_n ?lg)] write_log_one) s (written (map ?f [0..<nat (lg_n ?lg)]) ?v)"
  proof (rule bc.gives_for [where V = "\<lambda>ys. written (map ?f ys) ?v", OF k(1)])
    fix ys y zs t
    assume x: "[0..<nat (lg_n ?lg)] = ys @ y # zs" and t: "bcache_ok t" "blocks_only s t" "bview_of t = written (map ?f ys) ?v"
    have y: "ys = [0..<y]" "y < nat (lg_n ?lg)" using upt_split [OF x] by auto
    note lt = blocks_onlyD [OF t(2)] and b = log_blk_facts [OF k(3) y(2)]
    have w: "fst ` set (map ?f ys) \<subseteq> log_region ?lg"
      unfolding fst_map_pairs y(1) using log_blk_facts(3) [OF k(3)] y(2) by auto
    have wy: "lg_block ?lg y \<notin> fst ` set (map ?f ys)" using w b(6) by blast
    have src: "lg_block ?lg y \<in> bv_dirty (bview_of t)"
      using d(1) y(2) wy t(3) by (auto simp: logged_def)
    have c: "card (bv_dirty (bview_of t)) < NBUF"
      using d(2) card_mono [OF finite_dirty [of s], of "bv_dirty (bview_of t)"] t(3) by auto
    have same: "bv_data (bview_of t) (lg_block ?lg y) = bv_data ?v (lg_block ?lg y)"
      using disk_after_other [OF wy, of "bv_data ?v"] t(3) by simp
    have ne: "lg_block ?lg y \<noteq> log_blk ?lg y" using b(3,6) by auto
    have "bc.gives (write_log_one y) t (copied (log_blk ?lg y) (lg_block ?lg y) (bview_of t))"
      unfolding write_log_one_def
      by (rule bc.gives_get, unfold lt k(4) log_blk_def [symmetric], rule bc.copy_block(2))
        (use t k b src c lt finite_dirty ne in auto)
    then show "bc.gives (write_log_one y) t (written (map ?f (ys @ [y])) ?v)"
      unfolding copied_written same by (simp add: t(3))
  qed simp
  then show ?thesis unfolding write_log_def log_writes_def by (rule bc.gives_get)
qed

lemma install_gives:
  assumes i: "log_idle s" and d: "set (logged (log s)) \<subseteq> bv_dirty (bview_of s) \<and> card (bv_dirty (bview_of s)) < NBUF \<or>
      Suc (card (bv_dirty (bview_of s))) < NBUF"
  shows "bc.gives install_trans s (written (home_writes (log s) (bv_data (bview_of s))) (bview_of s))"
proof -
  note k = log_idleD [OF i]
  let ?lg = "log s" and ?v = "bview_of s"
  let ?f = "\<lambda>i. (lg_block ?lg i, bv_data ?v (log_blk ?lg i))"
  have "bc.gives (kfor [0..<nat (lg_n ?lg)] install_one) s (written (map ?f [0..<nat (lg_n ?lg)]) ?v)"
  proof (rule bc.gives_for [where V = "\<lambda>ys. written (map ?f ys) ?v", OF k(1)])
    fix ys y zs t
    assume x: "[0..<nat (lg_n ?lg)] = ys @ y # zs" and t: "bcache_ok t" "blocks_only s t" "bview_of t = written (map ?f ys) ?v"
    have y: "ys = [0..<y]" "y < nat (lg_n ?lg)" using upt_split [OF x] by auto
    note lt = blocks_onlyD [OF t(2)] and b = log_blk_facts [OF k(3) y(2)]
    have w: "n \<notin> log_region ?lg" if "n \<in> fst ` set (map ?f ys)" for n
      using that log_blk_facts(6) [OF k(3)] y unfolding fst_map_pairs by auto
    have wy: "lg_block ?lg y \<notin> fst ` set (map ?f ys)"
    proof
      assume "lg_block ?lg y \<in> fst ` set (map ?f ys)"
      then obtain j where j: "j < y" "lg_block ?lg y = lg_block ?lg j" unfolding fst_map_pairs y(1) by auto
      then show False using lg_block_inj [OF k(3) y(2), of j] y(2) by simp
    qed
    have src: "bv_clean (log_blk ?lg y) (bview_of t)"
      by (rule clean_unless [OF t(1)]) (use t(3) k(2) k(6) [OF b(3)] in auto)
    have c: "card (bv_dirty (bview_of t)) \<le> card (bv_dirty ?v)"
      using card_mono [OF finite_dirty [of s], of "bv_dirty (bview_of t)"] t(3) by auto
    have same: "bv_data (bview_of t) (log_blk ?lg y) = bv_data ?v (log_blk ?lg y)"
      using w b(3) t(3) disk_after_other [of "log_blk ?lg y" "map ?f ys" "bv_data ?v"] by auto
    have ne: "log_blk ?lg y \<noteq> lg_block ?lg y" using b(3,6) by auto
    have "lg_block ?lg y \<in> set (logged ?lg)" using y(2) by (simp add: logged_def)
    then have dy: "lg_block ?lg y \<in> bv_dirty (bview_of t)" if "set (logged ?lg) \<subseteq> bv_dirty ?v"
      using that wy unfolding t(3) written_simps by blast
    have room: "Suc (card (bv_dirty (bview_of t))) < NBUF \<or> card (bv_dirty (bview_of t)) < NBUF \<and>
        (log_blk ?lg y \<in> bv_dirty (bview_of t) \<or> lg_block ?lg y \<in> bv_dirty (bview_of t))"
      using d c dy by linarith
    have "bc.gives (install_one y) t (copied (lg_block ?lg y) (log_blk ?lg y) (bview_of t))"
      unfolding install_one_def
      by (rule bc.gives_get, unfold lt k(4) log_blk_def [symmetric], rule bc.copy_block(1))
        (use t k b src room lt finite_dirty ne in auto)
    then show "bc.gives (install_one y) t (written (map ?f (ys @ [y])) ?v)"
      unfolding copied_written same by (simp add: t(3))
  qed simp
  then show ?thesis unfolding install_trans_def home_writes_def by (rule bc.gives_get)
qed

context block_store
begin

lemma edit_for:
  assumes "ok s" and "bv_held (view s) b = Some n"
  shows "gives (kfor xs (\<lambda>i. md b (g i))) s (bv_put n (fold g xs (bv_data (view s) n)) (view s))"
proof (rule gives_for [where V = "\<lambda>ys. bv_put n (fold g ys (bv_data (view s) n)) (view s)", OF assms(1)])
  show "bv_put n (fold g [] (bv_data (view s) n)) (view s) = view s"
    by (rule bview.equality) (simp_all add: bv_put_def)
  fix ys y zs t assume t: "ok t" "view t = bv_put n (fold g ys (bv_data (view s) n)) (view s)"
  have h: "bv_held (view t) b = Some n" using t(2) assms(2) by (simp add: bv_put_def)
  show "gives (md b (g y)) t (bv_put n (fold g (ys @ [y]) (bv_data (view s) n)) (view s))"
    by (rule gives_eq [OF gives_md [OF t(1) h]]) (simp add: t(2) bv_put_def)
qed

lemma edit_then_for:
  assumes "ok s" and "bv_held (view s) b = Some n"
  shows "gives (kthen (md b f) (kfor xs (\<lambda>i. md b (g i)))) s (bv_put n (fold g xs (f (bv_data (view s) n))) (view s))"
proof (rule gives_seq [OF gives_md [OF assms]])
  fix t assume t: "ok t" "view t = bv_put n (f (bv_data (view s) n)) (view s)"
  have h: "bv_held (view t) b = Some n" using t(2) assms(2) by (simp add: bv_put_def)
  show "gives (kfor xs (\<lambda>i. md b (g i))) t (bv_put n (fold g xs (f (bv_data (view s) n))) (view s))"
    by (rule gives_eq [OF edit_for [OF t(1) h]]) (simp add: t(2) bv_put_def)
qed

end

lemma write_head_gives:
  assumes i: "log_idle s" and c: "card (bv_dirty (bview_of s)) < NBUF"
  shows "bc.gives write_head s (written [(lg_start (log s), head_block (log s) (bv_data (bview_of s) (lg_start (log s))))] (bview_of s))"
proof -
  note k = log_idleD [OF i]
  let ?lg = "log s"
  let ?ed = "\<lambda>b. kthen (upd_bdata b (\<lambda>d. store32 d 0 (of_int (lg_n ?lg))))
     (kfor [0..<nat (lg_n ?lg)] (\<lambda>i. upd_bdata b (\<lambda>d. store32 d (of_nat (4 + 4 * i)) (lg_block ?lg i))))"
  have "bc.gives (kbind (bread 1 (lg_start ?lg)) (\<lambda>b. kthen (?ed b) (kthen (bwrite b) (brelse b)))) s
    (bv_write (lg_start ?lg) (bv_put (lg_start ?lg) (head_block ?lg (bv_data (bview_of s) (lg_start ?lg))) (bview_of s)))"
  proof (rule bc.edit_block [OF k(1) log_start_facts(1) [OF k(3)] k(2)])
    show "bv_room NBUF (lg_start ?lg) (bview_of s)" using c k(2) by (simp add: bv_room_def)
    fix b t assume t: "bcache_ok t" "blocks_only s t" "bview_of t = bv_hold b (lg_start ?lg) (bview_of s)"
    have h: "bv_held (bview_of t) b = Some (lg_start ?lg)" using t(3) by (simp add: bv_hold_def)
    show "bc.gives (?ed b) t (bv_put (lg_start ?lg) (head_block ?lg (bv_data (bview_of s) (lg_start ?lg))) (bview_of t))"
      by (rule bc.gives_eq [OF bc.edit_then_for [OF t(1) h]]) (simp add: t(3) bv_hold_def head_block_def)
  qed
  then show ?thesis
    unfolding write_head_def written_one by (intro bc.gives_get) (simp add: k(4))
qed

lemma head_slots:
  assumes "i < LOGSIZE"
  shows "unat (of_nat (4 + 4 * i) :: 9 word) = 4 + 4 * i"
  using assms unfolding LOGSIZE_def MAXOPBLOCKS_def by (intro unat_of_nat_small) simp

lemma head_other:
  assumes "\<And>i. i \<in> set xs \<Longrightarrow> i < LOGSIZE" and "j < LOGSIZE" "j \<notin> set xs \<or> a = 0" and "a = 0 \<or> a = of_nat (4 + 4 * j)"
  shows "load32 (fold (\<lambda>i d. store32 d (of_nat (4 + 4 * i)) (f i)) xs d) (a :: 9 word) = load32 d a"
  using assms
proof (induction xs arbitrary: d)
  case (Cons x xs)
  have x: "x < LOGSIZE" using Cons.prems(1) by simp
  have "disjoint_runs a 4 (of_nat (4 + 4 * x)) 4"
    using head_slots [OF x] head_slots [OF Cons.prems(2)] Cons.prems(3,4) x Cons.prems(2)
    by (intro disjoint_runs_unat) (auto simp: LOGSIZE_def MAXOPBLOCKS_def)
  then show ?case using Cons.IH [of "store32 d (of_nat (4 + 4 * x)) (f x)"] Cons.prems
    by (simp only: fold_simps load32_store32_disjoint) auto
qed simp

lemma head_block_read:
  assumes "0 \<le> lg_n lg" "lg_n lg \<le> int LOGSIZE"
  shows "sint (load32 (head_block lg d) 0) = lg_n lg"
    and "i < nat (lg_n lg) \<Longrightarrow> load32 (head_block lg d) (of_nat (4 + 4 * i)) = lg_block lg i"
proof -
  have n: "nat (lg_n lg) \<le> LOGSIZE" using assms by simp
  have "load32 (head_block lg d) 0 = of_int (lg_n lg)"
    unfolding head_block_def by (subst head_other [where j = 0]) (use n in \<open>auto simp: LOGSIZE_def MAXOPBLOCKS_def\<close>)
  moreover have "sint (of_int (lg_n lg) :: uint) = lg_n lg"
    using assms by (simp add: sint32 uint_word_of_int LOGSIZE_def MAXOPBLOCKS_def)
  ultimately show "sint (load32 (head_block lg d) 0) = lg_n lg" by simp
  assume i: "i < nat (lg_n lg)"
  then have s: "[0..<nat (lg_n lg)] = [0..<i] @ i # [Suc i..<nat (lg_n lg)]"
    using upt_add_eq_append [of 0 i "nat (lg_n lg) - i"] upt_conv_Cons [of i "nat (lg_n lg)"] by simp
  show "load32 (head_block lg d) (of_nat (4 + 4 * i)) = lg_block lg i"
    unfolding head_block_def s fold_append o_apply fold_simps
    by (subst head_other [where j = i]) (use n i in auto)
qed

section \<open>Commit\<close>

text \<open>A finished transaction: the blocks in it, and only those, wait in the cache, and the log on disk is free.\<close>

definition head_count :: "block \<Rightarrow> int" where
  "head_count d = sint (load32 d 0)"

definition commit_ready :: "kernel \<Rightarrow> bool" where
  "commit_ready s \<longleftrightarrow> log_idle s \<and> bv_dirty (bview_of s) = set (logged (log s)) \<and> lg_n (log s) < int NBUF \<and>
     head_count (disk s 1 (lg_start (log s))) = 0"

definition commit_writes :: "kernel \<Rightarrow> (uint \<times> block) list" where
  "commit_writes s = (let lg = log s; d = bv_data (bview_of s); h = head_block lg (d (lg_start lg)) in
     log_writes lg d @ [(lg_start lg, h)] @ map (\<lambda>n. (n, d n)) (logged lg) @ [(lg_start lg, head_block (lg\<lparr>lg_n := 0\<rparr>) h)])"

lemma written_idle:
  assumes "log_idle s" and "bcache_ok t" "blocks_only s t" "bview_of t = written ws (bview_of s)"
  shows "log_idle t"
  using assms blocks_onlyD [OF assms(3)] by (auto simp: log_idle_def)

lemma log_region_n [simp]: "log_region (lg\<lparr>lg_n := n\<rparr>) = log_region lg"
  by (simp add: log_region_def)

lemma log_free_idle: "log_idle s \<Longrightarrow> log_idle (s\<lparr>log := (log s)\<lparr>lg_n := 0\<rparr>\<rparr>)"
  by (simp add: log_idle_def log_wf_def logged_def)

lemma blocks_only_log: "blocks_only s t \<Longrightarrow> blocks_only (s\<lparr>log := l\<rparr>) (t\<lparr>log := l\<rparr>)"
proof -
  assume a: "blocks_only s t"
  have "t\<lparr>log := l, hw := hw s, ptable := ptable s, bufs := bufs s, disk := disk s, disk_history := disk_history s\<rparr> =
    (t\<lparr>hw := hw s, ptable := ptable s, bufs := bufs s, disk := disk s, disk_history := disk_history s\<rparr>)\<lparr>log := l\<rparr>" by simp
  also have "\<dots> = s\<lparr>log := l\<rparr>" using a by (simp add: blocks_only_def)
  finally show ?thesis using a by (simp add: blocks_only_def)
qed

lemma blocks_only_log2: "blocks_only (s\<lparr>log := l\<rparr>) t \<Longrightarrow> blocks_only (s\<lparr>log := l'\<rparr>) (t\<lparr>log := l'\<rparr>)"
  using blocks_only_log [of "s\<lparr>log := l\<rparr>" t l'] by simp

lemma log_writes_view:
  assumes "log_wf sz lg"
  shows "fst ` set (log_writes lg d) \<subseteq> log_region lg - {lg_start lg}"
    and "i < nat (lg_n lg) \<Longrightarrow> disk_after e (log_writes lg d) (log_blk lg i) = d (lg_block lg i)"
proof -
  show "fst ` set (log_writes lg d) \<subseteq> log_region lg - {lg_start lg}"
    unfolding log_writes_def fst_map_pairs using log_blk_facts(3,4) [OF assms] by auto
  assume i: "i < nat (lg_n lg)"
  show "disk_after e (log_writes lg d) (log_blk lg i) = d (lg_block lg i)"
  proof (rule disk_after_one)
    show "log_blk lg i \<in> fst ` set (log_writes lg d)" unfolding log_writes_def fst_map_pairs using i by simp
    show "snd w = d (lg_block lg i)" if "w \<in> set (log_writes lg d)" "fst w = log_blk lg i" for w
    proof -
      note w = that
      obtain j where j: "j < nat (lg_n lg)" "w = (log_blk lg j, d (lg_block lg j))" using w(1) by (auto simp: log_writes_def)
      then have "j = i" using w(2) by (intro log_blk_inj [OF assms j(1) i]) simp
      then show ?thesis using j(2) by simp
    qed
  qed
qed

lemma clear_head_runs:
  assumes i: "log_idle t" and c: "card (bv_dirty (bview_of t)) < NBUF" and b: "blocks_only (s\<lparr>log := log t\<rparr>) t"
  shows "runs (kthen (upd_log (\<lambda>l. l\<lparr>lg_n := 0\<rparr>)) write_head) t (\<lambda>_ u. bcache_ok u \<and>
    blocks_only (s\<lparr>log := (log t)\<lparr>lg_n := 0\<rparr>\<rparr>) u \<and>
    bview_of u = written [(lg_start (log t), head_block ((log t)\<lparr>lg_n := 0\<rparr>) (bv_data (bview_of t) (lg_start (log t))))] (bview_of t))"
proof -
  let ?t = "t\<lparr>log := (log t)\<lparr>lg_n := 0\<rparr>\<rparr>"
  have i': "log_idle ?t" by (rule log_free_idle [OF i])
  have b': "blocks_only (s\<lparr>log := (log t)\<lparr>lg_n := 0\<rparr>\<rparr>) ?t" by (rule blocks_only_log2 [OF b])
  have "runs write_head ?t (\<lambda>_ u. bcache_ok u \<and> blocks_only (s\<lparr>log := (log t)\<lparr>lg_n := 0\<rparr>\<rparr>) u \<and>
    bview_of u = written [(lg_start (log t), head_block ((log t)\<lparr>lg_n := 0\<rparr>) (bv_data (bview_of t) (lg_start (log t))))] (bview_of t))"
    by (rule runs_conseq [OF write_head_gives [OF i', unfolded bc.gives_def]]) (use c b' blocks_only_trans in auto)
  then show ?thesis unfolding upd_log_def by (intro runs_kthen runs_kmod)
qed

lemma commit_gives:
  assumes r: "commit_ready s" and n: "0 < lg_n (log s)"
  shows "runs commit s (\<lambda>_ t. bcache_ok t \<and> blocks_only (s\<lparr>log := (log s)\<lparr>lg_n := 0\<rparr>\<rparr>) t \<and>
     bview_of t = written (commit_writes s) (bview_of s))"
proof -
  let ?lg = "log s" and ?v = "bview_of s" and ?d = "bv_data (bview_of s)"
  let ?st = "lg_start ?lg" and ?W1 = "log_writes ?lg ?d"
  let ?h = "head_block ?lg (?d ?st)"
  have i: "log_idle s" and dd: "bv_dirty ?v = set (logged ?lg)" and nb: "lg_n ?lg < int NBUF"
    using r by (auto simp: commit_ready_def)
  note k = log_idleD [OF i]
  have c: "card (bv_dirty ?v) < NBUF" unfolding dd
    using card_length [of "logged ?lg"] nb n by (simp add: logged_def)
  note w1 = log_writes_view [OF k(3), where d = ?d]
  have hw: "home_writes ?lg (disk_after ?d (?W1 @ [(?st, ?h)])) = map (\<lambda>n. (n, ?d n)) (logged ?lg)"
    unfolding home_writes_def logged_def map_map
    by (rule map_cong [OF refl]) (use w1(2) log_blk_facts(4) [OF k(3)] in auto)
  have disj: "n \<notin> set (logged ?lg)" if "n \<in> log_region ?lg" for n using that k(3) by (auto simp: log_wf_def)
  have "runs commit s = runs (kthen write_log (kthen write_head (kthen install_trans (kthen (upd_log (\<lambda>l. l\<lparr>lg_n := 0\<rparr>)) write_head)))) s"
    using n by (intro ext) (simp add: commit_def runs_def)
  moreover have "runs (kthen write_log (kthen write_head (kthen install_trans (kthen (upd_log (\<lambda>l. l\<lparr>lg_n := 0\<rparr>)) write_head)))) s
     (\<lambda>_ t. bcache_ok t \<and> blocks_only (s\<lparr>log := (log s)\<lparr>lg_n := 0\<rparr>\<rparr>) t \<and> bview_of t = written (commit_writes s) ?v)"
  proof (rule runs_kthen, rule runs_conseq [OF write_log_gives [OF i _ c, unfolded bc.gives_def]])
    show "set (logged ?lg) \<subseteq> bv_dirty ?v" using dd by simp
    fix x1 t1 assume t1: "bcache_ok t1 \<and> blocks_only s t1 \<and> bview_of t1 = written ?W1 ?v"
    have i1: "log_idle t1" and l1: "log t1 = ?lg" using written_idle [OF i] blocks_onlyD(1) t1 by auto
    have d1: "bv_dirty (bview_of t1) = set (logged ?lg)"
      using t1 dd w1(1) disj by auto
    have c1: "card (bv_dirty (bview_of t1)) < NBUF" using c unfolding d1 dd .
    have e1: "bv_data (bview_of t1) ?st = ?d ?st"
      using t1 w1(1) disk_after_other [of ?st ?W1 ?d] by auto
    show "runs (kthen write_head (kthen install_trans (kthen (upd_log (\<lambda>l. l\<lparr>lg_n := 0\<rparr>)) write_head))) t1
      (\<lambda>_ t. bcache_ok t \<and> blocks_only (s\<lparr>log := (log s)\<lparr>lg_n := 0\<rparr>\<rparr>) t \<and> bview_of t = written (commit_writes s) ?v)"
    proof (rule runs_kthen, rule runs_conseq [OF write_head_gives [OF i1 c1, unfolded bc.gives_def l1 e1]])
      fix x2 t2 assume t2: "bcache_ok t2 \<and> blocks_only t1 t2 \<and> bview_of t2 = written [(?st, ?h)] (bview_of t1)"
      have i2: "log_idle t2" and l2: "log t2 = ?lg" using written_idle [OF i1] blocks_onlyD(1) t2 l1 by auto
      have d2: "bv_dirty (bview_of t2) = set (logged ?lg)"
        using t2 d1 disj log_start_facts(2) [OF k(3)] by auto
      have e2: "home_writes ?lg (bv_data (bview_of t2)) = map (\<lambda>n. (n, ?d n)) (logged ?lg)"
        using t2 t1 hw by simp
      show "runs (kthen install_trans (kthen (upd_log (\<lambda>l. l\<lparr>lg_n := 0\<rparr>)) write_head)) t2
        (\<lambda>_ t. bcache_ok t \<and> blocks_only (s\<lparr>log := (log s)\<lparr>lg_n := 0\<rparr>\<rparr>) t \<and> bview_of t = written (commit_writes s) ?v)"
      proof (rule runs_kthen, rule runs_conseq [OF install_gives [OF i2, unfolded bc.gives_def l2 e2]])
        show "set (logged ?lg) \<subseteq> bv_dirty (bview_of t2) \<and> card (bv_dirty (bview_of t2)) < NBUF \<or> Suc (card (bv_dirty (bview_of t2))) < NBUF"
          using c unfolding d2 dd by simp
        fix x3 t3 assume t3: "bcache_ok t3 \<and> blocks_only t2 t3 \<and> bview_of t3 = written (map (\<lambda>n. (n, ?d n)) (logged ?lg)) (bview_of t2)"
        have v3: "bview_of t3 = written (map (\<lambda>n. (n, ?d n)) (logged ?lg)) (written [(?st, ?h)] (written ?W1 ?v))" using t1 t2 t3 by simp
        then have e3: "bv_data (bview_of t3) ?st = ?h"
          using disk_after_other [of ?st "map (\<lambda>n. (n, ?d n)) (logged ?lg)"] disj log_start_facts(2) [OF k(3)] by (auto simp: image_image)
        have l3: "log t3 = ?lg" and i3: "log_idle t3" using blocks_onlyD(1) t3 l2 written_idle [OF i2] by auto
        have c3: "card (bv_dirty (bview_of t3)) < NBUF"
          using t3 d2 by (simp add: image_image NBUF_def MAXOPBLOCKS_def)
        have "blocks_only s t3" using t1 t2 t3 blocks_only_trans by blast
        then have b3: "blocks_only (s\<lparr>log := log t3\<rparr>) t3" unfolding l3 by simp
        have v4: "written (commit_writes s) ?v = written [(?st, head_block (?lg\<lparr>lg_n := 0\<rparr>) ?h)] (bview_of t3)"
          by (simp only: commit_writes_def Let_def written_append v3)
        show "runs (kthen (upd_log (\<lambda>l. l\<lparr>lg_n := 0\<rparr>)) write_head) t3
          (\<lambda>_ t. bcache_ok t \<and> blocks_only (s\<lparr>log := (log s)\<lparr>lg_n := 0\<rparr>\<rparr>) t \<and> bview_of t = written (commit_writes s) ?v)"
          using clear_head_runs [OF i3 c3 b3] unfolding l3 e3 v4 .
      qed
    qed
  qed
  ultimately show ?thesis by simp
qed

section \<open>Recovery\<close>

text \<open>The header in memory after \<^verbatim>\<open>read_head\<close> has read it from a block.\<close>

definition read_log :: "logst \<Rightarrow> block \<Rightarrow> logst" where
  "read_log lg d = lg\<lparr>lg_n := head_count d,
     lg_block := (\<lambda>i. if i < nat (head_count d) then load32 d (of_nat (4 + 4 * i)) else lg_block lg i)\<rparr>"

definition fresh_cache :: "kernel \<Rightarrow> bool" where
  "fresh_cache s \<longleftrightarrow> bcache_ok s \<and> bv_held (bview_of s) = (\<lambda>_. None) \<and> bv_dirty (bview_of s) = {}"

lemma fresh_clean:
  assumes "fresh_cache s"
  shows "bv_data (bview_of s) = disk s 1"
proof
  fix n
  have "bv_clean n (bview_of s)" by (rule clean_unless) (use assms in \<open>auto simp: fresh_cache_def\<close>)
  then show "bv_data (bview_of s) n = disk s 1 n" by (simp add: bv_clean_def bview_sel)
qed

lemma read_blocks:
  "kfor [0..<m] (\<lambda>i. upd_log (\<lambda>l. l\<lparr>lg_block := (lg_block l)(i := g i)\<rparr>)) env (s\<lparr>log := l\<rparr>) =
    Ret () env (s\<lparr>log := l\<lparr>lg_block := (\<lambda>i. if i < m then g i else lg_block l i)\<rparr>\<rparr>)"
proof -
  let ?S = "\<lambda>ys :: nat list. s\<lparr>log := l\<lparr>lg_block := (\<lambda>i. if i < length ys then g i else lg_block l i)\<rparr>\<rparr>"
  have "kfor [0..<m] (\<lambda>i. upd_log (\<lambda>l. l\<lparr>lg_block := (lg_block l)(i := g i)\<rparr>)) env (?S []) = Ret () env (?S [0..<m])"
  proof (rule kfor_exec [where S = ?S])
    fix ys y zs assume x: "[0..<m] = ys @ y # zs"
    then have "length ys = y" using upt_split [OF x] by simp
    then have "(\<lambda>i. if i < length ys then g i else lg_block l i)(y := g y) = (\<lambda>i. if i < Suc (length ys) then g i else lg_block l i)"
      by (auto simp: fun_eq_iff)
    then show "upd_log (\<lambda>l. l\<lparr>lg_block := (lg_block l)(y := g y)\<rparr>) env (?S ys) = Ret () env (?S (ys @ [y]))"
      by (simp add: upd_log_def)
  qed
  then show ?thesis by simp
qed

lemma read_head_runs:
  assumes f: "fresh_cache s" and l: "lg_dev (log s) = 1" "lg_start (log s) < disksize s"
    and c: "head_count (disk s 1 (lg_start (log s))) \<le> int LOGSIZE"
  shows "runs read_head s (\<lambda>_ t. bcache_ok t \<and> bview_of t = bview_of s \<and>
    blocks_only (s\<lparr>log := read_log (log s) (disk s 1 (lg_start (log s)))\<rparr>) t)"
proof -
  have k: "bcache_ok s" "bv_held (bview_of s) = (\<lambda>_. None)" "bv_dirty (bview_of s) = {}" using f by (auto simp: fresh_cache_def)
  let ?n = "lg_start (log s)" and ?d = "disk s 1 (lg_start (log s))"
  let ?L = "read_log (log s) ?d"
  note cl = fresh_clean [OF f]
  show ?thesis
    unfolding read_head_def
  proof (intro runs_kbind runs_kget, unfold l(1), rule runs_conseq [OF bc.rd_runs [OF k(1) l(2)]])
    show "?n \<notin> ran (bv_held (bview_of s))" "bv_room NBUF ?n (bview_of s)"
      using k(2,3) by (simp_all add: bv_room_def NBUF_def MAXOPBLOCKS_def)
    fix b t assume t: "bcache_ok t \<and> blocks_only s t \<and> bv_held (bview_of s) b = None \<and> bview_of t = bv_hold b ?n (bview_of s)"
    let ?t = "t\<lparr>log := ?L\<rparr>"
    have h: "bv_held (bview_of ?t) b = Some ?n" using t by (simp add: bv_hold_def)
    have d: "b_data (bufs t b) = ?d"
      using bc.data_held [of t b ?n] t cl by (simp add: bv_hold_def)
    have lt: "log t = log s" using blocks_onlyD(1) t by blast
    have "runs (brelse b) ?t (\<lambda>_ u. bcache_ok u \<and> bview_of u = bview_of s \<and> blocks_only (s\<lparr>log := ?L\<rparr>) u)"
    proof (rule runs_conseq [OF bc.rl_runs [OF _ h]])
      show "bcache_ok ?t" "?n \<in> bv_dirty (bview_of ?t) \<or> bv_clean ?n (bview_of ?t)"
        using t cl by (simp_all add: bv_hold_def bv_clean_def bview_sel)
      fix u assume u: "bcache_ok u \<and> blocks_only ?t u \<and> bview_of u = bv_drop b (bview_of ?t)"
      then have "bview_of u = bview_of s" using t bv_drop_hold(2) [of "bview_of s" b ?n] by simp
      moreover have "blocks_only (s\<lparr>log := ?L\<rparr>) ?t" using t blocks_only_log by blast
      ultimately show "bcache_ok u \<and> bview_of u = bview_of s \<and> blocks_only (s\<lparr>log := ?L\<rparr>) u"
        using u blocks_only_trans by blast
    qed
    moreover have "kthen (upd_log (\<lambda>l. l\<lparr>lg_n := sint (load32 ?d 0)\<rparr>)) (kthen (kassert (sint (load32 ?d 0) \<le> int LOGSIZE) ''undefined'')
       (kthen (kfor [0..<nat (sint (load32 ?d 0))] (\<lambda>i. upd_log (\<lambda>l. l\<lparr>lg_block := (lg_block l)(i := load32 ?d (of_nat (4 + 4 * i)))\<rparr>)))
         (brelse b))) env t = brelse b env ?t" for env
      using c lt by (simp add: upd_log_def [of "lg_n_update _"] kthen_apply read_blocks head_count_def read_log_def cong: if_cong)
    ultimately show "runs (kbind (kget (\<lambda>s. b_data (bufs s b))) (\<lambda>d. kthen (upd_log (\<lambda>l. l\<lparr>lg_n := sint (load32 d 0)\<rparr>))
       (kthen (kassert (sint (load32 d 0) \<le> int LOGSIZE) ''undefined'')
       (kthen (kfor [0..<nat (sint (load32 d 0))] (\<lambda>i. upd_log (\<lambda>l. l\<lparr>lg_block := (lg_block l)(i := load32 d (of_nat (4 + 4 * i)))\<rparr>)))
         (brelse b))))) t (\<lambda>_ t. bcache_ok t \<and> bview_of t = bview_of s \<and> blocks_only (s\<lparr>log := ?L\<rparr>) t)"
      unfolding runs_def kbind_kget d by simp
  qed
qed

lemma fresh_cong: "bcache_ok t \<Longrightarrow> bview_of t = bview_of s \<Longrightarrow> fresh_cache s \<Longrightarrow> fresh_cache t"
  by (simp add: fresh_cache_def)

lemma recover_runs:
  assumes f: "fresh_cache s" and L: "L = read_log (log s) (disk s 1 (lg_start (log s)))" and w: "log_wf (disksize s) L"
  shows "runs recover_from_log s (\<lambda>_ t. bcache_ok t \<and> blocks_only (s\<lparr>log := L\<lparr>lg_n := 0\<rparr>\<rparr>) t \<and>
    bview_of t = written [(lg_start L, head_block (L\<lparr>lg_n := 0\<rparr>) (disk s 1 (lg_start L)))]
      (written (home_writes L (disk s 1)) (bview_of s)))"
proof -
  have st: "lg_start (log s) = lg_start L" "lg_dev (log s) = 1" "head_count (disk s 1 (lg_start (log s))) \<le> int LOGSIZE"
    using w L by (simp_all add: read_log_def log_wf_def)
  note s0 = log_start_facts [OF w]
  have k: "bv_held (bview_of s) = (\<lambda>_. None)" "bv_dirty (bview_of s) = {}" using f by (auto simp: fresh_cache_def)
  have nb: "Suc 0 < NBUF" by (simp add: NBUF_def MAXOPBLOCKS_def)
  have home: "lg_start L \<notin> fst ` set (home_writes L (disk s 1))"
    using log_blk_facts(6) [OF w] s0(2) unfolding home_writes_def fst_map_pairs by auto
  let ?Q = "\<lambda>_ t. bcache_ok t \<and> blocks_only (s\<lparr>log := L\<lparr>lg_n := 0\<rparr>\<rparr>) t \<and>
    bview_of t = written [(lg_start L, head_block (L\<lparr>lg_n := 0\<rparr>) (disk s 1 (lg_start L)))]
      (written (home_writes L (disk s 1)) (bview_of s))"
  show ?thesis
    unfolding recover_from_log_def
  proof (rule runs_kthen, rule runs_conseq [OF read_head_runs [OF f st(2) _ st(3)]])
    show "lg_start (log s) < disksize s" using s0(1) st(1) by simp
    fix x t assume t: "bcache_ok t \<and> bview_of t = bview_of s \<and> blocks_only (s\<lparr>log := read_log (log s) (disk s 1 (lg_start (log s)))\<rparr>) t"
    then have b: "blocks_only (s\<lparr>log := L\<rparr>) t" using L by simp
    have lt: "log t = L" "disksize t = disksize s" using blocks_onlyD [OF b] by simp_all
    have i: "log_idle t" using t k w lt by (simp add: log_idle_def)
    have dt: "bv_data (bview_of t) = disk s 1" using t fresh_clean [OF f] by simp
    show "runs (kthen install_trans (kthen (upd_log (\<lambda>l. l\<lparr>lg_n := 0\<rparr>)) write_head)) t ?Q"
    proof (rule runs_kthen, rule runs_conseq [OF install_gives [OF i, unfolded bc.gives_def lt(1) dt]])
      show "set (logged L) \<subseteq> bv_dirty (bview_of t) \<and> card (bv_dirty (bview_of t)) < NBUF \<or> Suc (card (bv_dirty (bview_of t))) < NBUF"
        using t k nb by simp
      fix y u assume u: "bcache_ok u \<and> blocks_only t u \<and> bview_of u = written (home_writes L (disk s 1)) (bview_of t)"
      have lu: "log u = L" using blocks_onlyD(1) u lt by blast
      have du: "bv_data (bview_of u) (lg_start L) = disk s 1 (lg_start L)"
        using u dt disk_after_other [OF home, of "disk s 1"] by simp
      have iu: "log_idle u" using written_idle [OF i] u by blast
      have cu: "card (bv_dirty (bview_of u)) < NBUF" using u t k nb by simp
      have bu: "blocks_only (s\<lparr>log := log u\<rparr>) u" unfolding lu using b u blocks_only_trans by blast
      show "runs (kthen (upd_log (\<lambda>l. l\<lparr>lg_n := 0\<rparr>)) write_head) u ?Q"
        using clear_head_runs [OF iu cu bu] u t unfolding lu du by simp
    qed
  qed
qed

text \<open>The machine after a restart: an empty cache over a disk whose superblock tells where the log is.\<close>

definition rebooted :: "kernel \<Rightarrow> (uint \<Rightarrow> block) \<Rightarrow> uint \<Rightarrow> logst \<Rightarrow> bool" where
  "rebooted r d sz lg \<longleftrightarrow> fresh_cache r \<and> disk r 1 = d \<and> disksize r = sz \<and> 1 < sz \<and>
     load32 (d 1) 16 = lg_start lg \<and> sint (load32 (d 1) 12) = lg_size lg"

lemma initlock_log:
  assumes "fresh_cache s" and "t = upd_lock LogLock (\<lambda>_. \<lparr>lk_locked = 0, lk_name = nm, lk_cpu = None\<rparr>) s"
  shows "fresh_cache t" "disk t = disk s" "disksize t = disksize s" "log t = log s" "disk_history t = disk_history s"
proof -
  have f: "bufs t = bufs s" "disk t = disk s" "disk_history t = disk_history s" "ptable t = ptable s" "disksize t = disksize s"
    "log t = log s" "hw_slocks (hw t) = hw_slocks (hw s)"
    using assms(2) by (simp_all add: upd_lock_def)
  then show "disk t = disk s" "disksize t = disksize s" "log t = log s" "disk_history t = disk_history s" by simp_all
  have c: "cpu_ok (hw t) = cpu_ok (hw s)" "cur_proc (hw t) = cur_proc (hw s)" "\<forall>lk. lock_free lk (hw s) \<Longrightarrow> \<forall>lk. lock_free lk (hw t)"
    using assms(2) by (simp_all add: upd_lock_def cpu_ok_def cur_proc_def cpu_of_def cur_cpu_def lock_free_def cong del: option.case_cong_weak)
  have q: "quiet t" if "quiet s" using that c f(4) by (simp add: quiet_def)
  have bl: "buf_locked t b = buf_locked s b" "slock_mine (BufLock b) t = slock_mine (BufLock b) s" for b
    using f(4,7) c(2) by (simp_all add: buf_locked_def slock_mine_def)
  have bo: "buf_ok t b = buf_ok s b" for b by (simp add: buf_ok_def bl f)
  have v: "bview_of t = bview_of s" by (simp add: bview_of_def buf_dirty_def bl f cong: if_cong)
  have "bcache_ok t" if "bcache_ok s" using that q by (simp add: bcache_ok_def bo lru_def f(1))
  then show "fresh_cache t" using assms(1) v by (simp add: fresh_cache_def)
qed

lemma initlog_runs:
  assumes r: "rebooted r d sz lg" and L: "L = read_log ((log r)\<lparr>lg_start := lg_start lg, lg_size := lg_size lg, lg_dev := 1\<rparr>) (d (lg_start lg))"
    and w: "log_wf sz L"
  shows "runs (initlog 1) r (\<lambda>_ t. bcache_ok t \<and> disk t 1 = disk_after d (home_writes L d @ [(lg_start lg, head_block (L\<lparr>lg_n := 0\<rparr>) (d (lg_start lg)))]) \<and> disk_history t = disk_history r @ home_writes L d @ [(lg_start lg, head_block (L\<lparr>lg_n := 0\<rparr>) (d (lg_start lg)))])"
proof -
  let ?s = "upd_lock LogLock (\<lambda>_. \<lparr>lk_locked = 0, lk_name = ''log'', lk_cpu = None\<rparr>) r"
  have r': "fresh_cache r" "disk r 1 = d" "disksize r = sz" "1 < sz" using r by (auto simp: rebooted_def)
  note s = initlock_log [OF r'(1) refl, of "''log''"]
  note fc = s(1) [unfolded fresh_cache_def]
  let ?l = "\<lambda>l. l\<lparr>lg_start := lg_start lg, lg_size := lg_size lg, lg_dev := 1\<rparr>"
  let ?g = "\<lambda>d. \<lparr>sb_size = load32 d 0, sb_nblocks = load32 d 4, sb_ninodes = load32 d 8,
              sb_nlog = load32 d 12, sb_logstart = load32 d 16, sb_inodestart = load32 d 20, sb_bmapstart = load32 d 24\<rparr>"
  have lgL: "lg_start L = lg_start lg" using L by (simp add: read_log_def)
  have "runs (readsb 1) ?s (\<lambda>sb' t. runs (kthen (upd_log (\<lambda>l. l\<lparr>lg_start := sb_logstart sb', lg_size := sint (sb_nlog sb'), lg_dev := 1\<rparr>)) recover_from_log) t
      (\<lambda>_ t. bcache_ok t \<and> disk t 1 = disk_after d (home_writes L d @ [(lg_start lg, head_block (L\<lparr>lg_n := 0\<rparr>) (d (lg_start lg)))]) \<and> disk_history t = disk_history r @ home_writes L d @ [(lg_start lg, head_block (L\<lparr>lg_n := 0\<rparr>) (d (lg_start lg)))]))"
    unfolding readsb_def
  proof (rule bc.read_block [where g = ?g])
    show "bcache_ok ?s" "1 < disksize ?s" "bv_held (bview_of ?s) = (\<lambda>_. None)" "bv_room NBUF 1 (bview_of ?s)"
      using fc s(3) r'(3,4) by (simp_all add: bv_room_def NBUF_def MAXOPBLOCKS_def)
    show "1 \<in> bv_dirty (bview_of ?s) \<or> bv_clean 1 (bview_of ?s)"
      using fresh_clean [OF s(1)] by (simp add: bv_clean_def bview_sel)
    fix t assume t: "bcache_ok t" "blocks_only ?s t" "bview_of t = bview_of ?s"
    let ?t = "t\<lparr>log := ?l (log t)\<rparr>"
    have ft: "fresh_cache ?t" using t fc by (simp add: fresh_cache_def)
    have dt: "disk ?t 1 = d" "disksize ?t = sz"
      using arg_cong [OF t(3), of bv_disk] s(2,3) r'(2,3) blocks_onlyD(2) [OF t(2)] by (simp_all add: bview_sel)
    have sb: "sb_logstart (?g (bv_data (bview_of ?s) 1)) = lg_start lg" "sint (sb_nlog (?g (bv_data (bview_of ?s) 1))) = lg_size lg"
      using r fresh_clean [OF s(1)] s(2) by (simp_all add: rebooted_def)
    have lt: "log t = log r" using blocks_onlyD(1) [OF t(2)] s(4) by simp
    have "runs recover_from_log ?t (\<lambda>_ t. bcache_ok t \<and> disk t 1 = disk_after d (home_writes L d @ [(lg_start lg, head_block (L\<lparr>lg_n := 0\<rparr>) (d (lg_start lg)))]) \<and> disk_history t = disk_history r @ home_writes L d @ [(lg_start lg, head_block (L\<lparr>lg_n := 0\<rparr>) (d (lg_start lg)))])"
    proof (rule runs_conseq [OF recover_runs [OF ft, of L]])
      show "L = read_log (log ?t) (disk ?t 1 (lg_start (log ?t)))" "log_wf (disksize ?t) L"
        using L w lt dt by simp_all
      fix x u assume u: "bcache_ok u \<and> blocks_only (?t\<lparr>log := L\<lparr>lg_n := 0\<rparr>\<rparr>) u \<and>
        bview_of u = written [(lg_start L, head_block (L\<lparr>lg_n := 0\<rparr>) (disk ?t 1 (lg_start L)))] (written (home_writes L (disk ?t 1)) (bview_of ?t))"
      have "bv_disk (bview_of u) = disk_after (disk ?t 1) (home_writes L d @ [(lg_start lg, head_block (L\<lparr>lg_n := 0\<rparr>) (d (lg_start lg)))])"
        and "bv_writes (bview_of u) = disk_history r @ home_writes L d @ [(lg_start lg, head_block (L\<lparr>lg_n := 0\<rparr>) (d (lg_start lg)))]"
        unfolding u [THEN conjunct2, THEN conjunct2] using dt lgL arg_cong [OF t(3), of bv_writes] s(5) by (simp_all add: bview_sel)
      then show "bcache_ok u \<and> disk u 1 = disk_after d (home_writes L d @ [(lg_start lg, head_block (L\<lparr>lg_n := 0\<rparr>) (d (lg_start lg)))]) \<and> disk_history u = disk_history r @ home_writes L d @ [(lg_start lg, head_block (L\<lparr>lg_n := 0\<rparr>) (d (lg_start lg)))]"
        using u [THEN conjunct1] unfolding dt bview_sel by blast
    qed
    then show "runs (kthen (upd_log (\<lambda>l. l\<lparr>lg_start := sb_logstart (?g (bv_data (bview_of ?s) 1)), lg_size := sint (sb_nlog (?g (bv_data (bview_of ?s) 1))), lg_dev := 1\<rparr>)) recover_from_log) t
      (\<lambda>_ t. bcache_ok t \<and> disk t 1 = disk_after d (home_writes L d @ [(lg_start lg, head_block (L\<lparr>lg_n := 0\<rparr>) (d (lg_start lg)))]) \<and> disk_history t = disk_history r @ home_writes L d @ [(lg_start lg, head_block (L\<lparr>lg_n := 0\<rparr>) (d (lg_start lg)))])"
      unfolding sb upd_log_def by (intro runs_kthen runs_kmod)
  qed
  moreover have "4 + 4 * LOGSIZE < BSIZE" by (simp add: LOGSIZE_def MAXOPBLOCKS_def BSIZE_def)
  ultimately show ?thesis
    unfolding initlog_def initlock_def
    by (intro runs_kthen runs_kbind runs_kassert runs_kmod) simp_all
qed

section \<open>Crashes\<close>

lemma recovery_redo:
  assumes r: "rebooted r d sz lg" and w: "log_wf sz lg"
    and h: "head_count (d (lg_start lg)) = lg_n lg" "\<And>i. i < nat (lg_n lg) \<Longrightarrow> load32 (d (lg_start lg)) (of_nat (4 + 4 * i)) = lg_block lg i"
  shows "runs (initlog 1) r (\<lambda>_ t. head_count (disk t 1 (lg_start lg)) = 0 \<and>
    (\<forall>n. n \<notin> log_region lg \<longrightarrow> disk t 1 n = disk_after d (home_writes lg d) n) \<and>
    (\<exists>h. sint (load32 h 0) = 0 \<and> disk_history t = disk_history r @ home_writes lg d @ [(lg_start lg, h)]))"
proof -
  let ?L = "read_log ((log r)\<lparr>lg_start := lg_start lg, lg_size := lg_size lg, lg_dev := 1\<rparr>) (d (lg_start lg))"
  have L: "lg_start ?L = lg_start lg" "lg_size ?L = lg_size lg" "lg_dev ?L = 1" "lg_n ?L = lg_n lg"
    "\<And>i. i < nat (lg_n lg) \<Longrightarrow> lg_block ?L i = lg_block lg i" using h by (simp_all add: read_log_def)
  have lg: "logged ?L = logged lg" unfolding logged_def L(4) by (rule map_cong) (simp_all add: L(5))
  have rg: "log_region ?L = log_region lg" by (simp add: log_region_def L)
  have wL: "log_wf sz ?L" using w unfolding log_wf_def lg rg L by simp
  have hw: "home_writes ?L d = home_writes lg d"
    unfolding home_writes_def L(4) by (rule map_cong) (simp_all add: L log_blk_def)
  show ?thesis
  proof (rule runs_conseq [OF initlog_runs [OF r refl wL]])
    fix x t assume t: "bcache_ok t \<and> disk t 1 = disk_after d (home_writes ?L d @ [(lg_start lg, head_block (?L\<lparr>lg_n := 0\<rparr>) (d (lg_start lg)))]) \<and>
      disk_history t = disk_history r @ home_writes ?L d @ [(lg_start lg, head_block (?L\<lparr>lg_n := 0\<rparr>) (d (lg_start lg)))]"
    have "sint (load32 (head_block (?L\<lparr>lg_n := 0\<rparr>) (d (lg_start lg))) 0) = 0"
      using head_block_read(1) [of "?L\<lparr>lg_n := 0\<rparr>"] by simp
    moreover have "lg_start lg \<in> log_region lg" by (rule log_start_facts [OF w])
    ultimately show "head_count (disk t 1 (lg_start lg)) = 0 \<and> (\<forall>n. n \<notin> log_region lg \<longrightarrow> disk t 1 n = disk_after d (home_writes lg d) n) \<and>
        (\<exists>h. sint (load32 h 0) = 0 \<and> disk_history t = disk_history r @ home_writes lg d @ [(lg_start lg, h)])"
      using t by (auto simp: hw head_count_def)
  qed
qed

lemma recovery_idle:
  assumes r: "rebooted r d sz lg" and w: "log_wf sz lg" and h: "head_count (d (lg_start lg)) = 0"
  shows "runs (initlog 1) r (\<lambda>_ t. head_count (disk t 1 (lg_start lg)) = 0 \<and> (\<forall>n. n \<notin> log_region lg \<longrightarrow> disk t 1 n = d n))"
proof -
  have "rebooted r d sz (lg\<lparr>lg_n := 0\<rparr>)" "log_wf sz (lg\<lparr>lg_n := 0\<rparr>)"
    using r w by (simp_all add: rebooted_def log_wf_def logged_def)
  from recovery_redo [OF this] h show ?thesis by (auto simp: home_writes_def elim!: runs_conseq)
qed

text \<open>The blocks of a transaction, as written to the log and from there to their places.\<close>

lemma take_cases:
  "take k (xs @ [a] @ ys @ [b]) = (if k \<le> length xs then take k xs
     else if k \<le> length xs + 1 + length ys then xs @ [a] @ take (k - length xs - 1) ys else xs @ [a] @ ys @ [b])"
  by (auto simp: take_Cons')

lemma disk_after_same: "(\<And>w. w \<in> set ws \<Longrightarrow> snd w = g (fst w)) \<Longrightarrow> disk_after d ws n = (if n \<in> fst ` set ws then g n else d n)"
  by (induction ws arbitrary: d) auto

lemma disk_after_key: "n \<in> fst ` set ws \<Longrightarrow> disk_after d ws n = disk_after e ws n"
proof (induction ws rule: rev_induct)
  case (snoc w ws)
  then show ?case by (cases "fst w = n") auto
qed simp

lemma disk_after_again: "disk_after (disk_after d (take k ws)) ws n = disk_after d ws n"
proof (cases "n \<in> fst ` set ws")
  case True
  then show ?thesis by (rule disk_after_key)
next
  case False
  then have "n \<notin> fst ` set (take k ws)" using in_set_takeD [of _ k ws] by blast
  then show ?thesis by (simp add: disk_after_other False)
qed

lemma crash_disk:
  assumes r: "commit_ready s" and lg: "lg = log s" and v: "dat = bv_data (bview_of s)" and d: "d = disk_after (disk s 1) (take k (commit_writes s))"
  shows "k \<le> nat (lg_n lg) \<Longrightarrow> head_count (d (lg_start lg)) = 0 \<and> (\<forall>n. n \<notin> log_region lg \<longrightarrow> d n = disk s 1 n)"
    and "nat (lg_n lg) < k \<Longrightarrow> k \<le> 2 * nat (lg_n lg) + 1 \<Longrightarrow> d (lg_start lg) = head_block lg (dat (lg_start lg)) \<and>
      (\<forall>n. n \<notin> log_region lg \<longrightarrow> disk_after d (home_writes lg d) n = dat n)"
    and "2 * nat (lg_n lg) + 1 < k \<Longrightarrow> head_count (d (lg_start lg)) = 0 \<and> (\<forall>n. n \<notin> log_region lg \<longrightarrow> d n = dat n)"
proof -
  have i: "log_idle s" and dd: "bv_dirty (bview_of s) = set (logged lg)" and h0: "head_count (disk s 1 (lg_start lg)) = 0"
    using r lg by (auto simp: commit_ready_def)
  note k = log_idleD [OF i, folded lg] and st = log_start_facts [OF k(3)]
  let ?W = "log_writes lg dat" and ?h = "head_block lg (dat (lg_start lg))" and ?H = "map (\<lambda>n. (n, dat n)) (logged lg)"
  let ?z = "(lg_start lg, head_block (lg\<lparr>lg_n := 0\<rparr>) ?h)"
  have len: "length ?W = nat (lg_n lg)" "length ?H = nat (lg_n lg)" by (simp_all add: log_writes_def logged_def)
  have d': "d = disk_after (disk s 1) (if k \<le> nat (lg_n lg) then take k ?W else if k \<le> 2 * nat (lg_n lg) + 1
      then ?W @ [(lg_start lg, ?h)] @ take (k - nat (lg_n lg) - 1) ?H else ?W @ [(lg_start lg, ?h)] @ ?H @ [?z])"
    unfolding d commit_writes_def Let_def lg [symmetric] v [symmetric] take_cases len by simp
  note w1 = log_writes_view [OF k(3), where d = dat]
  have hom: "n \<notin> log_region lg" if "n \<in> set (logged lg)" for n using that k(3) by (auto simp: log_wf_def)
  have cl: "disk s 1 n = dat n" if "n \<notin> set (logged lg)" for n
    using clean_unless [OF k(1), of n] that dd k(2) v by (simp add: bv_clean_def bview_sel)
  have outW: "disk_after e (take j ?W) n = e n" if "n \<notin> log_region lg \<or> n = lg_start lg" for e j n
    using that w1(1) set_take_subset [of j ?W] by (intro disk_after_other) blast
  note outW' = outW [where j = "length ?W", simplified]
  have H: "disk_after e (take j ?H) n = (if n \<in> fst ` set (take j ?H) then dat n else e n)" for e j n
    by (rule disk_after_same) (auto dest: in_set_takeD)
  have Hin: "n \<in> fst ` set (take j ?H) \<Longrightarrow> n \<in> set (logged lg)" for j n by (auto dest: in_set_takeD)
  show "k \<le> nat (lg_n lg) \<Longrightarrow> head_count (d (lg_start lg)) = 0 \<and> (\<forall>n. n \<notin> log_region lg \<longrightarrow> d n = disk s 1 n)"
    using outW h0 by (simp add: d')
  have new: "disk_after e ?H n = dat n" if "e n = disk s 1 n" for e n
    using H [of e "length ?H" n] that cl [of n] by (auto simp: image_image)
  show "2 * nat (lg_n lg) + 1 < k \<Longrightarrow> head_count (d (lg_start lg)) = 0 \<and> (\<forall>n. n \<notin> log_region lg \<longrightarrow> d n = dat n)"
    using st(2) outW' head_block_read(1) [of "lg\<lparr>lg_n := 0\<rparr>"] new by (auto simp: d' head_count_def)
  assume k2: "nat (lg_n lg) < k" "k \<le> 2 * nat (lg_n lg) + 1"
  define e where "e = disk_after (disk s 1) (?W @ [(lg_start lg, ?h)])"
  define j where "j = k - nat (lg_n lg) - 1"
  have de: "d = disk_after e (take j ?H)" using k2 by (simp add: d' e_def j_def)
  have reg: "d n = e n" if "n \<in> log_region lg" for n unfolding de H using that hom Hin [of n j] by auto
  have hw: "home_writes lg d = ?H"
    unfolding home_writes_def logged_def map_map
  proof (rule map_cong [OF refl])
    fix i assume "i \<in> set [0..<nat (lg_n lg)]"
    then have i: "i < nat (lg_n lg)" by simp
    have "d (log_blk lg i) = dat (lg_block lg i)"
      using reg [OF log_blk_facts(3) [OF k(3) i]] w1(2) [OF i] log_blk_facts(4) [OF k(3) i] by (simp add: e_def)
    then show "(lg_block lg i, d (log_blk lg i)) = ((\<lambda>n. (n, dat n)) \<circ> lg_block lg) i" by simp
  qed
  have "disk_after d ?H n = dat n" if "n \<notin> log_region lg" for n
  proof (cases "n \<in> set (logged lg)")
    case True
    then show ?thesis using H [of d "length ?H" n] by (auto simp: image_image)
  next
    case False
    then have "d n = e n" using H [of e j n] Hin [of n j] by (auto simp: de)
    moreover have "e n = disk s 1 n" using that st(2) outW' [of n "disk s 1"] by (auto simp: e_def)
    ultimately show ?thesis by (intro new) simp
  qed
  moreover have "d (lg_start lg) = ?h" using reg [OF st(2)] by (simp add: e_def)
  ultimately show "d (lg_start lg) = ?h \<and> (\<forall>n. n \<notin> log_region lg \<longrightarrow> disk_after d (home_writes lg d) n = dat n)"
    unfolding hw by blast
qed

text \<open>C27: A committed transaction is atomic. \<^verbatim>\<open>commit\<close> returns after writing to the disk the logged
  blocks, the header, the blocks in their places and the empty header; if the machine stops after any
  number \<open>k\<close> of these writes, then \<^verbatim>\<open>initlog\<close> at the next start returns with an empty log, and all
  blocks outside the log have their contents from before the transaction when the header had not been
  written, and otherwise those the transaction gave them.\<close>

theorem commit_crash_atomic:
  assumes "commit_ready s" and "0 < lg_n (log s)"
  shows "\<exists>s'. commit env s = Ret () env s' \<and> disk_history s' = disk_history s @ commit_writes s \<and>
    disk s' 1 = disk_after (disk s 1) (commit_writes s) \<and>
    (\<forall>k r. rebooted r (disk_after (disk s 1) (take k (commit_writes s))) (disksize s) (log s) \<longrightarrow>
      (\<exists>r'. initlog 1 env r = Ret () env r' \<and> head_count (disk r' 1 (lg_start (log s))) = 0 \<and>
        (\<forall>n. n \<notin> log_region (log s) \<longrightarrow>
          disk r' 1 n = (if k \<le> nat (lg_n (log s)) then disk s 1 n else bv_data (bview_of s) n))))"
proof -
  obtain s' where s': "commit env s = Ret () env s'" "bview_of s' = written (commit_writes s) (bview_of s)"
    using runs_Ret [OF commit_gives [OF assms], of env] by auto
  have w: "log_wf (disksize s) (log s)" using assms(1) by (simp add: commit_ready_def log_idle_def)
  then have n: "0 \<le> lg_n (log s)" "lg_n (log s) \<le> int LOGSIZE" by (simp_all add: log_wf_def)
  have "\<exists>r'. initlog 1 env r = Ret () env r' \<and> head_count (disk r' 1 (lg_start (log s))) = 0 \<and>
        (\<forall>n. n \<notin> log_region (log s) \<longrightarrow>
          disk r' 1 n = (if k \<le> nat (lg_n (log s)) then disk s 1 n else bv_data (bview_of s) n))"
    if r: "rebooted r (disk_after (disk s 1) (take k (commit_writes s))) (disksize s) (log s)" for k r
  proof -
    note c = crash_disk [OF assms(1) refl refl refl, of k]
    consider "k \<le> nat (lg_n (log s))" | "nat (lg_n (log s)) < k" "k \<le> 2 * nat (lg_n (log s)) + 1" | "2 * nat (lg_n (log s)) + 1 < k"
      by linarith
    then show ?thesis
    proof cases
      case 1
      then show ?thesis using c(1) runs_Ret [OF recovery_idle [OF r w], of env] by auto
    next
      case 2
      then show ?thesis
        using c(2) runs_Ret [OF recovery_redo [OF r w], of env] head_block_read [OF n] by (auto simp: head_count_def)
    next
      case 3
      then show ?thesis using c(3) runs_Ret [OF recovery_idle [OF r w], of env] by auto
    qed
  qed
  moreover have "disk s' 1 = disk_after (disk s 1) (commit_writes s)" "disk_history s' = disk_history s @ commit_writes s"
    using arg_cong [OF s'(2), of bv_disk] arg_cong [OF s'(2), of bv_writes] by (simp_all add: bview_sel)
  ultimately show ?thesis using s'(1) by blast
qed

text \<open>C28: Recovery can itself be interrupted: if the machine stops after any number of the writes that
  \<^verbatim>\<open>initlog\<close> makes, running it again leaves the same blocks outside the log as one undisturbed run.\<close>

theorem recovery_restartable:
  assumes "rebooted r d sz lg" and "log_wf sz lg" and "head_count (d (lg_start lg)) = lg_n lg"
    and "\<forall>i < nat (lg_n lg). load32 (d (lg_start lg)) (of_nat (4 + 4 * i)) = lg_block lg i"
  shows "\<exists>r1 ws. initlog 1 env r = Ret () env r1 \<and> disk_history r1 = disk_history r @ ws \<and>
    (\<forall>k r2. rebooted r2 (disk_after d (take k ws)) sz lg \<longrightarrow>
      (\<exists>r3. initlog 1 env r2 = Ret () env r3 \<and> (\<forall>n. n \<notin> log_region lg \<longrightarrow> disk r3 1 n = disk r1 1 n)))"
proof -
  let ?H = "home_writes lg d" and ?st = "lg_start lg"
  obtain r1 h where r1: "initlog 1 env r = Ret () env r1" "\<forall>n. n \<notin> log_region lg \<longrightarrow> disk r1 1 n = disk_after d ?H n"
    "sint (load32 h 0) = 0" "disk_history r1 = disk_history r @ ?H @ [(?st, h)]"
    using runs_Ret [OF recovery_redo [OF assms(1-3)], of env] assms(4) by auto
  have st: "?st \<in> log_region lg" using log_start_facts(2) [OF assms(2)] .
  have len: "length ?H = nat (lg_n lg)" by (simp add: home_writes_def)
  have H: "fst w \<notin> log_region lg" if "w \<in> set ?H" for w
    using that log_blk_facts(6) [OF assms(2)] by (auto simp: home_writes_def)
  have "\<exists>r3. initlog 1 env r2 = Ret () env r3 \<and> (\<forall>n. n \<notin> log_region lg \<longrightarrow> disk r3 1 n = disk r1 1 n)"
    if r2: "rebooted r2 (disk_after d (take k (?H @ [(?st, h)]))) sz lg" for k r2
  proof (cases "k \<le> nat (lg_n lg)")
    case True
    let ?d = "disk_after d (take k ?H)"
    have reg: "?d n = d n" if "n \<in> log_region lg" for n
      using that H in_set_takeD [of _ k ?H] by (intro disk_after_other) blast
    have hw: "home_writes lg ?d = ?H"
      unfolding home_writes_def by (rule map_cong) (use reg log_blk_facts(3) [OF assms(2)] in \<open>auto simp: home_writes_def\<close>)
    have r2': "rebooted r2 ?d sz lg" using r2 True len by simp
    show ?thesis
      using runs_Ret [OF recovery_redo [OF r2' assms(2)], of env] assms(3,4) reg [OF st] r1(2) hw by (auto simp: disk_after_again)
  next
    case False
    then have r2': "rebooted r2 (disk_after d (?H @ [(?st, h)])) sz lg" using r2 len by simp
    have "head_count (disk_after d (?H @ [(?st, h)]) ?st) = 0" using r1(3) by (simp add: head_count_def)
    from runs_Ret [OF recovery_idle [OF r2' assms(2) this], of env] show ?thesis using r1(2) st by auto
  qed
  with r1 show ?thesis by (intro exI [of _ r1] exI [of _ "?H @ [(?st, h)]"]) auto
qed

section \<open>Transactions\<close>

lemma log_acquire:
  assumes "quiet s"
  shows "acquire LogLock env s = Ret () env (s\<lparr>hw := hold LogLock (hw s)\<rparr>)"
  by (rule acquire_exec) (simp_all add: quietD [OF assms])

lemma log_release:
  assumes "quiet s"
  shows "release LogLock env (s\<lparr>hw := hold LogLock (hw s)\<rparr>) = Ret () env s"
  by (subst release_hold [where h = "hw s"]) (simp_all add: quietD [OF assms])

lemma log_slot_cases:
  assumes "0 \<le> lg_n lg"
  shows "n \<in> set (logged lg) \<Longrightarrow> log_slot lg n < nat (lg_n lg) \<and> lg_block lg (log_slot lg n) = n"
    and "n \<notin> set (logged lg) \<Longrightarrow> log_slot lg n = nat (lg_n lg)"
proof -
  show "log_slot lg n < nat (lg_n lg) \<and> lg_block lg (log_slot lg n) = n" if "n \<in> set (logged lg)"
  proof (cases "find (\<lambda>i. lg_block lg i = n) [0..<nat (lg_n lg)]")
    case None
    then show ?thesis using that by (auto simp: find_None_iff logged_def)
  next
    case (Some i)
    then show ?thesis using find_SomeD [OF Some] by (simp add: log_slot_def)
  qed
  assume "n \<notin> set (logged lg)"
  then have "find (\<lambda>i. lg_block lg i = n) [0..<nat (lg_n lg)] = None" by (auto simp: find_None_iff logged_def)
  then show "log_slot lg n = nat (lg_n lg)" by (simp add: log_slot_def)
qed

text \<open>The header after \<^verbatim>\<open>log_write\<close> of block \<open>n\<close>.\<close>

definition log_add :: "uint \<Rightarrow> logst \<Rightarrow> logst" where
  "log_add n lg = (if n \<in> set (logged lg) then lg else lg\<lparr>lg_block := (lg_block lg)(nat (lg_n lg) := n), lg_n := lg_n lg + 1\<rparr>)"

lemma logged_add: "0 \<le> lg_n lg \<Longrightarrow> logged (log_add n lg) = (if n \<in> set (logged lg) then logged lg else logged lg @ [n])"
  by (auto simp: log_add_def logged_def nat_add_distrib)

lemma log_add_wf:
  assumes "log_wf sz lg" and "n < sz" "n \<notin> log_region lg" and "n \<in> set (logged lg) \<or> lg_n lg < int LOGSIZE \<and> lg_n lg < lg_size lg - 1"
  shows "log_wf sz (log_add n lg)"
proof (cases "n \<in> set (logged lg)")
  case True
  then show ?thesis using assms(1) by (simp add: log_add_def)
next
  case False
  have "0 \<le> lg_n lg" using assms(1) by (simp add: log_wf_def)
  note l = logged_add [OF this, of n]
  have r: "log_region (log_add n lg) = log_region lg" "lg_dev (log_add n lg) = lg_dev lg" "lg_size (log_add n lg) = lg_size lg"
    "lg_start (log_add n lg) = lg_start lg" "lg_n (log_add n lg) = lg_n lg + 1"
    using False by (simp_all add: log_add_def log_region_def)
  show ?thesis using assms False unfolding log_wf_def l r by auto
qed

lemma log_write_runs:
  assumes ok: "bcache_ok s" and h: "bv_held (bview_of s) b = Some n" and n: "0 \<le> lg_n (log s)"
    and g: "lg_n (log s) < int LOGSIZE" "lg_n (log s) < lg_size (log s) - 1" "0 < lg_outstanding (log s)"
  shows "runs (log_write b) s (\<lambda>_ t. bcache_ok t \<and> blocks_only (s\<lparr>log := log_add n (log s)\<rparr>) t \<and>
    bview_of t = (bview_of s)\<lparr>bv_dirty := insert n (bv_dirty (bview_of s))\<rparr>)"
proof -
  let ?lg = "log s" and ?s = "s\<lparr>log := log_add n (log s)\<rparr>"
  note q = bcache_okD(1) [OF ok] and e = heldE [OF ok h]
  from bdirty_runs [of ?s b n] ok h obtain t where
    t: "\<And>env. upd_buf b (\<lambda>x. x\<lparr>b_flags := b_flags x OR B_DIRTY\<rparr>) env ?s = Ret () env t"
    and t': "bcache_ok t" "blocks_only ?s t" "bview_of t = (bview_of s)\<lparr>bv_dirty := insert n (bv_dirty (bview_of s))\<rparr>"
    by (auto elim: runsE)
  have te: "t = ?s\<lparr>bufs := bufs t\<rparr>" "hw t = hw s" using t [of undefined] by (auto simp: upd_buf_def)
  let ?h = "hold LogLock (hw s)"
  have add: "log_add n ?lg = (if int (log_slot ?lg n) = lg_n ?lg then ?lg\<lparr>lg_block := (lg_block ?lg)(log_slot ?lg n := n), lg_n := lg_n ?lg + 1\<rparr>
      else ?lg\<lparr>lg_block := (lg_block ?lg)(log_slot ?lg n := n)\<rparr>)"
    using log_slot_cases [OF n, of n] n by (cases "n \<in> set (logged ?lg)") (auto simp: log_add_def fun_upd_idem)
  have "log_write b env s = kthen (upd_buf b (\<lambda>x. x\<lparr>b_flags := b_flags x OR B_DIRTY\<rparr>)) (release LogLock) env (s\<lparr>hw := ?h, log := log_add n ?lg\<rparr>)" for env
    unfolding log_write_def using g add e(3)
    by (simp add: kthen_apply log_acquire [OF q] upd_log_def Let_def)
  moreover have "kthen (upd_buf b (\<lambda>x. x\<lparr>b_flags := b_flags x OR B_DIRTY\<rparr>)) (release LogLock) env (s\<lparr>hw := ?h, log := log_add n ?lg\<rparr>) =
      release LogLock env (t\<lparr>hw := hold LogLock (hw t)\<rparr>)" for env
  proof -
    have "s\<lparr>hw := ?h, log := log_add n ?lg, bufs := bufs t\<rparr> = t\<lparr>hw := hold LogLock (hw t)\<rparr>"
      by (subst (2) te(1)) (rule kernel.equality; simp add: te(2))
    moreover have "bufs t = (bufs s)(b := (bufs s b)\<lparr>b_flags := b_flags (bufs s b) OR B_DIRTY\<rparr>)"
      using t [of env] by (auto simp: upd_buf_def)
    ultimately show ?thesis by (simp add: upd_buf_def kthen_apply)
  qed
  moreover have "release LogLock env (t\<lparr>hw := hold LogLock (hw t)\<rparr>) = Ret () env t" for env
    by (rule log_release [OF bcache_okD(1) [OF t'(1)]])
  ultimately have "log_write b env s = Ret () env t" for env by simp
  then show ?thesis by (rule runsI) (use t' in simp)
qed

text \<open>The end of the last operation of a transaction commits it.\<close>

lemma quiet_log: "quiet (s\<lparr>log := l\<rparr>) = quiet s"
  by simp

lemma wakeup_quiet:
  assumes "quiet s"
  shows "wakeup c env s = Ret () env (s\<lparr>ptable := wake c (ptable s)\<rparr>)"
  by (rule wakeup_exec) (simp_all add: quietD [OF assms])

lemma end_op_first:
  assumes q: "quiet s" and c: "\<not> lg_committing (log s)" "lg_outstanding (log s) \<noteq> 1"
  shows "end_op env s = Ret () env (s\<lparr>log := (log s)\<lparr>lg_outstanding := lg_outstanding (log s) - 1\<rparr>, ptable := wake (Some ChanLog) (ptable s)\<rparr>)"
proof -
  let ?l = "(log s)\<lparr>lg_outstanding := lg_outstanding (log s) - 1\<rparr>"
  let ?t = "s\<lparr>log := ?l, ptable := wake (Some ChanLog) (ptable s)\<rparr>"
  have w: "wakeup (Some ChanLog) env (s\<lparr>hw := hold LogLock (hw s), log := ?l\<rparr>) =
      Ret () env (s\<lparr>hw := hold LogLock (hw s), log := ?l, ptable := wake (Some ChanLog) (ptable s)\<rparr>)"
    by (subst wakeup_exec) (simp_all add: quietD [OF q])
  have "release LogLock env (s\<lparr>hw := hold LogLock (hw s), log := ?l, ptable := wake (Some ChanLog) (ptable s)\<rparr>) = Ret () env ?t"
    by (subst release_hold [where h = "hw s"]) (simp_all add: quietD [OF q])
  then show ?thesis using c w
    by (simp add: end_op_def log_acquire [OF q] kthen_apply upd_log_def Let_def)
qed

definition log_flags :: "int \<Rightarrow> bool \<Rightarrow> logst \<Rightarrow> logst" where
  "log_flags k c lg = lg\<lparr>lg_outstanding := k, lg_committing := c\<rparr>"

lemma log_flags_same [simp]:
  "logged (log_flags k c lg) = logged lg" "log_region (log_flags k c lg) = log_region lg" "log_wf sz (log_flags k c lg) = log_wf sz lg"
  "lg_n (log_flags k c lg) = lg_n lg" "lg_start (log_flags k c lg) = lg_start lg" "log_blk (log_flags k c lg) = log_blk lg"
  "lg_block (log_flags k c lg) = lg_block lg"
  by (simp_all add: log_flags_def logged_def log_region_def log_wf_def log_blk_def fun_eq_iff)

lemma commit_ready_flags: "commit_ready s \<Longrightarrow> commit_ready (s\<lparr>log := log_flags k c (log s)\<rparr>)"
  by (auto simp: commit_ready_def log_idle_def)

text \<open>The disk after a commit.\<close>

lemma commit_done:
  assumes r: "commit_ready s"
  shows "runs commit s (\<lambda>_ t. bcache_ok t \<and> blocks_only (s\<lparr>log := (log s)\<lparr>lg_n := 0\<rparr>\<rparr>) t \<and> bv_dirty (bview_of t) = {} \<and>
    bv_held (bview_of t) = (\<lambda>_. None) \<and>
    head_count (disk t 1 (lg_start (log s))) = 0 \<and> (\<forall>n. n \<notin> log_region (log s) \<longrightarrow> disk t 1 n = bv_data (bview_of s) n))"
proof (cases "0 < lg_n (log s)")
  case True
  have i: "log_idle s" using r by (simp add: commit_ready_def)
  have len: "length (commit_writes s) = 2 * nat (lg_n (log s)) + 2" by (simp add: commit_writes_def Let_def log_writes_def logged_def)
  note c = crash_disk(3) [OF r refl refl refl, of "length (commit_writes s)"]
  have cd: "head_count (disk_after (disk s 1) (commit_writes s) (lg_start (log s))) = 0"
    "\<forall>n. n \<notin> log_region (log s) \<longrightarrow> disk_after (disk s 1) (commit_writes s) n = bv_data (bview_of s) n"
    using c by (simp_all add: len)
  show ?thesis
  proof (rule runs_conseq [OF commit_gives [OF r True]])
    fix x t assume t: "bcache_ok t \<and> blocks_only (s\<lparr>log := (log s)\<lparr>lg_n := 0\<rparr>\<rparr>) t \<and> bview_of t = written (commit_writes s) (bview_of s)"
    have "disk t 1 = disk_after (disk s 1) (commit_writes s)"
      using arg_cong [OF t [THEN conjunct2, THEN conjunct2], of bv_disk] by (simp add: bview_sel)
    moreover have "set (logged (log s)) \<subseteq> fst ` set (commit_writes s)" by (auto simp: commit_writes_def Let_def image_Un image_image)
    ultimately show "bcache_ok t \<and> blocks_only (s\<lparr>log := (log s)\<lparr>lg_n := 0\<rparr>\<rparr>) t \<and> bv_dirty (bview_of t) = {} \<and>
      bv_held (bview_of t) = (\<lambda>_. None) \<and> head_count (disk t 1 (lg_start (log s))) = 0 \<and>
      (\<forall>n. n \<notin> log_region (log s) \<longrightarrow> disk t 1 n = bv_data (bview_of s) n)"
      using t r cd i by (auto simp: commit_ready_def log_idle_def)
  qed
next
  case False
  have i: "log_idle s" and z: "lg_n (log s) = 0" and h: "head_count (disk s 1 (lg_start (log s))) = 0" and d: "bv_dirty (bview_of s) = {}"
    using r False by (auto simp: commit_ready_def log_idle_def log_wf_def logged_def)
  have "s\<lparr>log := (log s)\<lparr>lg_n := 0\<rparr>\<rparr> = s" using z by simp
  moreover have "disk s 1 n = bv_data (bview_of s) n" for n
    using clean_unless [OF log_idleD(1) [OF i], of n] d log_idleD(2) [OF i] by (simp add: bv_clean_def bview_sel)
  moreover have "commit env s = Ret () env s" for env using False by (simp add: commit_def)
  ultimately show ?thesis
    using i h d by (intro runsI [of commit s "()" s]) (simp_all add: log_idle_def)
qed

lemma wake_parts:
  "quiet s \<Longrightarrow> quiet (s\<lparr>ptable := wake c (ptable s)\<rparr>)" "lru L (s\<lparr>ptable := wake c (ptable s)\<rparr>) = lru L s"
  "buf_locked (s\<lparr>ptable := wake c (ptable s)\<rparr>) b = buf_locked s b"
  "slock_mine k (s\<lparr>ptable := wake c (ptable s)\<rparr>) = slock_mine k s" "buf_dirty (s\<lparr>ptable := wake c (ptable s)\<rparr>) b = buf_dirty s b"
  by (simp_all add: quiet_def lru_def buf_locked_def slock_mine_def buf_dirty_def)

lemma wake_fresh: "bcache_ok s \<Longrightarrow> bcache_ok (s\<lparr>ptable := wake c (ptable s)\<rparr>)"
  "bview_of (s\<lparr>ptable := wake c (ptable s)\<rparr>) = bview_of s"
proof -
  let ?t = "s\<lparr>ptable := wake c (ptable s)\<rparr>"
  have "buf_ok ?t b = buf_ok s b" for b by (simp add: buf_ok_def wake_parts)
  then show "bcache_ok s \<Longrightarrow> bcache_ok ?t" by (simp add: bcache_ok_def wake_parts)
  have "bufs ?t = bufs s" "disk ?t = disk s" "disk_history ?t = disk_history s" by simp_all
  then show "bview_of ?t = bview_of s" unfolding bview_of_def by (simp only: wake_parts)
qed

lemma end_op_last:
  assumes r: "commit_ready s" and c: "\<not> lg_committing (log s)" "lg_outstanding (log s) = 1"
  shows "runs end_op s (\<lambda>_ t. log t = log_flags 0 False ((log s)\<lparr>lg_n := 0\<rparr>) \<and> fresh_cache t \<and> disksize t = disksize s \<and>
    head_count (disk t 1 (lg_start (log s))) = 0 \<and> (\<forall>n. n \<notin> log_region (log s) \<longrightarrow> disk t 1 n = bv_data (bview_of s) n))"
proof -
  let ?l = "log_flags 0 True (log s)" and ?P = "\<lambda>t. head_count (disk t 1 (lg_start (log s))) = 0 \<and> (\<forall>n. n \<notin> log_region (log s) \<longrightarrow> disk t 1 n = bv_data (bview_of s) n)"
  let ?s = "s\<lparr>log := ?l\<rparr>"
  have ok: "bcache_ok s" using r by (simp add: commit_ready_def log_idle_def)
  note q = bcache_okD(1) [OF ok]
  obtain t where t: "\<And>env. commit env ?s = Ret () env t" "bcache_ok t" "blocks_only (?s\<lparr>log := ?l\<lparr>lg_n := 0\<rparr>\<rparr>) t"
    "bv_dirty (bview_of t) = {}" "bv_held (bview_of t) = (\<lambda>_. None)" "?P t"
    using commit_done [OF commit_ready_flags [OF r, of 0 True]] by (auto elim: runsE)
  note qt = bcache_okD(1) [OF t(2)]
  have lt: "log t = ?l\<lparr>lg_n := 0\<rparr>" "disksize t = disksize s" using blocks_onlyD [OF t(3)] by simp_all
  let ?L = "(log t)\<lparr>lg_committing := False\<rparr>"
  let ?t = "t\<lparr>log := ?L, ptable := wake (Some ChanLog) (ptable t)\<rparr>"
  have rel: "release LogLock env (s\<lparr>hw := hold LogLock (hw s), log := ?l\<rparr>) = Ret () env ?s" for env
    by (subst release_hold [where h = "hw s"]) (simp_all add: quietD [OF q])
  have w: "wakeup (Some ChanLog) env (t\<lparr>hw := hold LogLock (hw t), log := ?L\<rparr>) =
      Ret () env (t\<lparr>hw := hold LogLock (hw t), log := ?L, ptable := wake (Some ChanLog) (ptable t)\<rparr>)" for env
    by (subst wakeup_exec) (simp_all add: quietD [OF qt])
  have rel2: "release LogLock env (t\<lparr>hw := hold LogLock (hw t), log := ?L, ptable := wake (Some ChanLog) (ptable t)\<rparr>) = Ret () env ?t" for env
    by (subst release_hold [where h = "hw t"]) (simp_all add: quietD [OF qt])
  have lf: "(log s)\<lparr>lg_outstanding := 0, lg_committing := True\<rparr> = ?l" by (simp add: log_flags_def)
  have "end_op env s = Ret () env ?t" for env
    using c lf rel t(1) w rel2 by (simp add: end_op_def log_acquire [OF q] log_acquire [OF qt] kthen_apply upd_log_def Let_def)
  then show ?thesis
    by (rule runsI [of end_op]) (use t lt wake_fresh [where s = "t\<lparr>log := (log t)\<lparr>lg_committing := False\<rparr>\<rparr>"] in \<open>simp_all add: fresh_cache_def log_flags_def\<close>)
qed

lemma begin_op_exec:
  assumes q: "quiet s" and c: "\<not> lg_committing (log s)" "\<not> log_full (log s)"
  shows "begin_op env s = Ret () env (s\<lparr>log := (log s)\<lparr>lg_outstanding := lg_outstanding (log s) + 1\<rparr>\<rparr>)"
proof -
  let ?l = "(log s)\<lparr>lg_outstanding := lg_outstanding (log s) + 1\<rparr>"
  have "release LogLock env (s\<lparr>hw := hold LogLock (hw s), log := ?l\<rparr>) = Ret () env (s\<lparr>log := ?l\<rparr>)"
    by (subst release_hold [where h = "hw s"]) (simp_all add: quietD [OF q])
  then show ?thesis using c by (simp add: begin_op_def log_acquire [OF q] kthen_apply kwhile_stop upd_log_def)
qed

text \<open>Between transactions the log is empty, in memory and on the disk.\<close>

definition between_ops :: "kernel \<Rightarrow> bool" where
  "between_ops s \<longleftrightarrow> fresh_cache s \<and> log_wf (disksize s) (log s) \<and> lg_n (log s) = 0 \<and> 1 < lg_size (log s) \<and>
     lg_outstanding (log s) = 0 \<and> \<not> lg_committing (log s) \<and> head_count (disk s 1 (lg_start (log s))) = 0"

definition change_block :: "uint \<Rightarrow> (block \<Rightarrow> block) \<Rightarrow> unit kernel_op" where
  "change_block n f = kthen begin_op (kbind (bread 1 n) (\<lambda>b. kthen (upd_bdata b f) (kthen (log_write b) (kthen (brelse b) end_op))))"

lemma change_block_runs:
  assumes s: "between_ops s" and n: "n < disksize s" "n \<notin> log_region (log s)"
  shows "runs (change_block n f) s (\<lambda>_ t. between_ops t \<and> log t = (log s)\<lparr>lg_block := (lg_block (log s))(0 := n)\<rparr> \<and>
    (\<forall>m. m \<notin> log_region (log s) \<longrightarrow> disk t 1 m = (if m = n then f (disk s 1 n) else disk s 1 m)))"
proof -
  have fc: "fresh_cache s" and w: "log_wf (disksize s) (log s)" and z: "lg_n (log s) = 0" "1 < lg_size (log s)" "lg_outstanding (log s) = 0"
    "\<not> lg_committing (log s)" "head_count (disk s 1 (lg_start (log s))) = 0" using s by (auto simp: between_ops_def)
  have k: "bcache_ok s" "bv_held (bview_of s) = (\<lambda>_. None)" "bv_dirty (bview_of s) = {}" using fc by (auto simp: fresh_cache_def)
  note cl = fresh_clean [OF fc]
  let ?l = "(log s)\<lparr>lg_outstanding := 1\<rparr>"
  let ?s = "s\<lparr>log := ?l\<rparr>" and ?L = "log_add n ((log s)\<lparr>lg_outstanding := 1\<rparr>)"
  have lgd: "logged (log s) = []" "logged ?l = []" using z by (simp_all add: logged_def)
  have L: "?L = ?l\<lparr>lg_block := (lg_block (log s))(0 := n), lg_n := 1\<rparr>" using lgd z by (simp add: log_add_def)
  have "\<not> log_full (log s)" using z by (simp add: log_full_def MAXOPBLOCKS_def LOGSIZE_def)
  then have bo: "begin_op env s = Ret () env ?s" for env
    using begin_op_exec [OF bcache_okD(1) [OF k(1)] z(4)] z(3) by simp
  have wL: "log_wf (disksize s) ?L"
    by (rule log_add_wf) (use w n z in \<open>simp_all add: log_wf_def logged_def log_region_def LOGSIZE_def MAXOPBLOCKS_def\<close>)
  have st: "lg_start (log s) \<noteq> n" using n(2) log_start_facts(2) [OF w] by auto
  have rg: "log_region ?L = log_region (log s)" by (simp add: L log_region_def)
  let ?Q = "\<lambda>_ t. between_ops t \<and> log t = (log s)\<lparr>lg_block := (lg_block (log s))(0 := n)\<rparr> \<and>
    (\<forall>m. m \<notin> log_region (log s) \<longrightarrow> disk t 1 m = (if m = n then f (disk s 1 n) else disk s 1 m))"
  have "runs (kbind (bread 1 n) (\<lambda>b. kthen (upd_bdata b f) (kthen (log_write b) (kthen (brelse b) end_op)))) ?s ?Q"
  proof (rule runs_kbind, rule runs_conseq [OF bc.rd_runs])
    show "bcache_ok ?s" "n < disksize ?s" "n \<notin> ran (bv_held (bview_of ?s))" "bv_room NBUF n (bview_of ?s)"
      using k n(1) by (simp_all add: bv_room_def NBUF_def MAXOPBLOCKS_def)
    fix b t assume t: "bcache_ok t \<and> blocks_only ?s t \<and> bv_held (bview_of ?s) b = None \<and> bview_of t = bv_hold b n (bview_of ?s)"
    have ht: "bv_held (bview_of t) b = Some n" using t by (simp add: bv_hold_def)
    show "runs (kthen (upd_bdata b f) (kthen (log_write b) (kthen (brelse b) end_op))) t ?Q"
    proof (rule runs_kthen, rule runs_conseq [OF bc.md_runs [OF _ ht]])
      show "bcache_ok t" using t by blast
      fix x u assume u: "bcache_ok u \<and> blocks_only t u \<and> bview_of u = bv_put n (f (bv_data (bview_of t) n)) (bview_of t)"
      have hu: "bv_held (bview_of u) b = Some n" using u ht by (simp add: bv_put_def)
      have bu: "blocks_only ?s u" using t u blocks_only_trans by blast
      note lu = blocks_onlyD(1) [OF bu]
      show "runs (kthen (log_write b) (kthen (brelse b) end_op)) u ?Q"
      proof (rule runs_kthen, rule runs_conseq [OF log_write_runs [OF _ hu]])
        show "bcache_ok u" using u by blast
        show "0 \<le> lg_n (log u)" "lg_n (log u) < int LOGSIZE" "lg_n (log u) < lg_size (log u) - 1" "0 < lg_outstanding (log u)"
          using lu z by (simp_all add: LOGSIZE_def MAXOPBLOCKS_def)
        fix y v assume v: "bcache_ok v \<and> blocks_only (u\<lparr>log := log_add n (log u)\<rparr>) v \<and> bview_of v = (bview_of u)\<lparr>bv_dirty := insert n (bv_dirty (bview_of u))\<rparr>"
        have lv: "log v = ?L" "disksize v = disksize s"
          using v blocks_onlyD(1,2) [of "u\<lparr>log := log_add n (log u)\<rparr>" v] blocks_onlyD(2) [OF bu] lu by simp_all
        have hv: "bv_held (bview_of v) b = Some n" using v hu by simp
        show "runs (kthen (brelse b) end_op) v ?Q"
        proof (rule runs_kthen, rule runs_conseq [OF bc.rl_runs [OF _ hv]])
          show "bcache_ok v" "n \<in> bv_dirty (bview_of v) \<or> bv_clean n (bview_of v)" using v by simp_all
          fix z' p assume p: "bcache_ok p \<and> blocks_only v p \<and> bview_of p = bv_drop b (bview_of v)"
          have lp: "log p = ?L" "disksize p = disksize s" using p blocks_onlyD(1,2) lv by metis+
          have vp: "bv_data (bview_of p) = (disk s 1)(n := f (disk s 1 n))" "bv_dirty (bview_of p) = {n}" "bv_held (bview_of p) = (\<lambda>_. None)"
            "disk p 1 = disk s 1"
            using p v u t k cl by (auto simp: bv_drop_def bv_put_def bv_hold_def bview_sel [symmetric])
          have "commit_ready p"
            using p lp vp wL z(5) n(2) lgd rg L by (auto simp: commit_ready_def log_idle_def logged_add logged_def log_add_def NBUF_def MAXOPBLOCKS_def)
          then show "runs end_op p ?Q"
            by (rule runs_conseq [OF end_op_last])
              (use lp vp rg L z w in \<open>auto simp: between_ops_def log_flags_def log_wf_def logged_def log_region_def\<close>)
        qed
      qed
    qed
  qed
  then show ?thesis unfolding change_block_def by (intro runs_kthen runsI [of begin_op, OF bo])
qed

section \<open>A small disk\<close>

definition ring_buf :: "nat \<Rightarrow> buf" where
  "ring_buf b = zero_buf\<lparr>b_next := if b = 30 then 0 else b + 1, b_prev := if b = 0 then 30 else b - 1\<rparr>"

definition small_sb :: block where
  "small_sb = store32 (store32 (\<lambda>_. 0) 12 3) 16 2"

definition small_fs :: kernel where
  "small_fs = one_proc\<lparr>bufs := ring_buf, disk := (\<lambda>_. (\<lambda>_ _. 0)(1 := small_sb)), disksize := 10,
     log := \<lparr>lg_start = 2, lg_size = 3, lg_outstanding = 0, lg_committing = False, lg_dev = 1, lg_n = 0, lg_block = (\<lambda>_. 0)\<rparr>\<rparr>"

definition dirty_buf :: buf where
  "dirty_buf = (ring_buf 0)\<lparr>b_dev := 1, b_blockno := 5, b_flags := B_VALID OR B_DIRTY, b_data := (\<lambda>_. 7)\<rparr>"

definition small_tx :: kernel where
  "small_tx = small_fs\<lparr>bufs := ring_buf(0 := dirty_buf), log := (log small_fs)\<lparr>lg_n := 1, lg_block := (\<lambda>_. 5)\<rparr>\<rparr>"

lemma small_simps [simp]:
  "bufs small_fs = ring_buf" "disk small_fs d = (\<lambda>_ _. 0)(1 := small_sb)" "disksize small_fs = 10" "ptable small_fs = ptable one_proc"
  "hw small_fs = proc_hw" "log small_fs = \<lparr>lg_start = 2, lg_size = 3, lg_outstanding = 0, lg_committing = False, lg_dev = 1, lg_n = 0, lg_block = (\<lambda>_. 0)\<rparr>"
  by (simp_all add: small_fs_def)

lemma ring_links: "bnext ring_buf b = (if b = 30 then 0 else b + 1)" "bprev ring_buf b = (if b = 0 then 30 else b - 1)"
  by (simp_all add: ring_buf_def bnext_def bprev_def)

lemma chain_upt: "n + k \<le> 30 \<Longrightarrow> chain (bnext ring_buf) (bprev ring_buf) [n..<Suc (n + k)]"
proof (induction k arbitrary: n)
  case (Suc k)
  have "[n..<Suc (n + Suc k)] = n # [Suc n..<Suc (Suc n + k)]" by (subst upt_conv_Cons) simp_all
  moreover have "[Suc n..<Suc (Suc n + k)] = Suc n # [Suc (Suc n)..<Suc (Suc n + k)]" by (subst upt_conv_Cons) simp_all
  ultimately show ?case using Suc.IH [of "Suc n"] Suc.prems by (simp only: chain.simps) (simp add: ring_links)
qed simp

lemma ring_lru: "bufs s = ring_buf \<Longrightarrow> lru [0..<30] s"
proof -
  assume s: "bufs s = ring_buf"
  have "[0..<30] @ [30] = 0 # [1..<30] @ [30 :: nat]" by (subst upt_conv_Cons) simp_all
  moreover have "[0..<Suc (0 + 30)] = [0..<30] @ [30]" by (simp only: upt_Suc_append add_0)
  ultimately have "chain (bnext ring_buf) (bprev ring_buf) (30 # [0..<30] @ [30])"
    using chain_upt [of 0 30] by (simp only: chain.simps) (simp add: ring_links)
  then show ?thesis by (auto simp: lru_def s NBUF_def MAXOPBLOCKS_def bhead_def)
qed

lemma small_quiet: "quiet small_fs" "quiet small_tx"
  by (simp_all add: quiet_def small_tx_def one_proc_settled)

lemma small_unlocked: "\<not> buf_locked small_fs b" "\<not> buf_locked small_tx b"
  by (simp_all add: buf_locked_def small_tx_def boot_hw_def)

lemma small_ok: "bcache_ok small_fs"
proof -
  have "buf_ok small_fs b" for b using small_unlocked by (simp add: buf_ok_def ring_buf_def zero_buf_def Let_def)
  then show ?thesis using small_quiet ring_lru [of small_fs] by (auto simp: bcache_ok_def uniq_def ring_buf_def zero_buf_def)
qed

lemma small_fresh: "fresh_cache (small_fs\<lparr>disk := d\<rparr>)"
proof -
  let ?s = "small_fs\<lparr>disk := d\<rparr>"
  have l: "\<not> buf_locked ?s b" for b by (simp add: buf_locked_def boot_hw_def)
  then have "buf_ok ?s b" for b by (simp add: buf_ok_def ring_buf_def zero_buf_def Let_def)
  moreover have "quiet ?s" by (simp add: quiet_def one_proc_settled)
  ultimately have "bcache_ok ?s" using ring_lru [of ?s] by (auto simp: bcache_ok_def uniq_def ring_buf_def zero_buf_def)
  then show ?thesis using l by (simp add: fresh_cache_def bview_of_def buf_dirty_def ring_buf_def zero_buf_def)
qed

lemma small_between: "between_ops small_fs"
  using small_fresh [of "disk small_fs"]
  by (simp add: between_ops_def log_wf_def logged_def LOGSIZE_def MAXOPBLOCKS_def head_count_def load32_zero)

lemma small_tx_simps [simp]:
  "bufs small_tx = ring_buf(0 := dirty_buf)" "disk small_tx d = (\<lambda>_ _. 0)(1 := small_sb)" "disksize small_tx = 10"
  "log small_tx = \<lparr>lg_start = 2, lg_size = 3, lg_outstanding = 0, lg_committing = False, lg_dev = 1, lg_n = 1, lg_block = (\<lambda>_. 5)\<rparr>"
  by (simp_all add: small_tx_def)

lemma small_tx_dirty: "buf_dirty small_tx b \<longleftrightarrow> b = 0"
  by (simp add: buf_dirty_def dirty_buf_def ring_buf_def zero_buf_def)

lemma small_tx_ok: "bcache_ok small_tx"
proof -
  have "buf_ok small_tx b" for b
    using small_unlocked by (simp add: buf_ok_def ring_buf_def dirty_buf_def zero_buf_def Let_def flag_bits2)
  moreover have "lru [0..<30] small_tx"
    by (rule lru_keep [OF ring_lru [of small_fs], of dirty_buf 0]) (simp_all add: dirty_buf_def)
  ultimately show ?thesis using small_quiet by (auto simp: bcache_ok_def uniq_def ring_buf_def zero_buf_def split: if_splits)
qed

lemma small_tx_view: "bv_held (bview_of small_tx) = (\<lambda>_. None)" "bv_dirty (bview_of small_tx) = {5}" "bv_data (bview_of small_tx) 5 = (\<lambda>_. 7)"
proof -
  show "bv_held (bview_of small_tx) = (\<lambda>_. None)" using small_unlocked by (simp add: bview_of_def)
  show "bv_dirty (bview_of small_tx) = {5}"
    by (auto simp: set_eq_iff dirty_view small_tx_dirty NBUF_def MAXOPBLOCKS_def) (simp_all add: dirty_buf_def)
  show "bv_data (bview_of small_tx) 5 = (\<lambda>_. 7)"
    using view_of_buf [OF bcache_okD(3) [OF small_tx_ok], of 0 5] by (simp add: bview_sel dirty_buf_def NBUF_def MAXOPBLOCKS_def)
qed

lemma small_region: "lg_start lg = 2 \<Longrightarrow> lg_size lg = 3 \<Longrightarrow> log_region lg = {2, 3, 4}"
proof -
  assume a: "lg_start lg = 2" "lg_size lg = 3"
  have "2 \<le> m \<and> unat m < 5 \<longleftrightarrow> m = 2 \<or> m = 3 \<or> m = 4" for m :: uint
  proof -
    have "2 \<le> m \<longleftrightarrow> 2 \<le> unat m" by (simp add: word_le_nat_alt)
    moreover have "m = 2 \<longleftrightarrow> unat m = 2" "m = 3 \<longleftrightarrow> unat m = 3" "m = 4 \<longleftrightarrow> unat m = 4"
      by (simp_all add: word_unat_eq_iff)
    ultimately show ?thesis by linarith
  qed
  then show ?thesis using a by (auto simp: log_region_def)
qed

lemma small_tx_ready: "commit_ready small_tx"
  using small_tx_ok small_tx_view
  by (simp add: commit_ready_def log_idle_def log_wf_def logged_def small_region LOGSIZE_def NBUF_def MAXOPBLOCKS_def head_count_def load32_zero)

lemma small_sb_loads: "load32 small_sb 12 = 3" "load32 small_sb 16 = 2"
proof -
  have "disjoint_runs (12 :: 9 word) 4 16 4" by (rule disjoint_runs_unat) simp_all
  then show "load32 small_sb 12 = 3" "load32 small_sb 16 = 2" by (simp_all add: small_sb_def load32_store32_disjoint)
qed

lemma small_reboot:
  assumes "d 1 = small_sb" and "lg_start lg = 2" "lg_size lg = 3"
  shows "rebooted (small_fs\<lparr>disk := (\<lambda>_. d)\<rparr>) d 10 lg"
  using assms small_fresh small_sb_loads by (simp add: rebooted_def sint32)

theorem commit_crash_atomic_witness:
  "\<exists>s' r r'. commit [] small_tx = Ret () [] s' \<and> disk r 1 = disk_after (disk small_tx 1) (take 2 (commit_writes small_tx)) \<and>
     disk r 1 5 = (\<lambda>_. 0) \<and> initlog 1 [] r = Ret () [] r' \<and> disk r' 1 5 = (\<lambda>_. 7)"
proof -
  let ?d = "disk_after (disk small_tx 1) (take 2 (commit_writes small_tx))"
  let ?r = "small_fs\<lparr>disk := (\<lambda>_. ?d)\<rparr>"
  have keys: "map fst (take 2 (commit_writes small_tx)) = [3, 2]"
    by (simp add: commit_writes_def Let_def log_writes_def logged_def log_blk_def)
  then have k: "fst ` set (take 2 (commit_writes small_tx)) = {3, 2}" by (metis list.simps(15) empty_set list.set_map)
  have d: "?d 1 = small_sb" "?d 5 = (\<lambda>_. 0)" by (subst disk_after_other; simp add: k)+
  have r: "rebooted ?r ?d (disksize small_tx) (log small_tx)" using small_reboot [of ?d, OF d(1), of "log small_tx"] by simp
  have reg: "5 \<notin> log_region (log small_tx)" by (simp add: small_region)
  have n: "0 < lg_n (log small_tx)" "\<not> 2 \<le> nat (lg_n (log small_tx))" by simp_all
  from commit_crash_atomic [OF small_tx_ready n(1), of "[]"] r obtain s' r' where
    "commit [] small_tx = Ret () [] s'" "initlog 1 [] ?r = Ret () [] r'" "disk r' 1 5 = bv_data (bview_of small_tx) 5"
    using reg n(2) by meson
  then show ?thesis using d(2) small_tx_view(3) by (intro exI [of _ s'] exI [of _ ?r] exI [of _ r']) simp
qed

theorem recovery_restartable_witness:
  "\<exists>r r1 r2 r3 ws. initlog 1 [] r = Ret () [] r1 \<and> disk_history r1 = disk_history r @ ws \<and>
     disk r2 1 = disk_after (disk r 1) (take 0 ws) \<and> initlog 1 [] r2 = Ret () [] r3 \<and> disk r3 1 5 = disk r1 1 5"
proof -
  let ?lg = "log small_tx"
  let ?h = "head_block ?lg (\<lambda>_. 0)"
  let ?d = "(disk small_fs 1)(2 := ?h, 3 := (\<lambda>_. 9))"
  let ?r = "small_fs\<lparr>disk := (\<lambda>_. ?d)\<rparr>"
  have r: "rebooted ?r ?d 10 ?lg" by (rule small_reboot) simp_all
  have w: "log_wf 10 ?lg" using small_tx_ready by (simp add: commit_ready_def log_idle_def)
  have n: "0 \<le> lg_n ?lg" "lg_n ?lg \<le> int LOGSIZE" using w by (simp_all add: log_wf_def)
  have h: "head_count (?d (lg_start ?lg)) = lg_n ?lg"
    "\<forall>i < nat (lg_n ?lg). load32 (?d (lg_start ?lg)) (of_nat (4 + 4 * i)) = lg_block ?lg i"
    using head_block_read [OF n, where d = "\<lambda>_. 0"] by (simp_all add: head_count_def)
  from recovery_restartable [OF r w h, of "[]"] obtain r1 ws where
    r1: "initlog 1 [] ?r = Ret () [] r1" "disk_history r1 = disk_history ?r @ ws"
    and r2: "rebooted ?r (disk_after ?d (take 0 ws)) 10 ?lg \<longrightarrow>
      (\<exists>r3. initlog 1 [] ?r = Ret () [] r3 \<and> (\<forall>n. n \<notin> log_region ?lg \<longrightarrow> disk r3 1 n = disk r1 1 n))"
    by blast
  from r2 r obtain r3 where "initlog 1 [] ?r = Ret () [] r3" "\<forall>n. n \<notin> log_region ?lg \<longrightarrow> disk r3 1 n = disk r1 1 n" by auto
  then have "initlog 1 [] ?r = Ret () [] r3" "disk r3 1 5 = disk r1 1 5" by (simp_all add: small_region)
  with r1 show ?thesis by (intro exI [of _ ?r] exI [of _ r1] exI [of _ r3] exI [of _ ws]) simp
qed

text \<open>C29: The usual sequence of calls on one block -- begin, read, change, \<^verbatim>\<open>log_write\<close>, release, end --
  returns with the changed block on the disk, every other block outside the log as it was, and a
  state from which the next such sequence can start.\<close>

theorem block_transaction:
  assumes "between_ops s" and "n < disksize s" and "n \<notin> log_region (log s)"
  shows "\<exists>s'. kthen begin_op (kbind (bread 1 n) (\<lambda>b. kthen (upd_bdata b f) (kthen (log_write b) (kthen (brelse b) end_op)))) env s =
      Ret () env s' \<and> between_ops s' \<and>
    (\<forall>m. m \<notin> log_region (log s) \<longrightarrow> disk s' 1 m = (if m = n then f (disk s 1 n) else disk s 1 m))"
  using runs_Ret [OF change_block_runs [OF assms, of f], of env] unfolding change_block_def by auto

theorem block_transaction_witness:
  "\<exists>s'. kthen begin_op (kbind (bread 1 7) (\<lambda>b. kthen (upd_bdata b (\<lambda>_ _. 9)) (kthen (log_write b) (kthen (brelse b) end_op)))) [] small_fs =
      Ret () [] s' \<and> between_ops s' \<and> disk s' 1 7 = (\<lambda>_. 9) \<and> disk s' 1 8 = (\<lambda>_. 0)"
proof -
  have r: "log_region (log small_fs) = {2, 3, 4}" by (simp add: small_region)
  obtain s' where s': "kthen begin_op (kbind (bread 1 7) (\<lambda>b. kthen (upd_bdata b (\<lambda>_ _. 9)) (kthen (log_write b) (kthen (brelse b) end_op)))) [] small_fs =
      Ret () [] s'" "between_ops s'" "\<forall>m. m \<notin> {2, 3, 4} \<longrightarrow> disk s' 1 m = (if m = 7 then (\<lambda>_. 9) else disk small_fs 1 m)"
    using block_transaction [OF small_between, of 7 "\<lambda>_ _. 9" "[]"] unfolding r by auto
  then show ?thesis using s'(3) [rule_format, of 7] s'(3) [rule_format, of 8] by auto
qed

text \<open>C30: The buffer cache keeps its invariant -- well linked, each block in at most one buffer, every free
  buffer dirty or equal to the disk -- and behaves as a block device: reading gives the block and a buffer
  to hold it, writing puts the held contents on the disk, releasing gives the buffer back.\<close>

theorem bcache_keeps_invariant:
  assumes "bcache_ok s"
  shows "(\<forall>n. n < disksize s \<longrightarrow> n \<notin> ran (bv_held (bview_of s)) \<longrightarrow> bv_room NBUF n (bview_of s) \<longrightarrow>
      (\<exists>b s'. bread 1 n env s = Ret b env s' \<and> bcache_ok s' \<and> bv_held (bview_of s) b = None \<and>
        b_data (bufs s' b) = bv_data (bview_of s) n \<and> bview_of s' = bv_hold b n (bview_of s))) \<and>
    (\<forall>b n. bv_held (bview_of s) b = Some n \<longrightarrow>
      (\<exists>s'. bwrite b env s = Ret () env s' \<and> bcache_ok s' \<and> bview_of s' = bv_write n (bview_of s))) \<and>
    (\<forall>b n. bv_held (bview_of s) b = Some n \<longrightarrow> n \<in> bv_dirty (bview_of s) \<or> bv_clean n (bview_of s) \<longrightarrow>
      (\<exists>s'. brelse b env s = Ret () env s' \<and> bcache_ok s' \<and> bview_of s' = bv_drop b (bview_of s)))"
proof (intro conjI allI impI)
  fix n assume n: "n < disksize s" "n \<notin> ran (bv_held (bview_of s))" "bv_room NBUF n (bview_of s)"
  from runs_Ret [OF bc.rd_runs [OF assms n], of env] obtain b s' where
    b: "bread 1 n env s = Ret b env s'" "bcache_ok s'" "bv_held (bview_of s) b = None" "bview_of s' = bv_hold b n (bview_of s)" by blast
  moreover have "b_data (bufs s' b) = bv_data (bview_of s) n"
    using bc.data_held [OF b(2), of b n] b(4) by (simp add: bv_hold_def)
  ultimately show "\<exists>b s'. bread 1 n env s = Ret b env s' \<and> bcache_ok s' \<and> bv_held (bview_of s) b = None \<and>
        b_data (bufs s' b) = bv_data (bview_of s) n \<and> bview_of s' = bv_hold b n (bview_of s)" by blast
next
  fix b n assume h: "bv_held (bview_of s) b = Some n"
  show "\<exists>s'. bwrite b env s = Ret () env s' \<and> bcache_ok s' \<and> bview_of s' = bv_write n (bview_of s)"
    using runs_Ret [OF bc.wr_runs [OF assms h], of env] by auto
  assume "n \<in> bv_dirty (bview_of s) \<or> bv_clean n (bview_of s)"
  then show "\<exists>s'. brelse b env s = Ret () env s' \<and> bcache_ok s' \<and> bview_of s' = bv_drop b (bview_of s)"
    using runs_Ret [OF bc.rl_runs [OF assms h], of env] by auto
qed

theorem bcache_keeps_invariant_witness:
  "\<exists>b s'. bread 1 5 [] small_tx = Ret b [] s' \<and> bcache_ok s' \<and> b_data (bufs s' b) = (\<lambda>_. 7)"
proof -
  have "(5::uint) < disksize small_tx" "5 \<notin> ran (bv_held (bview_of small_tx))" "bv_room NBUF 5 (bview_of small_tx)"
    using small_tx_view by (simp_all add: bv_room_def)
  with bcache_keeps_invariant [OF small_tx_ok, THEN conjunct1, rule_format, of 5 "[]"] show ?thesis
    unfolding small_tx_view(3) by blast
qed

text \<open>C31: Which buffer \<^verbatim>\<open>bget\<close> takes. A cached block is found in its buffer; otherwise the least recently
  used buffer that is neither referenced nor dirty is given to the block; when there is none, the kernel
  panics.\<close>

theorem bget_takes_lru:
  assumes "quiet s" and "lru L s" and "\<forall>b < NBUF. is_block dev n (bufs s b) \<or> evictable (bufs s b) \<longrightarrow> \<not> buf_locked s b"
  shows "bget dev n env s =
    (case find (\<lambda>b. is_block dev n (bufs s b)) L of
       Some b \<Rightarrow> Ret b env (take_buf b ((bufs s b)\<lparr>b_refcnt := b_refcnt (bufs s b) + 1\<rparr>) s)
     | None \<Rightarrow> (case find (\<lambda>b. evictable (bufs s b)) (rev L) of
         Some b \<Rightarrow> Ret b env (take_buf b ((bufs s b)\<lparr>b_dev := dev, b_blockno := n, b_flags := 0, b_refcnt := 1\<rparr>) s)
       | None \<Rightarrow> Panic ''bget: no buffers''))"
  by (rule bget_exec [OF assms(1,2)]) (use assms(3) in blast)

theorem bget_takes_lru_witness:
  "\<exists>s'. bget 1 6 [] small_fs = Ret 29 [] s'"
proof -
  have L: "lru [0..<30] small_fs" by (rule ring_lru) simp
  have u: "\<forall>b < NBUF. is_block 1 6 (bufs small_fs b) \<or> evictable (bufs small_fs b) \<longrightarrow> \<not> buf_locked small_fs b"
    using small_unlocked by blast
  have f: "find (\<lambda>b. is_block 1 6 (bufs small_fs b)) [0..<30] = None" "find (\<lambda>b. evictable (bufs small_fs b)) (rev [0..<30]) = Some 29"
  proof -
    have "rev [0..<30] = 29 # rev [0..<29 :: nat]" using upt_Suc_append [of 0 29] by simp
    then show "find (\<lambda>b. evictable (bufs small_fs b)) (rev [0..<30]) = Some 29" by (simp add: ring_buf_def zero_buf_def)
    show "find (\<lambda>b. is_block 1 6 (bufs small_fs b)) [0..<30] = None" by (simp add: find_None_iff ring_buf_def zero_buf_def)
  qed
  show ?thesis using bget_takes_lru [OF small_quiet(1) L u, of "[]"] unfolding f by simp
qed

end
