(* ===== verification/Ulib.thy ===== *)
theory Ulib
  imports Strings Mmu
begin

text \<open>
  User programs: the system calls as a program sees them (\<^verbatim>\<open>user.h\<close>,
  \<^verbatim>\<open>usys.S\<close>), the C library of \<^verbatim>\<open>ulib.c\<close>, and \<^verbatim>\<open>printf.c\<close>.

  A program runs against a list of answers, what the kernel returns from its next system
  calls, and leaves the trace of the calls it made. It returns, ends (by \<^verbatim>\<open>exit\<close>, or by an
  \<^verbatim>\<open>exec\<close> that replaces it), or waits because no answer is left. A call whose result the
  program never looks at takes no answer. \<^verbatim>\<open>fork\<close> is such a call too: the answer decides
  whether the run is the parent's or the child's.
\<close>

section \<open>System calls\<close>

datatype sysreq =
    Sfork | Sexit | Swait | Spipe
  | Sread int int | Swrite int string | Sclose int | Skill int int
  | Sexec string "string list" | Sopen string int | Smknod string int int | Sunlink string
  | Sfstat int | Slink string string | Smkdir string | Schdir string | Sdup int
  | Ssbrk uint | Ssleep int

text \<open>
  \<^verbatim>\<open>struct stat\<close> as a program gets it; the answers: an integer, the bytes a \<^verbatim>\<open>read\<close> puts
  into the buffer, the structure \<^verbatim>\<open>fstat\<close> fills in, the two descriptors of \<^verbatim>\<open>pipe\<close>, or a call
  that does not come back.
\<close>

record ustat =
  ust_type :: int
  ust_dev :: int
  ust_ino :: int
  ust_nlink :: int
  ust_size :: int

datatype sysans = Aint int | Adata string | Astat ustat | Apipe int int | Anever

record ustate =
  answers :: "sysans list"
  calls :: "sysreq list"

datatype 'a ures = URet 'a | UEnd | UWait

type_synonym 'a up = "ustate \<Rightarrow> 'a ures \<times> ustate"

named_theorems up_defs \<open>definitions of the operators of user programs\<close>

definition uret :: "'a \<Rightarrow> 'a up" where
  [up_defs]: "uret x s = (URet x, s)"

definition ubind :: "'a up \<Rightarrow> ('a \<Rightarrow> 'b up) \<Rightarrow> 'b up" where
  [up_defs]: "ubind m f s = (case m s of
      (URet x, s') \<Rightarrow> f x s'
    | (UEnd, s') \<Rightarrow> (UEnd, s')
    | (UWait, s') \<Rightarrow> (UWait, s'))"

definition uthen :: "'a up \<Rightarrow> 'b up \<Rightarrow> 'b up" where
  [up_defs]: "uthen m n = ubind m (\<lambda>_. n)"

definition udo :: "sysreq \<Rightarrow> unit up" where
  [up_defs]: "udo r s = (URet (), s\<lparr>calls := calls s @ [r]\<rparr>)"

definition uask :: "sysreq \<Rightarrow> sysans up" where
  [up_defs]: "uask r s = (case answers s of
      [] \<Rightarrow> (UWait, s\<lparr>calls := calls s @ [r]\<rparr>)
    | Anever # as \<Rightarrow> (UEnd, s\<lparr>answers := as, calls := calls s @ [r]\<rparr>)
    | a # as \<Rightarrow> (URet a, s\<lparr>answers := as, calls := calls s @ [r]\<rparr>))"

text \<open>An answer of a sort that the call cannot give leaves the program waiting.\<close>

definition ucall :: "sysreq \<Rightarrow> int up" where
  [up_defs]: "ucall r = ubind (uask r) (\<lambda>a. case a of Aint v \<Rightarrow> uret v | _ \<Rightarrow> (\<lambda>s. (UWait, s)))"

definition uexit :: "'a up" where
  [up_defs]: "uexit s = (UEnd, s\<lparr>calls := calls s @ [Sexit]\<rparr>)"

text \<open>
  \<^verbatim>\<open>read\<close> returns the number of bytes and leaves them in the buffer: \<open>Some\<close> the bytes, or
  \<open>None\<close> for a negative result. It never returns more than it was asked for.
\<close>

definition uread :: "int \<Rightarrow> int \<Rightarrow> string option up" where
  [up_defs]: "uread fd n = ubind (uask (Sread fd n)) (\<lambda>a. case a of
      Adata xs \<Rightarrow> if int (length xs) \<le> n then uret (Some xs) else (\<lambda>s. (UWait, s))
    | Aint v \<Rightarrow> if v < 0 then uret None else (\<lambda>s. (UWait, s))
    | _ \<Rightarrow> (\<lambda>s. (UWait, s)))"

definition ufstat :: "int \<Rightarrow> ustat option up" where
  [up_defs]: "ufstat fd = ubind (uask (Sfstat fd)) (\<lambda>a. case a of
      Astat st \<Rightarrow> uret (Some st)
    | Aint v \<Rightarrow> if v < 0 then uret None else (\<lambda>s. (UWait, s))
    | _ \<Rightarrow> (\<lambda>s. (UWait, s)))"

definition upipe :: "(int \<times> int) option up" where
  [up_defs]: "upipe = ubind (uask Spipe) (\<lambda>a. case a of
      Apipe p0 p1 \<Rightarrow> uret (Some (p0, p1))
    | Aint v \<Rightarrow> if v < 0 then uret None else (\<lambda>s. (UWait, s))
    | _ \<Rightarrow> (\<lambda>s. (UWait, s)))"

fun ufor :: "'i list \<Rightarrow> ('i \<Rightarrow> unit up) \<Rightarrow> unit up" where
  "ufor [] body = uret ()"
| "ufor (i # is) body = uthen (body i) (ufor is body)"

text \<open>
  A loop that makes a system call with an answer in every turn: there are at most as many
  turns as answers. \<open>body\<close> returns whether the loop goes on, and the loop's variables.
\<close>

fun uloop_fuel :: "nat \<Rightarrow> ('v \<Rightarrow> (bool \<times> 'v) up) \<Rightarrow> 'v \<Rightarrow> 'v up" where
  "uloop_fuel 0 body v = (\<lambda>s. (UWait, s))"
| "uloop_fuel (Suc n) body v =
     ubind (body v) (\<lambda>(more, v'). if more then uloop_fuel n body v' else uret v')"

definition uloop :: "('v \<Rightarrow> (bool \<times> 'v) up) \<Rightarrow> 'v \<Rightarrow> 'v up" where
  "uloop body v s = uloop_fuel (Suc (length (answers s))) body v s"

section \<open>Strings and memory (ulib.c)\<close>

text \<open>
  The routines that only move bytes work on the program's byte memory. A loop that looks
  for a terminating zero ends only if there is one.
\<close>

partial_function (option) ustrcpy_from ::
  "'i::len bytes \<Rightarrow> 'i word \<Rightarrow> 'i word \<Rightarrow> 'i bytes option" where
  "ustrcpy_from m s t =
     (let m' = m(s := m t) in if m t \<noteq> 0 then ustrcpy_from m' (s + 1) (t + 1) else Some m')"

definition ustrcpy :: "'i::len bytes \<Rightarrow> 'i word \<Rightarrow> 'i word \<Rightarrow> ('i word \<times> 'i bytes) option" where
  "ustrcpy m s t = map_option (\<lambda>m'. (s, m')) (ustrcpy_from m s t)"

partial_function (option) ustrcmp :: "'i::len bytes \<Rightarrow> 'i word \<Rightarrow> 'i word \<Rightarrow> int option" where
  "ustrcmp m p q =
     (if m p \<noteq> 0 \<and> m p = m q then ustrcmp m (p + 1) (q + 1)
      else Some (uint (m p) - uint (m q)))"

partial_function (option) ustrlen_from :: "'i::len bytes \<Rightarrow> 'i word \<Rightarrow> cint \<Rightarrow> uint option" where
  "ustrlen_from m s n =
     (if m (s + of_int (sint n)) \<noteq> 0 then ustrlen_from m s (n + 1) else Some n)"

definition ustrlen :: "'i::len bytes \<Rightarrow> 'i word \<Rightarrow> uint option" where
  "ustrlen m s = ustrlen_from m s 0"

definition umemset :: "'i::len bytes \<Rightarrow> 'i word \<Rightarrow> cint \<Rightarrow> uint \<Rightarrow> 'i bytes" where
  "umemset m dst c n = stosb m dst (ucast c) (unat n)"

partial_function (option) ustrchr :: "'i::len bytes \<Rightarrow> 'i word \<Rightarrow> uchar \<Rightarrow> 'i word option" where
  "ustrchr m s c =
     (if m s \<noteq> 0 then if m s = c then Some s else ustrchr m (s + 1) c else Some 0)"

definition umemmove :: "'i::len bytes \<Rightarrow> 'i word \<Rightarrow> 'i word \<Rightarrow> cint \<Rightarrow> 'i bytes" where
  "umemmove m dst src n = copy_up m dst src (nat (sint n))"

text \<open>
  A string the program only reads is given by its characters up to the terminating zero,
  and a pointer into it by the rest of the string from there.
\<close>

definition NUL :: char where
  "NUL = CHR 0x00"

definition nl :: char where
  "nl = CHR 0x0A"

definition cr :: char where
  "cr = CHR 0x0D"

definition tab :: char where
  "tab = CHR 0x09"

definition vt :: char where
  "vt = CHR 0x0B"

fun strchr_str :: "string \<Rightarrow> char \<Rightarrow> bool" where
  "strchr_str [] c = False"
| "strchr_str (x # xs) c = (if x = c then True else strchr_str xs c)"

fun atoi_from :: "cint \<Rightarrow> string \<Rightarrow> cint" where
  "atoi_from n [] = n"
| "atoi_from n (c # s) =
     (if of_char (CHR ''0'') \<le> (of_char c :: nat) \<and> (of_char c :: nat) \<le> of_char (CHR ''9'')
      then atoi_from (n * 10 + of_char c - of_char (CHR ''0'')) s else n)"

definition atoi :: "string \<Rightarrow> cint" where
  "atoi s = atoi_from 0 s"

text \<open>\<^verbatim>\<open>gets\<close>: what it puts into the buffer before the terminating zero.\<close>

definition gets :: "int \<Rightarrow> string up" where
  "gets mx = uloop (\<lambda>buf.
     if int (length buf) + 1 < mx then
       ubind (uread 0 1) (\<lambda>cc. case cc of
         Some (c # _) \<Rightarrow>
           uret (\<not> (c = nl \<or> c = cr), buf @ [c])
       | _ \<Rightarrow> uret (False, buf))
     else uret (False, buf)) []"

definition ustat_of :: "string \<Rightarrow> ustat option up" where
  "ustat_of n =
     ubind (ucall (Sopen n 0)) (\<lambda>fd.
       if fd < 0 then uret None
       else ubind (ufstat fd) (\<lambda>r. uthen (udo (Sclose fd)) (uret r)))"

section \<open>Formatted output (printf.c)\<close>

definition uputc :: "int \<Rightarrow> char \<Rightarrow> unit up" where
  "uputc fd c = udo (Swrite fd [c])"

definition udigits :: string where
  "udigits = ''0123456789ABCDEF''"

text \<open>The digits as the \<^verbatim>\<open>do\<close> loop puts them into \<^verbatim>\<open>buf[16]\<close>, the last one first.\<close>

fun uprintint_loop :: "nat \<Rightarrow> uint \<Rightarrow> uint \<Rightarrow> string" where
  "uprintint_loop 0 x base = []"
| "uprintint_loop (Suc n) x base =
     udigits ! unat (x mod base) # (if x div base \<noteq> 0 then uprintint_loop n (x div base) base else [])"

definition uprintint_buf :: "cint \<Rightarrow> uint \<Rightarrow> bool \<Rightarrow> string" where
  "uprintint_buf xx base sg =
     (let neg = (sg \<and> sint xx < 0);
          x = (if neg then - xx else xx)
      in uprintint_loop 16 x base @ (if neg then ''-'' else []))"

definition uprintint :: "int \<Rightarrow> cint \<Rightarrow> uint \<Rightarrow> bool \<Rightarrow> unit up" where
  "uprintint fd xx base sg = ufor (rev (uprintint_buf xx base sg)) (uputc fd)"

text \<open>
  The arguments after the format: a number, a character, or a pointer to a string
  (\<open>None\<close> the null pointer). A missing argument, or one of another sort, is undefined in C:
  the program is stuck there.
\<close>

datatype uarg = UNum cint | UChr char | UStr "string option"

definition str_arg :: "string option \<Rightarrow> string" where
  "str_arg p = (case p of None \<Rightarrow> ''(null)'' | Some t \<Rightarrow> t)"

fun uprintf_loop :: "int \<Rightarrow> bool \<Rightarrow> string \<Rightarrow> uarg list \<Rightarrow> unit up" where
  "uprintf_loop fd pc [] args = uret ()"
| "uprintf_loop fd False (c # fmt) args =
     (if c = CHR ''%'' then uprintf_loop fd True fmt args
      else uthen (uputc fd c) (uprintf_loop fd False fmt args))"
| "uprintf_loop fd True (c # fmt) args =
     (if c = CHR ''d'' then
        (case args of UNum x # args' \<Rightarrow> uthen (uprintint fd x 10 True) (uprintf_loop fd False fmt args')
         | _ \<Rightarrow> (\<lambda>s. (UWait, s)))
      else if c = CHR ''x'' \<or> c = CHR ''p'' then
        (case args of UNum x # args' \<Rightarrow> uthen (uprintint fd x 16 False) (uprintf_loop fd False fmt args')
         | _ \<Rightarrow> (\<lambda>s. (UWait, s)))
      else if c = CHR ''s'' then
        (case args of
           UStr p # args' \<Rightarrow>
             uthen (ufor (str_arg p) (uputc fd))
               (uprintf_loop fd False fmt args')
         | _ \<Rightarrow> (\<lambda>s. (UWait, s)))
      else if c = CHR ''c'' then
        (case args of UChr x # args' \<Rightarrow> uthen (uputc fd x) (uprintf_loop fd False fmt args')
         | _ \<Rightarrow> (\<lambda>s. (UWait, s)))
      else if c = CHR ''%'' then uthen (uputc fd c) (uprintf_loop fd False fmt args)
      else uthen (uputc fd (CHR ''%'')) (uthen (uputc fd c) (uprintf_loop fd False fmt args)))"

definition uprintf :: "int \<Rightarrow> string \<Rightarrow> uarg list \<Rightarrow> unit up" where
  "uprintf fd fmt args = uprintf_loop fd False fmt args"

section \<open>How programs run\<close>

text \<open>From \<open>s\<close> the program makes the calls \<open>tr\<close>, takes no answer, and returns.\<close>

definition puts :: "unit up \<Rightarrow> sysreq list \<Rightarrow> bool" where
  "puts m tr \<longleftrightarrow> (\<forall>s. m s = (URet (), s\<lparr>calls := calls s @ tr\<rparr>))"

definition chars_to :: "int \<Rightarrow> string \<Rightarrow> sysreq list" where
  "chars_to fd t = map (\<lambda>c. Swrite fd [c]) t"

lemma chars_to_simps [simp]:
  "chars_to fd [] = []"
  "chars_to fd (c # t) = Swrite fd [c] # chars_to fd t"
  "chars_to fd (t @ u) = chars_to fd t @ chars_to fd u"
  by (simp_all add: chars_to_def)

lemma puts_uret [intro]: "puts (uret ()) []"
  by (simp add: puts_def uret_def)

lemma puts_uputc [intro]: "puts (uputc fd c) [Swrite fd [c]]"
  by (simp add: puts_def uputc_def udo_def)

lemma puts_uthen: "puts m tr \<Longrightarrow> puts n tr' \<Longrightarrow> puts (uthen m n) (tr @ tr')"
  by (simp add: puts_def uthen_def ubind_def)

lemma puts_ufor: "puts (ufor t (uputc fd)) (chars_to fd t)"
  by (induction t) (auto dest: puts_uthen [OF puts_uputc])

lemma puts_uprintint: "puts (uprintint fd x base sg) (chars_to fd (rev (uprintint_buf x base sg)))"
  unfolding uprintint_def by (rule puts_ufor)

text \<open>The text that \<^verbatim>\<open>printf\<close> writes, where the arguments fit the format.\<close>

fun fmt_text :: "bool \<Rightarrow> string \<Rightarrow> uarg list \<Rightarrow> string option" where
  "fmt_text pc [] args = Some []"
| "fmt_text False (c # fmt) args =
     (if c = CHR ''%'' then fmt_text True fmt args
      else map_option ((#) c) (fmt_text False fmt args))"
| "fmt_text True (c # fmt) args =
     (if c = CHR ''d'' then
        (case args of UNum x # args' \<Rightarrow>
           map_option ((@) (rev (uprintint_buf x 10 True))) (fmt_text False fmt args') | _ \<Rightarrow> None)
      else if c = CHR ''x'' \<or> c = CHR ''p'' then
        (case args of UNum x # args' \<Rightarrow>
           map_option ((@) (rev (uprintint_buf x 16 False))) (fmt_text False fmt args') | _ \<Rightarrow> None)
      else if c = CHR ''s'' then
        (case args of UStr p # args' \<Rightarrow>
           map_option ((@) (str_arg p)) (fmt_text False fmt args')
         | _ \<Rightarrow> None)
      else if c = CHR ''c'' then
        (case args of UChr x # args' \<Rightarrow> map_option ((#) x) (fmt_text False fmt args') | _ \<Rightarrow> None)
      else if c = CHR ''%'' then map_option ((#) c) (fmt_text False fmt args)
      else map_option (\<lambda>t. CHR ''%'' # c # t) (fmt_text False fmt args))"

lemma puts_uputc_then: "puts n tr \<Longrightarrow> puts (uthen (uputc fd c) n) (Swrite fd [c] # tr)"
  using puts_uthen [OF puts_uputc] by simp

lemma puts_uprintf_loop:
  "fmt_text pc fmt args = Some t \<Longrightarrow> puts (uprintf_loop fd pc fmt args) (chars_to fd t)"
  by (induction fd pc fmt args arbitrary: t rule: uprintf_loop.induct)
    (auto split: if_splits list.splits uarg.splits option.splits
      intro!: puts_uputc_then puts_uthen [OF puts_uprintint] puts_uthen [OF puts_ufor])

lemma uprintf_puts: "fmt_text False fmt args = Some t \<Longrightarrow> puts (uprintf fd fmt args) (chars_to fd t)"
  unfolding uprintf_def by (rule puts_uprintf_loop)

text \<open>What a trace writes to a descriptor, write by write.\<close>

definition written_to :: "int \<Rightarrow> sysreq list \<Rightarrow> string list" where
  "written_to fd tr = concat (map (\<lambda>r. case r of Swrite f t \<Rightarrow> if f = fd then [t] else [] | _ \<Rightarrow> []) tr)"

lemma written_to_simps [simp]:
  "written_to fd [] = []"
  "written_to fd (r # tr) = (case r of Swrite f t \<Rightarrow> if f = fd then [t] else [] | _ \<Rightarrow> []) @ written_to fd tr"
  "written_to fd (tr @ tr') = written_to fd tr @ written_to fd tr'"
  by (simp_all add: written_to_def)

lemma written_to_writes: "written_to fd (map (Swrite fd) ls) = ls"
  by (induction ls) auto

lemma puts_writes: "puts (ufor ls (\<lambda>line. udo (Swrite fd line))) (map (Swrite fd) ls)"
  by (induction ls) (auto simp: puts_def uret_def uthen_def ubind_def udo_def)

lemma strchr_str_iff: "strchr_str xs c \<longleftrightarrow> c \<in> set xs"
  by (induction xs) auto

section \<open>Loops over answers\<close>

text \<open>A loop body takes an answer whenever it asks for another turn.\<close>

definition asks :: "('v \<Rightarrow> (bool \<times> 'v) up) \<Rightarrow> bool" where
  "asks body \<longleftrightarrow> (\<forall>v s v' s'. body v s = (URet (True, v'), s') \<longrightarrow>
     length (answers s') < length (answers s))"

lemma asksD:
  "asks body \<Longrightarrow> body v s = (URet (True, v'), s') \<Longrightarrow> length (answers s') < length (answers s)"
  by (simp add: asks_def)

lemma uloop_fuel_enough:
  assumes "asks body" and "length (answers s) < n" and "length (answers s) < k"
  shows "uloop_fuel n body v s = uloop_fuel k body v s"
  using assms(2,3)
proof (induction n arbitrary: k v s)
  case (Suc n)
  then obtain k' where k: "k = Suc k'"
    by (cases k) auto
  have "uloop_fuel n body v' s' = uloop_fuel k' body v' s'"
    if "body v s = (URet (True, v'), s')" for v' s'
    by (rule Suc.IH) (use asksD [OF assms(1) that] Suc.prems k in simp_all)
  then show ?case
    by (auto simp: k ubind_def split: prod.splits ures.splits)
qed simp

text \<open>The number of answers is never what stops the loop.\<close>

lemma uloop_unfold:
  assumes "asks body"
  shows "uloop body v s =
    ubind (body v) (\<lambda>(more, v'). if more then uloop body v' else uret v') s"
proof -
  have "uloop_fuel (length (answers s)) body v' s' = uloop body v' s'"
    if "body v s = (URet (True, v'), s')" for v' s'
    unfolding uloop_def
    by (rule uloop_fuel_enough [OF assms]) (use asksD [OF assms that] in simp_all)
  then show ?thesis
    by (auto simp: uloop_def ubind_def split: prod.splits ures.splits)
qed

section \<open>Printing and reading numbers\<close>

definition is_digit :: "char \<Rightarrow> bool" where
  "is_digit c \<longleftrightarrow> of_char (CHR ''0'') \<le> (of_char c :: nat) \<and> (of_char c :: nat) \<le> of_char (CHR ''9'')"

lemma atoi_from_snoc:
  "\<forall>c \<in> set ds. is_digit c \<Longrightarrow> is_digit d \<Longrightarrow>
   atoi_from n (ds @ [d]) = atoi_from n ds * 10 + of_char d - of_char (CHR ''0'')"
  by (induction ds arbitrary: n) (auto simp: is_digit_def)

lemma udigits_nth:
  "i < 10 \<Longrightarrow> (of_char (udigits ! i) :: nat) = 48 + i \<and> (of_char (udigits ! i) :: uint) = 48 + of_nat i"
  by (cases "i = 0 \<or> i = 1 \<or> i = 2 \<or> i = 3 \<or> i = 4 \<or> i = 5 \<or> i = 6 \<or> i = 7 \<or> i = 8 \<or> i = 9")
    (auto simp: udigits_def)

lemma mod10_less: "unat ((x :: uint) mod 10) < 10"
  by (simp add: unat_mod)

lemma is_digit_udigits: "i < 10 \<Longrightarrow> is_digit (udigits ! i)"
  using udigits_nth [of i] by (simp add: is_digit_def)

lemma uprintint_loop_digits: "\<forall>c \<in> set (uprintint_loop k x 10). is_digit c"
  by (induction k arbitrary: x) (auto simp: is_digit_udigits mod10_less)

lemma atoi_uprintint_loop:
  "unat x < 10 ^ k \<Longrightarrow> atoi_from 0 (rev (uprintint_loop k x 10)) = x"
proof (induction k arbitrary: x)
  case (Suc k)
  have d: "of_char (udigits ! unat (x mod 10)) = (48 :: uint) + x mod 10"
    using udigits_nth [OF mod10_less [of x]] by simp
  have "atoi_from 0 (rev (uprintint_loop (Suc k) x 10)) =
    atoi_from 0 (rev (if x div 10 \<noteq> 0 then uprintint_loop k (x div 10) 10 else [])) * 10
      + of_char (udigits ! unat (x mod 10)) - of_char (CHR ''0'')"
    unfolding uprintint_loop.simps rev.simps
    by (rule atoi_from_snoc) (use uprintint_loop_digits in \<open>auto simp: is_digit_udigits mod10_less\<close>)
  also have "atoi_from 0 (rev (if x div 10 \<noteq> 0 then uprintint_loop k (x div 10) 10 else [])) = x div 10"
    using Suc by (simp add: unat_div less_mult_imp_div_less)
  finally show ?case
    by (simp add: d div_mult_mod_eq)
qed (simp add: unat_eq_zero)

text \<open>C39: \<^verbatim>\<open>atoi\<close> reads back the number that \<^verbatim>\<open>printf\<close> writes for \<^verbatim>\<open>%d\<close>. A negative number
  is written with a sign, which \<^verbatim>\<open>atoi\<close> does not know, so it reads zero.
\<close>

theorem printint_atoi:
  "atoi (rev (uprintint_buf n 10 True)) = (if sint n < 0 then 0 else n)"
proof -
  have "unat n < 10 ^ 16"
    using unat_less_2p32 [of n] by simp
  then show ?thesis
    by (simp add: atoi_def uprintint_buf_def atoi_uprintint_loop)
qed

section \<open>What the string routines do on terminated strings\<close>

fun str_at :: "'i::len bytes \<Rightarrow> 'i word \<Rightarrow> uchar list \<Rightarrow> bool" where
  "str_at m a [] = (m a = 0)"
| "str_at m a (c # cs) = (m a = c \<and> c \<noteq> 0 \<and> str_at m (a + 1) cs)"

lemma str_at_nth: "str_at m a cs \<Longrightarrow> i < length cs \<Longrightarrow> m (a + of_nat i) = cs ! i \<and> cs ! i \<noteq> 0"
  by (induction m a cs arbitrary: i rule: str_at.induct)
    (auto simp: nth_Cons ac_simps split: nat.splits)

lemma str_at_end: "str_at m a cs \<Longrightarrow> m (a + of_nat (length cs)) = 0"
  by (induction m a cs rule: str_at.induct) (auto simp: ac_simps)

lemma ustrcmp_str:
  "str_at m p xs \<Longrightarrow> str_at m q ys \<Longrightarrow> \<exists>r. ustrcmp m p q = Some r \<and> (r = 0 \<longleftrightarrow> xs = ys)"
proof (induction xs arbitrary: p q ys)
  case Nil
  then show ?case
    by (subst ustrcmp.simps) (cases ys; auto simp: unsigned_eq_0_iff)
next
  case (Cons x xs)
  show ?case
  proof (cases ys)
    case Nil
    with Cons.prems show ?thesis
      by (subst ustrcmp.simps) (auto simp: unsigned_eq_0_iff)
  next
    case (Cons y ys')
    with Cons.prems Cons.IH [of "p + 1" "q + 1" ys'] show ?thesis
      by (subst ustrcmp.simps) (auto dest: unsigned_word_eqI)
  qed
qed

lemma ustrlen_from_str:
  assumes "str_at m s cs" and "length cs < 2 ^ 31" and "n \<le> length cs"
  shows "ustrlen_from m s (of_nat n) = Some (of_nat (length cs))"
  using assms(3)
proof (induction "length cs - n" arbitrary: n)
  case 0
  then have "n = length cs" by simp
  moreover have "sint (of_nat (length cs) :: cint) = int (length cs)"
    using assms(2) by (simp add: signed_of_nat signed_take_bit_int_eq_self)
  ultimately show ?case
    using str_at_end [OF assms(1)] by (subst ustrlen_from.simps) simp
next
  case (Suc d)
  have "sint (of_nat n :: cint) = int n"
    using assms(2) Suc.prems by (simp add: signed_of_nat signed_take_bit_int_eq_self)
  moreover have "n < length cs" using Suc.hyps(2) by simp
  moreover have "ustrlen_from m s (of_nat (Suc n)) = Some (of_nat (length cs))"
    by (rule Suc.hyps(1)) (use Suc.hyps(2) in simp_all)
  ultimately show ?case
    using str_at_nth [OF assms(1), of n] by (subst ustrlen_from.simps) (simp add: ac_simps)
qed

lemma ustrlen_str:
  "str_at m s cs \<Longrightarrow> length cs < 2 ^ 31 \<Longrightarrow> ustrlen m s = Some (of_nat (length cs))"
  using ustrlen_from_str [of m s cs 0] by (simp add: ustrlen_def)

lemma ustrchr_str:
  "str_at m s cs \<Longrightarrow> c \<notin> set pre \<Longrightarrow> cs = pre @ c # post \<Longrightarrow> ustrchr m s c = Some (s + of_nat (length pre))"
proof (induction pre arbitrary: s cs)
  case Nil
  then show ?case by (subst ustrchr.simps) auto
next
  case (Cons x pre)
  have "ustrchr m (s + 1) c = Some (s + 1 + of_nat (length pre))"
    by (rule Cons.IH [of _ "tl cs"]) (use Cons.prems in auto)
  with Cons.prems show ?case by (subst ustrchr.simps) (auto simp: ac_simps)
qed

lemma ustrchr_none: "str_at m s cs \<Longrightarrow> c \<notin> set cs \<Longrightarrow> ustrchr m s c = Some 0"
  by (induction m s cs rule: str_at.induct) (subst ustrchr.simps; auto)+

lemma str_at_upd:
  "\<forall>j \<le> length xs. s \<noteq> a + of_nat j \<Longrightarrow> str_at (m(s := v)) a xs = str_at m a xs"
proof (induction xs arbitrary: a)
  case (Cons x xs)
  have "s \<noteq> a" using Cons.prems [rule_format, of 0] by simp
  moreover have "s \<noteq> a + 1 + of_nat j" if "j \<le> length xs" for j
    using Cons.prems [rule_format, of "Suc j"] that by (simp add: ac_simps)
  ultimately show ?case using Cons.IH by simp
qed auto

lemma ustrcpy_from_str:
  fixes s :: "'i::len word"
  assumes "str_at m t cs" and "length cs < 2 ^ LENGTH('i)"
    and "\<forall>i \<le> length cs. \<forall>j \<le> length cs. s + of_nat i \<noteq> t + of_nat j"
  shows "ustrcpy_from m s t = Some (write_bytes m s (cs @ [0]))"
  using assms
proof (induction cs arbitrary: m s t)
  case Nil
  then show ?case by (subst ustrcpy_from.simps) (simp add: write_bytes_Cons write_bytes_Nil)
next
  case (Cons c cs)
  have "s \<noteq> t + 1 + of_nat j" if "j \<le> length cs" for j
    using Cons.prems(3) [rule_format, of 0 "Suc j"] that by (simp add: ac_simps)
  then have a: "str_at (m(s := c)) (t + 1) cs"
    using Cons.prems(1) str_at_upd [of cs s "t + 1" m c] by auto
  have b: "s + 1 + of_nat i \<noteq> t + 1 + of_nat j" if "i \<le> length cs" "j \<le> length cs" for i j
    using Cons.prems(3) [rule_format, of "Suc i" "Suc j"] that by (simp add: ac_simps)
  have "ustrcpy_from (m(s := c)) (s + 1) (t + 1) =
      Some (write_bytes (m(s := c)) (s + 1) (cs @ [0]))"
    by (rule Cons.IH [OF a]) (use Cons.prems(2) b in auto)
  then show ?case
    using Cons.prems(1,2) by (subst ustrcpy_from.simps) (simp add: write_bytes_Cons)
qed

section \<open>Every loop asks the kernel in every turn\<close>

text \<open>A program never gives answers back, and one that starts with a question takes one.\<close>

definition takes :: "nat \<Rightarrow> 'a up \<Rightarrow> bool" where
  "takes k m \<longleftrightarrow> (\<forall>s x s'. m s = (URet x, s') \<longrightarrow> length (answers s') + k \<le> length (answers s))"

lemma takes_uret: "takes 0 (uret x)"
  by (auto simp: takes_def uret_def)

lemma takes_udo: "takes 0 (udo r)"
  by (auto simp: takes_def udo_def)

lemma takes_uexit: "takes k uexit"
  by (auto simp: takes_def uexit_def)

lemma takes_wait: "takes k (\<lambda>s. (UWait, s))"
  by (auto simp: takes_def)

lemma takes_bind: "takes k m \<Longrightarrow> (\<And>x. takes 0 (f x)) \<Longrightarrow> takes k (ubind m f)"
  unfolding takes_def by (fastforce simp: ubind_def split: prod.splits ures.splits)

lemma takes_then: "takes k m \<Longrightarrow> takes 0 n \<Longrightarrow> takes k (uthen m n)"
  unfolding uthen_def by (rule takes_bind)

lemma takes_then_late: "takes 0 m \<Longrightarrow> takes k n \<Longrightarrow> takes k (uthen m n)"
  unfolding takes_def uthen_def by (fastforce simp: ubind_def split: prod.splits ures.splits)

lemma takes_uask: "takes 1 (uask r)"
  by (auto simp: takes_def uask_def split: list.splits sysans.splits)

lemma takes_any: "takes k m \<Longrightarrow> takes 0 m"
  by (auto simp: takes_def dest: add_leD1)

lemma takes_ucall: "takes 1 (ucall r)"
  unfolding ucall_def
  by (rule takes_bind [OF takes_uask]) (auto intro: takes_uret takes_wait split: sysans.splits)

lemma takes_uread: "takes 1 (uread fd n)"
  unfolding uread_def
  by (rule takes_bind [OF takes_uask]) (auto intro: takes_uret takes_wait split: sysans.splits)

lemma takes_ufstat: "takes 1 (ufstat fd)"
  unfolding ufstat_def
  by (rule takes_bind [OF takes_uask]) (auto intro: takes_uret takes_wait split: sysans.splits)

lemma takes_ufor: "(\<And>i. takes 0 (b i)) \<Longrightarrow> takes 0 (ufor is b)"
  by (induction "is") (auto intro: takes_uret takes_then)

lemma takes_uprintf: "takes 0 (uprintf fd fmt args)"
proof -
  have "takes 0 (uprintf_loop fd pc fmt args)" for pc
    by (induction fd pc fmt args rule: uprintf_loop.induct)
      (simp_all add: takes_uret takes_then takes_wait takes_ufor takes_udo uputc_def uprintint_def
        split: list.split uarg.split)
  then show ?thesis by (simp add: uprintf_def)
qed

lemma takes_uloop: "(\<And>v. takes 0 (body v)) \<Longrightarrow> takes 0 (uloop body v)"
proof -
  assume b: "\<And>v. takes 0 (body v)"
  have "takes 0 (uloop_fuel n body v)" for n
    by (induction n arbitrary: v) (auto intro!: takes_wait takes_uret takes_bind b split: prod.splits)
  then show ?thesis
    unfolding takes_def uloop_def by blast
qed

lemma takes_ustat_of: "takes 0 (ustat_of n)"
  unfolding ustat_of_def
  by (rule takes_any [OF takes_bind [OF takes_ucall]])
    (auto intro!: takes_uret takes_then takes_udo takes_bind takes_any [OF takes_ufstat])

lemma asks_takes: "(\<And>v. takes 1 (body v)) \<Longrightarrow> asks body"
  unfolding takes_def asks_def by (metis One_nat_def Suc_le_eq add.commute plus_1_eq_Suc)

lemmas takes_intros = takes_uret takes_udo takes_uexit takes_wait takes_then takes_uprintf
  takes_any [OF takes_ucall] takes_any [OF takes_uask] takes_ustat_of takes_uloop

end
