(* ===== verification/Sh.thy ===== *)
theory Sh
  imports Ulib "HOL-Library.Sublist"
begin

text \<open>
  The shell, \<^verbatim>\<open>sh.c\<close>: its commands, the parser that builds them from a line, the pass
  that terminates the strings in the line, and the code that runs them.
\<close>

section \<open>Commands\<close>

text \<open>
  \<^verbatim>\<open>struct cmd\<close> and the structures it stands for. A word of a command is of type \<open>'w\<close>: in a
  parsed command the pair of pointers \<^verbatim>\<open>q\<close> and \<^verbatim>\<open>eq\<close> into the line. \<open>NoCmd\<close> is the null
  pointer. The array \<^verbatim>\<open>argv\<close> is given up to its null pointer.
\<close>

datatype 'w cmd =
    NoCmd
  | EXEC "'w list"
  | REDIR "'w cmd" 'w int int
  | PIPE "'w cmd" "'w cmd"
  | LIST "'w cmd" "'w cmd"
  | BACK "'w cmd"

definition MAXARGS :: nat where
  "MAXARGS = 10"

text \<open>
  A pointer into the line is the rest of the line from there, so that the empty list is the
  end \<^verbatim>\<open>es\<close>, where the terminating zero stands.
\<close>

type_synonym ptr = string
type_synonym tokens = "(ptr \<times> ptr) cmd"

section \<open>Tokens\<close>

definition whitespace :: string where
  "whitespace = [CHR '' '', tab, cr, nl, vt]"

definition symbols :: string where
  "symbols = ''<|>&;()''"

definition skip_white :: "ptr \<Rightarrow> ptr" where
  "skip_white s = dropWhile (strchr_str whitespace) s"

definition in_word :: "char \<Rightarrow> bool" where
  "in_word c \<longleftrightarrow> \<not> strchr_str whitespace c \<and> \<not> strchr_str symbols c"

text \<open>The \<^verbatim>\<open>switch\<close> of \<^verbatim>\<open>gettoken\<close>: the token at \<^verbatim>\<open>q\<close> and the pointer behind it.\<close>

definition scan_token :: "ptr \<Rightarrow> char \<times> ptr" where
  "scan_token q =
     (case q of
        [] \<Rightarrow> (NUL, q)
      | c # s \<Rightarrow>
          if c \<in> set ''|();&<'' then (c, s)
          else if c = CHR ''>'' then
            if s \<noteq> [] \<and> hd s = CHR ''>'' then (CHR ''+'', tl s) else (c, s)
          else (CHR ''a'', dropWhile in_word q))"

definition gettoken :: "ptr \<Rightarrow> char \<times> ptr \<times> ptr \<times> ptr" where
  "gettoken ps =
     (let q = skip_white ps; (ret, s) = scan_token q in (ret, q, s, skip_white s))"

definition peek :: "ptr \<Rightarrow> string \<Rightarrow> bool \<times> ptr" where
  "peek ps toks =
     (let s = skip_white ps in
      ((case s of [] \<Rightarrow> False | c # _ \<Rightarrow> strchr_str toks c), s))"

section \<open>The parser\<close>

text \<open>
  A parse gives a command and the rest of the line, or ends in \<^verbatim>\<open>panic\<close> with a message.
  The four routines that call each other take a bound on the depth of their calls;
  \<open>NoFuel\<close> is the result when the bound is too small.
\<close>

datatype 'a parse = Ok 'a | Syntax string | Leftovers string | NoFuel

fun pbind :: "'a parse \<Rightarrow> ('a \<Rightarrow> 'b parse) \<Rightarrow> 'b parse" where
  "pbind (Ok x) f = f x"
| "pbind (Syntax e) f = Syntax e"
| "pbind (Leftovers e) f = Leftovers e"
| "pbind NoFuel f = NoFuel"

text \<open>
  The constructors allocate the structure and fill it in; they take the memory from
  \<^verbatim>\<open>malloc\<close> without checking that there is any.
\<close>

definition execcmd :: tokens where
  [simp]: "execcmd = EXEC []"

definition pipecmd :: "tokens \<Rightarrow> tokens \<Rightarrow> tokens" where
  [simp]: "pipecmd left right = PIPE left right"

definition listcmd :: "tokens \<Rightarrow> tokens \<Rightarrow> tokens" where
  [simp]: "listcmd left right = LIST left right"

definition backcmd :: "tokens \<Rightarrow> tokens" where
  [simp]: "backcmd subcmd = BACK subcmd"

definition redircmd :: "tokens \<Rightarrow> ptr \<Rightarrow> ptr \<Rightarrow> int \<Rightarrow> int \<Rightarrow> tokens" where
  "redircmd subcmd file efile mode fd = REDIR subcmd (file, efile) mode fd"

text \<open>The \<^verbatim>\<open>switch\<close> of \<^verbatim>\<open>parseredirs\<close>: \<^verbatim>\<open>O_RDONLY\<close> is 0 and \<^verbatim>\<open>O_WRONLY|O_CREATE\<close> is 0x201.\<close>

definition redir_of :: "char \<Rightarrow> tokens \<Rightarrow> ptr \<Rightarrow> ptr \<Rightarrow> tokens" where
  "redir_of tok cmd q eq =
     (if tok = CHR ''<'' then redircmd cmd q eq 0 0
      else if tok = CHR ''>'' then redircmd cmd q eq 0x201 1
      else if tok = CHR ''+'' then redircmd cmd q eq 0x201 1
      else cmd)"

lemma skip_white_le: "length (skip_white s) \<le> length s"
  by (simp add: skip_white_def length_dropWhile_le)

lemma gettoken_eq:
  "gettoken ps = (r, q, eq, rest) \<longleftrightarrow> q = skip_white ps \<and> scan_token q = (r, eq) \<and> rest = skip_white eq"
  by (auto simp: gettoken_def Let_def split: prod.splits)

lemma scan_token_le: "scan_token q = (r, eq) \<Longrightarrow> length eq \<le> length q"
  using length_dropWhile_le [of in_word q]
  by (auto simp: scan_token_def split: list.splits if_splits)

lemma skip_white_Cons: "skip_white ps = c # s \<Longrightarrow> \<not> strchr_str whitespace c"
  unfolding skip_white_def by (auto simp: dropWhile_eq_Cons_conv)

lemma scan_token_less:
  assumes "scan_token (c # s) = (r, eq)" and "\<not> strchr_str whitespace c"
  shows "length eq \<le> length s"
proof -
  have "c \<in> set ''|();&<'' \<or> c = CHR ''>'' \<or> in_word c"
    using assms(2) by (auto simp: in_word_def strchr_str_iff symbols_def)
  then show ?thesis
    using assms(1) length_dropWhile_le [of in_word s]
    by (auto simp: scan_token_def split: if_splits)
qed

lemma gettoken_le: "gettoken ps = (r, q, eq, rest) \<Longrightarrow> length rest \<le> length ps"
  using skip_white_le [of ps] skip_white_le [of eq] scan_token_le [of q r eq]
  by (auto simp: gettoken_eq)

lemma gettoken_less:
  assumes "gettoken ps = (r, q, eq, rest)" and "q \<noteq> []"
  shows "length rest < length ps"
proof -
  obtain c s where q: "q = c # s" using assms(2) by (cases q) auto
  have sk: "skip_white ps = c # s" and sc: "scan_token (c # s) = (r, eq)" and "rest = skip_white eq"
    using assms(1) q by (auto simp: gettoken_eq)
  then show ?thesis
    using scan_token_less [OF sc skip_white_Cons [OF sk]] skip_white_le [of ps] skip_white_le [of eq]
    by simp
qed

lemma gettoken_q: "gettoken ps = (r, q, eq, rest) \<Longrightarrow> q = skip_white ps"
  by (simp add: gettoken_eq)

lemma gettoken_NUL: "gettoken ps = (r, q, eq, rest) \<Longrightarrow> r \<noteq> NUL \<Longrightarrow> q \<noteq> []"
  by (auto simp: gettoken_eq scan_token_def)

lemma skip_white_idem [simp]: "skip_white (skip_white s) = skip_white s"
  by (simp add: skip_white_def)

lemma peek_less:
  assumes "peek ps toks = (True, ps1)" and "gettoken ps1 = (r, q, eq, rest)"
  shows "length rest < length ps"
proof -
  have ps1: "ps1 = skip_white ps" "ps1 \<noteq> []"
    using assms(1) by (auto simp: peek_def Let_def split: list.splits)
  then have "q \<noteq> []"
    using gettoken_q [OF assms(2)] by simp
  then show ?thesis
    using gettoken_less [OF assms(2)] skip_white_le [of ps] ps1 by simp
qed

lemma peek_le: "peek ps toks = (b, ps1) \<Longrightarrow> length ps1 \<le> length ps"
  by (auto simp: peek_def Let_def skip_white_le)

lemma redirs_less:
  assumes "(True, ps1) = peek ps toks" and "(r, q, eq, ps2) = gettoken ps1"
    and "(r', q', eq', ps3) = gettoken ps2"
  shows "length ps3 < length ps"
  using peek_less [OF assms(1) [symmetric] assms(2) [symmetric]] gettoken_le [OF assms(3) [symmetric]]
  by simp

function parseredirs :: "tokens \<Rightarrow> ptr \<Rightarrow> (tokens \<times> ptr) parse" where
  "parseredirs cmd ps =
     (case peek ps ''<>'' of (b, ps1) \<Rightarrow>
        if \<not> b then Ok (cmd, ps1)
        else case gettoken ps1 of (tok, _, _, ps2) \<Rightarrow>
          case gettoken ps2 of (tok2, q, eq, ps3) \<Rightarrow>
            if tok2 \<noteq> CHR ''a'' then Syntax ''missing file for redirection''
            else parseredirs (redir_of tok cmd q eq) ps3)"
  by pat_completeness auto
termination
  by (relation "measure (\<lambda>(cmd, ps). length ps)")
    (auto intro: redirs_less)

declare parseredirs.simps [simp del]

lemma parseredirs_le: "parseredirs cmd ps = Ok (cmd', rest) \<Longrightarrow> length rest \<le> length ps"
proof (induction cmd ps rule: parseredirs.induct)
  case (1 cmd ps)
  obtain b ps1 where p: "peek ps ''<>'' = (b, ps1)" by fastforce
  show ?case
  proof (cases b)
    case False
    with 1(2) p show ?thesis
      by (subst (asm) parseredirs.simps) (auto dest: peek_le)
  next
    case True
    obtain tok q' eq' ps2 where t: "gettoken ps1 = (tok, q', eq', ps2)" by (metis prod_cases4)
    obtain tok2 q eq ps3 where t2: "gettoken ps2 = (tok2, q, eq, ps3)" by (metis prod_cases4)
    have "length rest \<le> length ps3"
      using 1 p t t2 True by (subst (asm) (2) parseredirs.simps) (auto split: if_splits)
    also have "length ps3 \<le> length ps"
      using gettoken_le [OF t2] gettoken_le [OF t] peek_le [OF p] by simp
    finally show ?thesis .
  qed
qed

text \<open>
  The argument loop of \<^verbatim>\<open>parseexec\<close> stores the words into the \<^verbatim>\<open>execcmd\<close> that the
  redirections found on the way have been wrapped around.
\<close>

fun set_argv :: "'w list \<Rightarrow> 'w cmd \<Rightarrow> 'w cmd" where
  "set_argv argv (EXEC _) = EXEC argv"
| "set_argv argv (REDIR cmd file mode fd) = REDIR (set_argv argv cmd) file mode fd"
| "set_argv argv cmd = cmd"

lemma args_less:
  assumes "(b, ps1) = peek ps toks" and "(tok, q, eq, ps2) = gettoken ps1" and "tok \<noteq> NUL"
    and "parseredirs ret ps2 = Ok (ret', ps3)"
  shows "length ps3 < length ps"
  using peek_le [OF assms(1) [symmetric]] gettoken_NUL [OF assms(2) [symmetric] assms(3)]
    gettoken_less [OF assms(2) [symmetric]] parseredirs_le [OF assms(4)] by simp

function parseargs :: "tokens \<Rightarrow> (ptr \<times> ptr) list \<Rightarrow> ptr \<Rightarrow> (tokens \<times> ptr) parse" where
  "parseargs ret argv ps =
     (case peek ps ''|)&;'' of (b, ps1) \<Rightarrow>
        if b then Ok (set_argv argv ret, ps1)
        else case gettoken ps1 of (tok, q, eq, ps2) \<Rightarrow>
          if tok = NUL then Ok (set_argv argv ret, ps2)
          else if tok \<noteq> CHR ''a'' then Syntax ''syntax''
          else if length (argv @ [(q, eq)]) \<ge> MAXARGS then Syntax ''too many args''
          else case parseredirs ret ps2 of
            Ok (ret', ps3) \<Rightarrow> parseargs ret' (argv @ [(q, eq)]) ps3
          | Syntax e \<Rightarrow> Syntax e
          | Leftovers e \<Rightarrow> Leftovers e
          | NoFuel \<Rightarrow> NoFuel)"
  by pat_completeness auto
termination
  by (relation "measure (\<lambda>(ret, argv, ps). length ps)") (auto intro: args_less)

declare parseargs.simps [simp del]

function parsebacks :: "tokens \<Rightarrow> ptr \<Rightarrow> tokens \<times> ptr" where
  "parsebacks cmd ps =
     (case peek ps ''&'' of (b, ps1) \<Rightarrow>
        if b then case gettoken ps1 of (_, _, _, ps2) \<Rightarrow> parsebacks (backcmd cmd) ps2
        else (cmd, ps1))"
  by pat_completeness auto
termination
  by (relation "measure (\<lambda>(cmd, ps). length ps)") (auto intro: peek_less [OF sym sym])

declare parsebacks.simps [simp del]

fun parseline :: "nat \<Rightarrow> ptr \<Rightarrow> (tokens \<times> ptr) parse"
  and parsepipe :: "nat \<Rightarrow> ptr \<Rightarrow> (tokens \<times> ptr) parse"
  and parseexec :: "nat \<Rightarrow> ptr \<Rightarrow> (tokens \<times> ptr) parse"
  and parseblock :: "nat \<Rightarrow> ptr \<Rightarrow> (tokens \<times> ptr) parse" where
  "parseline 0 ps = NoFuel"
| "parseline (Suc n) ps =
     pbind (parsepipe n ps) (\<lambda>(cmd, ps).
     case parsebacks cmd ps of (cmd, ps) \<Rightarrow>
     case peek ps '';'' of (b, ps) \<Rightarrow>
     if b then case gettoken ps of (_, _, _, ps) \<Rightarrow>
       pbind (parseline n ps) (\<lambda>(right, ps). Ok (listcmd cmd right, ps))
     else Ok (cmd, ps))"
| "parsepipe 0 ps = NoFuel"
| "parsepipe (Suc n) ps =
     pbind (parseexec n ps) (\<lambda>(cmd, ps).
     case peek ps ''|'' of (b, ps) \<Rightarrow>
     if b then case gettoken ps of (_, _, _, ps) \<Rightarrow>
       pbind (parsepipe n ps) (\<lambda>(right, ps). Ok (pipecmd cmd right, ps))
     else Ok (cmd, ps))"
| "parseexec 0 ps = NoFuel"
| "parseexec (Suc n) ps =
     (case peek ps ''('' of (b, ps) \<Rightarrow>
      if b then parseblock n ps
      else pbind (parseredirs execcmd ps) (\<lambda>(ret, ps). parseargs ret [] ps))"
| "parseblock 0 ps = NoFuel"
| "parseblock (Suc n) ps =
     (case peek ps ''('' of (b, ps) \<Rightarrow>
      if \<not> b then Syntax ''parseblock''
      else case gettoken ps of (_, _, _, ps) \<Rightarrow>
        pbind (parseline n ps) (\<lambda>(cmd, ps).
        case peek ps '')'' of (b, ps) \<Rightarrow>
        if \<not> b then Syntax ''syntax - missing )''
        else case gettoken ps of (_, _, _, ps) \<Rightarrow> parseredirs cmd ps))"

text \<open>
  \<^verbatim>\<open>nulterminate\<close> on the memory of the line: its \<open>n\<close> characters and the terminating zero. The
  pointer \<open>p\<close> stands at index \<open>n - length p\<close>.
\<close>

fun nulterminate :: "nat \<Rightarrow> tokens \<Rightarrow> string \<Rightarrow> string" where
  "nulterminate n NoCmd lm = lm"
| "nulterminate n (EXEC argv) lm = foldl (\<lambda>lm (q, eq). lm[n - length eq := NUL]) lm argv"
| "nulterminate n (REDIR cmd (file, efile) mode fd) lm =
     (nulterminate n cmd lm)[n - length efile := NUL]"
| "nulterminate n (PIPE left right) lm = nulterminate n right (nulterminate n left lm)"
| "nulterminate n (LIST left right) lm = nulterminate n right (nulterminate n left lm)"
| "nulterminate n (BACK cmd) lm = nulterminate n cmd lm"

definition parse_fuel :: "ptr \<Rightarrow> nat" where
  "parse_fuel s = 4 * length s + 4"

definition parsecmd :: "string \<Rightarrow> (tokens \<times> string) parse" where
  "parsecmd s =
     pbind (parseline (parse_fuel s) s) (\<lambda>(cmd, ps).
       case peek ps [] of (_, ps) \<Rightarrow>
       if ps \<noteq> [] then Leftovers ps
       else Ok (cmd, nulterminate (length s) cmd (s @ [NUL])))"

section \<open>Running commands\<close>

definition cstr_at :: "nat \<Rightarrow> string \<Rightarrow> ptr \<Rightarrow> string" where
  "cstr_at n lm p = takeWhile (\<lambda>c. c \<noteq> NUL) (drop (n - length p) lm)"

definition sh_panic :: "string \<Rightarrow> 'a up" where
  "sh_panic s = uthen (uprintf 2 (''%s'' @ [nl]) [UStr (Some s)]) uexit"

definition fork1 :: "int up" where
  "fork1 = ubind (ucall Sfork) (\<lambda>pid. if pid = -1 then sh_panic ''fork'' else uret pid)"

text \<open>The commands run with the strings that their pointers point to.\<close>

fun runcmd :: "string cmd \<Rightarrow> unit up" where
  "runcmd NoCmd = uexit"
| "runcmd (EXEC argv) =
     (if argv = [] then uexit
      else uthen (uask (Sexec (hd argv) argv))
        (uthen (uprintf 2 (''exec %s failed'' @ [nl]) [UStr (Some (hd argv))]) uexit))"
| "runcmd (REDIR cmd file mode fd) =
     uthen (udo (Sclose fd))
     (ubind (ucall (Sopen file mode)) (\<lambda>r.
        if r < 0 then uthen (uprintf 2 (''open %s failed'' @ [nl]) [UStr (Some file)]) uexit
        else uthen (runcmd cmd) uexit))"
| "runcmd (LIST left right) =
     ubind fork1 (\<lambda>pid.
     uthen (if pid = 0 then runcmd left else uret ())
     (uthen (udo Swait) (uthen (runcmd right) uexit)))"
| "runcmd (PIPE left right) =
     ubind upipe (\<lambda>p. case p of
       None \<Rightarrow> sh_panic ''pipe''
     | Some (p0, p1) \<Rightarrow>
         ubind fork1 (\<lambda>pid.
         uthen (if pid = 0 then
             uthen (udo (Sclose 1)) (uthen (udo (Sdup p1)) (uthen (udo (Sclose p0))
               (uthen (udo (Sclose p1)) (runcmd left))))
           else uret ())
         (ubind fork1 (\<lambda>pid.
          uthen (if pid = 0 then
              uthen (udo (Sclose 0)) (uthen (udo (Sdup p0)) (uthen (udo (Sclose p0))
                (uthen (udo (Sclose p1)) (runcmd right))))
            else uret ())
          (uthen (udo (Sclose p0)) (uthen (udo (Sclose p1)) (uthen (udo Swait) (uthen (udo Swait) uexit))))))))"
| "runcmd (BACK cmd) =
     ubind fork1 (\<lambda>pid. uthen (if pid = 0 then runcmd cmd else uret ()) uexit)"

definition getcmd :: "int \<Rightarrow> string option up" where
  "getcmd nbuf =
     uthen (uprintf 2 ''$ '' [])
     (ubind (gets nbuf) (\<lambda>line.
        let buf = takeWhile (\<lambda>c. c \<noteq> NUL) line in
        uret (if buf = [] then None else Some buf)))"

text \<open>What the child does with a line: the panics of the parser come out here.\<close>

definition runline :: "string \<Rightarrow> unit up" where
  "runline buf = (case parsecmd buf of
      Ok (cmd, lm) \<Rightarrow> runcmd (map_cmd (\<lambda>(q, eq). cstr_at (length buf) lm q) cmd)
    | Syntax e \<Rightarrow> sh_panic e
    | Leftovers s \<Rightarrow> uthen (uprintf 2 (''leftovers: %s'' @ [nl]) [UStr (Some s)]) (sh_panic ''syntax'')
    | NoFuel \<Rightarrow> (\<lambda>s. (UWait, s)))"

definition sh_open :: "unit \<Rightarrow> (bool \<times> unit) up" where
  "sh_open v =
     ubind (ucall (Sopen ''console'' 2)) (\<lambda>fd.
       if fd \<ge> 0 then
         if fd \<ge> 3 then uthen (udo (Sclose fd)) (uret (False, ())) else uret (True, ())
       else uret (False, ()))"

definition sh_turn :: "unit \<Rightarrow> (bool \<times> unit) up" where
  "sh_turn v =
     ubind (getcmd 100) (\<lambda>r. case r of
       None \<Rightarrow> uret (False, ())
     | Some buf \<Rightarrow>
         if take 3 buf = ''cd '' then
           let dir = drop 3 (butlast buf) in
           ubind (ucall (Schdir dir)) (\<lambda>r.
             uthen (if r < 0 then uprintf 2 (''cannot cd %s'' @ [nl]) [UStr (Some dir)] else uret ())
               (uret (True, ())))
         else ubind fork1 (\<lambda>pid.
           uthen (if pid = 0 then runline buf else uret ())
             (uthen (udo Swait) (uret (True, ())))))"

definition sh_main :: "unit up" where
  "sh_main = uthen (uloop sh_open ()) (uthen (uloop sh_turn ()) uexit)"

section \<open>What the parser builds\<close>

text \<open>
  A token: a pointer to a word of the line and one to the character behind it, which is white space,
  a symbol, or the end of the line.
\<close>

definition tok_ok :: "ptr \<Rightarrow> ptr \<times> ptr \<Rightarrow> bool" where
  "tok_ok line = (\<lambda>(q, eq). suffix q line \<and> (\<exists>w. q = w @ eq \<and> w \<noteq> [] \<and> list_all in_word w) \<and>
     (eq = [] \<or> \<not> in_word (hd eq)))"

fun cmd_ok :: "ptr \<Rightarrow> tokens \<Rightarrow> bool" where
  "cmd_ok line NoCmd = False"
| "cmd_ok line (EXEC argv) = (length argv < MAXARGS \<and> list_all (tok_ok line) argv)"
| "cmd_ok line (REDIR cmd file mode fd) =
     (cmd_ok line cmd \<and> tok_ok line file \<and> (mode = 0 \<and> fd = 0 \<or> mode = 0x201 \<and> fd = 1))"
| "cmd_ok line (PIPE left right) = (cmd_ok line left \<and> cmd_ok line right)"
| "cmd_ok line (LIST left right) = (cmd_ok line left \<and> cmd_ok line right)"
| "cmd_ok line (BACK cmd) = cmd_ok line cmd"

lemma tok_ok_suffix: "tok_ok ps t \<Longrightarrow> suffix ps line \<Longrightarrow> tok_ok line t"
  by (auto simp: tok_ok_def intro: suffix_order.trans)

lemma cmd_ok_suffix: "cmd_ok ps c \<Longrightarrow> suffix ps line \<Longrightarrow> cmd_ok line c"
  by (induction c) (auto simp: list_all_iff intro: tok_ok_suffix)

lemma skip_white_suffix: "suffix (skip_white s) s"
  by (simp add: skip_white_def suffix_dropWhile)

lemma peek_eq: "peek ps toks = (b, ps1) \<longleftrightarrow>
    ps1 = skip_white ps \<and> b = (ps1 \<noteq> [] \<and> hd ps1 \<in> set toks)"
  by (auto simp: peek_def Let_def strchr_str_iff split: list.splits)

lemma scan_token_suffix: "scan_token q = (r, eq) \<Longrightarrow> suffix eq q"
  by (auto simp: scan_token_def suffix_dropWhile split: list.splits if_splits
      intro: suffix_ConsI suffix_tl suffix_order.trans)

lemma gettoken_suffix: "gettoken ps = (r, q, eq, rest) \<Longrightarrow> suffix rest ps"
  unfolding gettoken_eq
  using scan_token_suffix skip_white_suffix suffix_order.trans by metis

lemma peek_suffix: "peek ps toks = (b, ps1) \<Longrightarrow> suffix ps1 ps"
  by (simp add: peek_eq skip_white_suffix)

lemma gettoken_word:
  assumes "gettoken ps = (CHR ''a'', q, eq, rest)"
  shows "tok_ok ps (q, eq)"
proof -
  have q: "q = skip_white ps" and sc: "scan_token q = (CHR ''a'', eq)"
    using assms by (auto simp: gettoken_eq)
  have "q \<noteq> []"
    using sc by (auto simp: scan_token_def NUL_def)
  then obtain c s where cs: "q = c # s" by (cases q) auto
  have "c \<notin> set ''|();&<''" "c \<noteq> CHR ''>''" and eq: "eq = dropWhile in_word q"
    using sc by (auto simp: cs scan_token_def split: if_splits)
  then have "in_word c"
    using skip_white_Cons [of ps c s] q cs by (auto simp: in_word_def strchr_str_iff symbols_def)
  then have "takeWhile in_word q \<noteq> []" by (simp add: cs)
  moreover have "eq = [] \<or> \<not> in_word (hd eq)"
    unfolding eq using hd_dropWhile [of in_word q] by auto
  moreover have "q = takeWhile in_word q @ eq"
    by (simp add: eq)
  moreover have "list_all in_word (takeWhile in_word q)"
    by (auto simp: list_all_iff dest: set_takeWhileD)
  moreover have "suffix q ps"
    by (simp add: q skip_white_suffix)
  ultimately show ?thesis
    unfolding tok_ok_def by blast
qed

text \<open>One turn of each loop.\<close>

lemma parseredirs_turn:
  obtains (stop) ps1 where "peek ps ''<>'' = (False, ps1)" "parseredirs cmd ps = Ok (cmd, ps1)"
  | (err) e where "parseredirs cmd ps = Syntax e"
  | (step) tok q eq ps3 where "tok_ok ps (q, eq)" "suffix ps3 ps" "length ps3 < length ps"
      "tok \<in> {CHR ''<'', CHR ''>'', CHR ''+''}"
      "parseredirs cmd ps = parseredirs (redir_of tok cmd q eq) ps3"
proof -
  obtain b ps1 where p: "peek ps ''<>'' = (b, ps1)" by fastforce
  obtain tok q' eq' ps2 where t: "gettoken ps1 = (tok, q', eq', ps2)" by (metis prod_cases4)
  obtain tok2 q eq ps3 where t2: "gettoken ps2 = (tok2, q, eq, ps3)" by (metis prod_cases4)
  consider "\<not> b" | "b" "tok2 \<noteq> CHR ''a''" | "b" "tok2 = CHR ''a''" by blast
  then show thesis
  proof cases
    case 1
    then show ?thesis using p by (intro stop [of ps1]) (simp_all add: parseredirs.simps)
  next
    case 2
    then show ?thesis using p t t2 by (intro err) (simp add: parseredirs.simps [of cmd ps])
  next
    case 3
    have s: "suffix ps2 ps"
      using gettoken_suffix [OF t] peek_suffix [OF p] by (rule suffix_order.trans)
    have "tok \<in> {CHR ''<'', CHR ''>'', CHR ''+''}"
      using p t 3 by (auto simp: peek_eq gettoken_eq scan_token_def split: list.splits if_splits)
    moreover have "tok_ok ps (q, eq)"
      using gettoken_word [of ps2 q eq ps3] t2 3 s tok_ok_suffix by simp
    moreover have "length ps3 < length ps"
      by (rule redirs_less [of ps1 ps "''<>''", OF _ t [symmetric] t2 [symmetric]]) (use p 3 in simp)
    moreover have "parseredirs cmd ps = parseredirs (redir_of tok cmd q eq) ps3"
      using p t t2 3 by (simp add: parseredirs.simps [of cmd ps])
    ultimately show ?thesis
      using suffix_order.trans [OF gettoken_suffix [OF t2] s] by (intro step)
  qed
qed

lemma parseargs_turn:
  obtains (stop) ps1 where "suffix ps1 ps" "parseargs ret argv ps = Ok (set_argv argv ret, ps1)"
  | (err) e where "parseargs ret argv ps = Syntax e"
  | (err2) ps2 where "parseargs ret argv ps = pbind (parseredirs ret ps2) (\<lambda>_. NoFuel)"
      "\<nexists>x. parseredirs ret ps2 = Ok x"
  | (step) q eq ps2 ret' ps3 where "tok_ok ps (q, eq)" "suffix ps2 ps" "length ps3 < length ps"
      "parseredirs ret ps2 = Ok (ret', ps3)" "Suc (length argv) < MAXARGS"
      "parseargs ret argv ps = parseargs ret' (argv @ [(q, eq)]) ps3"
proof -
  obtain b ps1 where p: "peek ps ''|)&;'' = (b, ps1)" by fastforce
  obtain tok q eq ps2 where t: "gettoken ps1 = (tok, q, eq, ps2)" by (metis prod_cases4)
  have s: "suffix ps2 ps"
    using gettoken_suffix [OF t] peek_suffix [OF p] by (rule suffix_order.trans)
  consider "b" | "\<not> b" "tok = NUL" | "\<not> b" "tok \<noteq> NUL" "tok \<noteq> CHR ''a'' \<or> Suc (length argv) \<ge> MAXARGS"
    | "\<not> b" "tok \<noteq> NUL" "tok = CHR ''a''" "Suc (length argv) < MAXARGS" by linarith
  then show thesis
  proof cases
    case 1
    then show ?thesis using p peek_suffix [OF p] by (intro stop [of ps1]) (simp_all add: parseargs.simps)
  next
    case 2
    then show ?thesis using p t s by (intro stop [of ps2]) (simp_all add: parseargs.simps [of ret argv ps])
  next
    case 3
    then show ?thesis
      using p t by (cases "tok = CHR ''a''"; intro err) (simp_all add: parseargs.simps [of ret argv ps])
  next
    case 4
    show ?thesis
    proof (cases "parseredirs ret ps2")
      case (Ok x)
      obtain ret' ps3 where x: "x = (ret', ps3)" by fastforce
      have "length ps3 < length ps"
        by (rule args_less [OF p [symmetric] t [symmetric] 4(2)]) (use Ok x in simp)
      moreover have "tok_ok ps (q, eq)"
        using gettoken_word [of ps1 q eq ps2] t 4 peek_suffix [OF p] tok_ok_suffix by blast
      ultimately show ?thesis
        using step [of q eq ps2 ps3 ret'] Ok x s 4 p t by (simp add: parseargs.simps [of ret argv ps])
    qed (use err2 [of ps2] 4 p t in \<open>simp_all add: parseargs.simps [of ret argv ps]\<close>)
  qed
qed

lemma parsebacks_turn:
  obtains (stop) ps1 where "suffix ps1 ps" "parsebacks cmd ps = (cmd, ps1)"
  | (step) ps2 where "suffix ps2 ps" "length ps2 < length ps" "parsebacks cmd ps = parsebacks (BACK cmd) ps2"
proof -
  obtain b ps1 where p: "peek ps ''&'' = (b, ps1)" by fastforce
  obtain tok q eq ps2 where t: "gettoken ps1 = (tok, q, eq, ps2)" by (metis prod_cases4)
  show thesis
  proof (cases b)
    case True
    with p have "length ps2 < length ps" by (intro peek_less [of ps "''&''" ps1, OF _ t]) simp
    with True show ?thesis
      using step [of ps2] p t suffix_order.trans [OF gettoken_suffix [OF t] peek_suffix [OF p]]
      by (simp add: parsebacks.simps [of cmd ps])
  next
    case False
    then show ?thesis using stop [of ps1] p peek_suffix [OF p] by (simp add: parsebacks.simps)
  qed
qed

lemma parseredirs_ok:
  "parseredirs cmd ps = Ok (cmd', rest) \<Longrightarrow>
    suffix rest ps \<and> (\<forall>line. suffix ps line \<and> cmd_ok line cmd \<longrightarrow> cmd_ok line cmd')"
proof (induction ps arbitrary: cmd rule: measure_induct_rule [of length])
  case (less ps)
  show ?case
  proof (cases rule: parseredirs_turn [of ps cmd])
    case (stop ps1)
    with less.prems show ?thesis by (auto dest: peek_suffix)
  next
    case (err e)
    with less.prems show ?thesis by simp
  next
    case (step tok q eq ps3)
    have ok: "cmd_ok line (redir_of tok cmd q eq)" if "suffix ps line" "cmd_ok line cmd" for line
      using step(4) tok_ok_suffix [OF step(1)] that by (auto simp: redir_of_def redircmd_def)
    have "suffix rest ps3 \<and> (\<forall>line. suffix ps3 line \<and> cmd_ok line (redir_of tok cmd q eq) \<longrightarrow> cmd_ok line cmd')"
      using less.IH [OF step(3)] less.prems step(5) by simp
    with ok step(2) show ?thesis
      by (auto intro: suffix_order.trans)
  qed
qed

lemma parseredirs_NoFuel: "parseredirs cmd ps \<noteq> NoFuel"
proof (induction ps arbitrary: cmd rule: measure_induct_rule [of length])
  case (less ps)
  then show ?case
    by (cases rule: parseredirs_turn [of ps cmd]) auto
qed

lemma parseargs_NoFuel: "parseargs ret argv ps \<noteq> NoFuel"
proof (induction ps arbitrary: ret argv rule: measure_induct_rule [of length])
  case (less ps)
  show ?case
  proof (cases rule: parseargs_turn [of ps ret argv])
    case (err2 ps2)
    then show ?thesis using parseredirs_NoFuel [of ret ps2] by (cases "parseredirs ret ps2") auto
  qed (use less in auto)
qed

lemma set_argv_ok:
  "cmd_ok line ret \<Longrightarrow> length argv < MAXARGS \<Longrightarrow> list_all (tok_ok line) argv \<Longrightarrow> cmd_ok line (set_argv argv ret)"
  by (induction argv ret rule: set_argv.induct) auto

lemma parseargs_ok:
  "parseargs ret argv ps = Ok (cmd, rest) \<Longrightarrow> length argv < MAXARGS \<Longrightarrow>
    suffix rest ps \<and>
    (\<forall>line. suffix ps line \<and> cmd_ok line ret \<and> list_all (tok_ok line) argv \<longrightarrow> cmd_ok line cmd)"
proof (induction ps arbitrary: ret argv rule: measure_induct_rule [of length])
  case (less ps)
  show ?case
  proof (cases rule: parseargs_turn [of ps ret argv])
    case (stop ps1)
    with less.prems show ?thesis by (auto intro: set_argv_ok)
  next
    case (err e)
    with less.prems show ?thesis by simp
  next
    case (err2 ps2)
    with less.prems show ?thesis by (cases "parseredirs ret ps2") auto
  next
    case (step q eq ps2 ret' ps3)
    have s: "suffix ps3 ps"
      using parseredirs_ok [OF step(4)] step(2) by (auto intro: suffix_order.trans)
    have IH: "suffix rest ps3 \<and>
      (\<forall>line. suffix ps3 line \<and> cmd_ok line ret' \<and> list_all (tok_ok line) (argv @ [(q, eq)]) \<longrightarrow> cmd_ok line cmd)"
      using less.IH [OF step(3)] less.prems step(5,6) by simp
    have "cmd_ok line ret'" "tok_ok line (q, eq)" if "suffix ps line" "cmd_ok line ret" for line
      using parseredirs_ok [OF step(4)] step(1,2) that tok_ok_suffix
      by (auto intro: suffix_order.trans)
    with IH s show ?thesis
      by (auto intro: suffix_order.trans)
  qed
qed

lemma parsebacks_ok:
  "parsebacks cmd ps = (cmd', rest) \<Longrightarrow> suffix rest ps \<and> (\<forall>line. cmd_ok line cmd \<longrightarrow> cmd_ok line cmd')"
proof (induction ps arbitrary: cmd rule: measure_induct_rule [of length])
  case (less ps)
  show ?case
  proof (cases rule: parsebacks_turn [of ps cmd])
    case (stop ps1)
    with less.prems show ?thesis by simp
  next
    case (step ps2)
    with less.IH [OF step(2), of "BACK cmd"] less.prems show ?thesis
      by (auto intro: suffix_order.trans)
  qed
qed

lemma pbind_Ok: "pbind m f = Ok y \<longleftrightarrow> (\<exists>x. m = Ok x \<and> f x = Ok y)"
  by (cases m) auto

lemma pbind_NoFuel: "pbind m f = NoFuel \<longleftrightarrow> m = NoFuel \<or> (\<exists>x. m = Ok x \<and> f x = NoFuel)"
  by (cases m) auto

text \<open>The optional right-hand side of a list or a pipe.\<close>

definition parseright ::
  "(ptr \<Rightarrow> (tokens \<times> ptr) parse) \<Rightarrow> string \<Rightarrow> (tokens \<Rightarrow> tokens \<Rightarrow> tokens) \<Rightarrow> tokens \<times> ptr \<Rightarrow> (tokens \<times> ptr) parse" where
  "parseright sub sy C = (\<lambda>(cmd, ps).
     case peek ps sy of (b, ps) \<Rightarrow>
     if b then case gettoken ps of (_, _, _, ps) \<Rightarrow>
       pbind (sub ps) (\<lambda>(right, ps). Ok (C cmd right, ps))
     else Ok (cmd, ps))"

lemma parseline_Suc:
  "parseline (Suc n) ps =
    pbind (parsepipe n ps) (\<lambda>(cmd, ps). parseright (parseline n) '';'' listcmd (parsebacks cmd ps))"
  by (auto simp: parseright_def split: prod.split)

lemma parsepipe_Suc:
  "parsepipe (Suc n) ps = pbind (parseexec n ps) (parseright (parsepipe n) ''|'' pipecmd)"
  by (simp add: parseright_def)

lemma parseright_turn:
  obtains (stop) ps1 where "suffix ps1 ps" "\<And>sub C. parseright sub sy C (cmd, ps) = Ok (cmd, ps1)"
  | (step) ps2 where "suffix ps2 ps" "length ps2 < length ps"
      "\<And>sub C. parseright sub sy C (cmd, ps) = pbind (sub ps2) (\<lambda>(right, ps). Ok (C cmd right, ps))"
proof -
  obtain b ps1 where p: "peek ps sy = (b, ps1)" by fastforce
  obtain tok q eq ps2 where t: "gettoken ps1 = (tok, q, eq, ps2)" by (metis prod_cases4)
  show thesis
  proof (cases b)
    case True
    with p have "length ps2 < length ps" by (intro peek_less [of ps sy ps1, OF _ t]) simp
    with True show ?thesis
      using step [of ps2] p t suffix_order.trans [OF gettoken_suffix [OF t] peek_suffix [OF p]]
      by (simp add: parseright_def)
  next
    case False
    then show ?thesis using stop [of ps1] p peek_suffix [OF p] by (simp add: parseright_def)
  qed
qed

definition parses_ok :: "(ptr \<Rightarrow> (tokens \<times> ptr) parse) \<Rightarrow> bool" where
  "parses_ok f \<longleftrightarrow> (\<forall>ps cmd rest. f ps = Ok (cmd, rest) \<longrightarrow> suffix rest ps \<and> cmd_ok ps cmd)"

lemma parseright_ok:
  assumes "parses_ok sub" and "parseright sub sy C (cmd, ps) = Ok (cmd', rest)"
    and "suffix ps line" and "cmd_ok line cmd"
    and "\<And>l r. cmd_ok line l \<Longrightarrow> cmd_ok line r \<Longrightarrow> cmd_ok line (C l r)"
  shows "suffix rest ps \<and> cmd_ok line cmd'"
proof (cases rule: parseright_turn [of ps sy cmd])
  case (stop ps1)
  with assms show ?thesis by simp
next
  case (step ps2)
  then obtain right where r: "sub ps2 = Ok (right, rest)" "cmd' = C cmd right"
    using assms(2) by (auto simp: pbind_Ok)
  then have "suffix rest ps2" "cmd_ok ps2 right"
    using assms(1) by (auto simp: parses_ok_def)
  moreover have "suffix ps2 line"
    using step(1) assms(3) by (rule suffix_order.trans)
  ultimately show ?thesis
    using assms(4,5) r(2) step(1) cmd_ok_suffix by (blast intro: suffix_order.trans)
qed

lemma parses_okD: "parses_ok f \<Longrightarrow> f ps = Ok (cmd, rest) \<Longrightarrow> suffix rest ps \<and> cmd_ok ps cmd"
  by (simp add: parses_ok_def)

lemma parseline_ok:
  assumes "parses_ok (parsepipe n)" and "parses_ok (parseline n)"
  shows "parses_ok (parseline (Suc n))"
  unfolding parses_ok_def
proof (intro allI impI)
  fix ps cmd rest
  assume "parseline (Suc n) ps = Ok (cmd, rest)"
  then obtain c1 p1 c2 p2 where 1: "parsepipe n ps = Ok (c1, p1)" and 2: "parsebacks c1 p1 = (c2, p2)"
    and 3: "parseright (parseline n) '';'' listcmd (c2, p2) = Ok (cmd, rest)"
    unfolding parseline_Suc by (auto simp: pbind_Ok split: prod.splits) (metis surj_pair)
  have s: "suffix p2 ps" "cmd_ok ps c2"
    using parsebacks_ok [OF 2] assms 1 by (auto simp: parses_ok_def intro: suffix_order.trans)
  with parseright_ok [OF _ 3 s] assms show "suffix rest ps \<and> cmd_ok ps cmd"
    by (auto intro: suffix_order.trans)
qed

lemma parsepipe_ok:
  assumes "parses_ok (parseexec n)" and "parses_ok (parsepipe n)"
  shows "parses_ok (parsepipe (Suc n))"
  unfolding parses_ok_def
proof (intro allI impI)
  fix ps cmd rest
  assume "parsepipe (Suc n) ps = Ok (cmd, rest)"
  then obtain c1 p1 where 1: "parseexec n ps = Ok (c1, p1)"
    and 3: "parseright (parsepipe n) ''|'' pipecmd (c1, p1) = Ok (cmd, rest)"
    unfolding parsepipe_Suc by (auto simp: pbind_Ok)
  have s: "suffix p1 ps" "cmd_ok ps c1"
    using assms 1 by (auto simp: parses_ok_def)
  with parseright_ok [OF _ 3 s] assms show "suffix rest ps \<and> cmd_ok ps cmd"
    by (auto intro: suffix_order.trans)
qed

lemma parseexec_ok:
  assumes "parses_ok (parseblock n)"
  shows "parses_ok (parseexec (Suc n))"
  unfolding parses_ok_def
proof (intro allI impI)
  fix ps cmd rest
  assume a: "parseexec (Suc n) ps = Ok (cmd, rest)"
  obtain b p1 where p: "peek ps ''('' = (b, p1)" by fastforce
  show "suffix rest ps \<and> cmd_ok ps cmd"
  proof (cases b)
    case True
    then show ?thesis
      using a p parses_okD [OF assms, of p1 cmd rest] peek_suffix [OF p] cmd_ok_suffix [of p1 cmd ps]
      by (auto intro: suffix_order.trans)
  next
    case False
    then obtain ret p2 where r: "parseredirs (EXEC []) p1 = Ok (ret, p2)"
      and g: "parseargs ret [] p2 = Ok (cmd, rest)"
      using a p by (auto simp: pbind_Ok)
    have "suffix p2 ps" "cmd_ok ps ret"
      using parseredirs_ok [OF r] peek_suffix [OF p]
      by (auto simp: MAXARGS_def intro: suffix_order.trans)
    then show ?thesis
      using parseargs_ok [OF g] by (auto simp: MAXARGS_def intro: suffix_order.trans)
  qed
qed

lemma parseblock_ok:
  assumes "parses_ok (parseline n)"
  shows "parses_ok (parseblock (Suc n))"
  unfolding parses_ok_def
proof (intro allI impI)
  fix ps cmd rest
  assume a: "parseblock (Suc n) ps = Ok (cmd, rest)"
  obtain b p1 where p: "peek ps ''('' = (b, p1)" by fastforce
  obtain t1 q1 e1 p2 where t: "gettoken p1 = (t1, q1, e1, p2)" by (metis prod_cases4)
  obtain c1 p3 where l: "parseline n p2 = Ok (c1, p3)"
    using a p t by (auto simp: pbind_Ok split: if_splits)
  obtain b4 p4 where p': "peek p3 '')'' = (b4, p4)" by fastforce
  obtain t5 q5 e5 p5 where t': "gettoken p4 = (t5, q5, e5, p5)" by (metis prod_cases4)
  have r: "parseredirs c1 p5 = Ok (cmd, rest)"
    using a p t l p' t' by (auto split: if_splits)
  have 2: "suffix p2 ps"
    using gettoken_suffix [OF t] peek_suffix [OF p] by (rule suffix_order.trans)
  have c: "suffix p3 p2" "cmd_ok p2 c1"
    using assms l by (auto simp: parses_ok_def)
  have "suffix p5 p3"
    using gettoken_suffix [OF t'] peek_suffix [OF p'] by (rule suffix_order.trans)
  then have "suffix p5 ps"
    using c 2 by (blast intro: suffix_order.trans)
  then show "suffix rest ps \<and> cmd_ok ps cmd"
    using parseredirs_ok [OF r] cmd_ok_suffix [OF c(2) 2] by (auto intro: suffix_order.trans)
qed

lemma parse_ok:
  "parses_ok (parseline n) \<and> parses_ok (parsepipe n) \<and> parses_ok (parseexec n) \<and> parses_ok (parseblock n)"
proof (induction n)
  case 0
  show ?case by (simp add: parses_ok_def)
next
  case (Suc n)
  then show ?case by (blast intro: parseline_ok parsepipe_ok parseexec_ok parseblock_ok)
qed

section \<open>The parser ends\<close>

lemma suffix_len: "suffix xs ys \<Longrightarrow> length xs \<le> length ys"
  by (rule suffix_length_le)

lemma parseright_fuel:
  assumes "parseright sub sy C (cmd, ps) = NoFuel"
  obtains ps2 where "length ps2 < length ps" "sub ps2 = NoFuel"
proof (cases rule: parseright_turn [of ps sy cmd])
  case (stop ps1)
  with assms show ?thesis by simp
next
  case (step ps2)
  with assms that show ?thesis by (auto simp: pbind_NoFuel)
qed

lemma parse_len:
  "parseline n ps = Ok (cmd, rest) \<Longrightarrow> length rest \<le> length ps"
  "parsepipe n ps = Ok (cmd, rest) \<Longrightarrow> length rest \<le> length ps"
  "parseexec n ps = Ok (cmd, rest) \<Longrightarrow> length rest \<le> length ps"
  using parse_ok [of n] by (auto simp: parses_ok_def intro!: suffix_len)

text \<open>The bound on the depth that each routine needs for the rest of the line it is given.\<close>

definition enough :: "nat \<Rightarrow> (ptr \<Rightarrow> (tokens \<times> ptr) parse) \<Rightarrow> nat \<Rightarrow> bool" where
  "enough k f n \<longleftrightarrow> (\<forall>ps. 4 * length ps + k \<le> n \<longrightarrow> f ps \<noteq> NoFuel)"

lemma parseline_enough:
  assumes "enough 3 (parsepipe n) n" and "enough 4 (parseline n) n"
  shows "enough 4 (parseline (Suc n)) (Suc n)"
  unfolding enough_def
proof (intro allI impI notI)
  fix ps
  assume n: "4 * length ps + 4 \<le> Suc n" and nf: "parseline (Suc n) ps = NoFuel"
  have "parsepipe n ps \<noteq> NoFuel" using assms(1) n by (simp add: enough_def)
  then obtain c1 p1 where 1: "parsepipe n ps = Ok (c1, p1)"
    and r: "parseright (parseline n) '';'' listcmd (parsebacks c1 p1) = NoFuel"
    using nf unfolding parseline_Suc by (auto simp: pbind_NoFuel)
  obtain c2 p2 where 2: "parsebacks c1 p1 = (c2, p2)" by fastforce
  obtain ps2 where "length ps2 < length p2" "parseline n ps2 = NoFuel"
    using parseright_fuel r 2 by metis
  moreover have "length p2 \<le> length p1" "length p1 \<le> length ps"
    using parsebacks_ok [OF 2] suffix_len parse_len(2) [OF 1] by auto
  ultimately show False
    using assms(2) n by (auto simp: enough_def)
qed

lemma parsepipe_enough:
  assumes "enough 2 (parseexec n) n" and "enough 3 (parsepipe n) n"
  shows "enough 3 (parsepipe (Suc n)) (Suc n)"
  unfolding enough_def
proof (intro allI impI notI)
  fix ps
  assume n: "4 * length ps + 3 \<le> Suc n" and nf: "parsepipe (Suc n) ps = NoFuel"
  have "parseexec n ps \<noteq> NoFuel" using assms(1) n by (simp add: enough_def)
  then obtain c1 p1 where 1: "parseexec n ps = Ok (c1, p1)"
    and r: "parseright (parsepipe n) ''|'' pipecmd (c1, p1) = NoFuel"
    using nf unfolding parsepipe_Suc by (auto simp: pbind_NoFuel)
  obtain ps2 where "length ps2 < length p1" "parsepipe n ps2 = NoFuel"
    using parseright_fuel r by metis
  moreover have "length p1 \<le> length ps"
    by (rule parse_len(3) [OF 1])
  ultimately show False
    using assms(2) n by (auto simp: enough_def)
qed

lemma parseexec_enough:
  assumes "enough 1 (parseblock n) n"
  shows "enough 2 (parseexec (Suc n)) (Suc n)"
  unfolding enough_def
proof (intro allI impI)
  fix ps :: ptr
  assume n: "4 * length ps + 2 \<le> Suc n"
  obtain b p1 where p: "peek ps ''('' = (b, p1)" by fastforce
  show "parseexec (Suc n) ps \<noteq> NoFuel"
    using assms n p suffix_len [OF peek_suffix [OF p]]
    by (auto simp: enough_def pbind_NoFuel parseredirs_NoFuel parseargs_NoFuel)
qed

lemma parseblock_enough:
  assumes "enough 4 (parseline n) n"
  shows "enough 1 (parseblock (Suc n)) (Suc n)"
  unfolding enough_def
proof (intro allI impI)
  fix ps :: ptr
  assume n: "4 * length ps + 1 \<le> Suc n"
  obtain b p1 where p: "peek ps ''('' = (b, p1)" by fastforce
  obtain t1 q1 e1 p2 where t: "gettoken p1 = (t1, q1, e1, p2)" by (metis prod_cases4)
  have "length p2 < length ps" if "b"
    by (rule peek_less [of ps "''(''" p1, OF _ t]) (use p that in simp)
  then have "parseline n p2 \<noteq> NoFuel" if "b"
    using assms n that by (auto simp: enough_def)
  then show "parseblock (Suc n) ps \<noteq> NoFuel"
    using p t by (auto simp: pbind_NoFuel parseredirs_NoFuel split: prod.splits)
qed

lemma parse_enough:
  "enough 4 (parseline n) n \<and> enough 3 (parsepipe n) n \<and> enough 2 (parseexec n) n \<and> enough 1 (parseblock n) n"
proof (induction n)
  case 0
  show ?case by (simp add: enough_def)
next
  case (Suc n)
  then show ?case by (blast intro: parseline_enough parsepipe_enough parseexec_enough parseblock_enough)
qed

text \<open>More depth than needed changes nothing.\<close>

definition extends :: "(ptr \<Rightarrow> (tokens \<times> ptr) parse) \<Rightarrow> (ptr \<Rightarrow> (tokens \<times> ptr) parse) \<Rightarrow> bool" where
  "extends f g \<longleftrightarrow> (\<forall>ps. f ps \<noteq> NoFuel \<longrightarrow> g ps = f ps)"

lemma pbind_extends:
  "(m \<noteq> NoFuel \<Longrightarrow> m' = m) \<Longrightarrow> (\<And>x. f x \<noteq> NoFuel \<Longrightarrow> f' x = f x) \<Longrightarrow>
   pbind m f \<noteq> NoFuel \<Longrightarrow> pbind m' f' = pbind m f"
  by (cases m) auto

lemma parseright_extends:
  "extends f g \<Longrightarrow> parseright f sy C x \<noteq> NoFuel \<Longrightarrow> parseright g sy C x = parseright f sy C x"
  by (cases x) (auto simp: parseright_def extends_def pbind_NoFuel split: prod.splits
      intro!: pbind_extends)

lemma parseline_extends:
  assumes "extends (parsepipe n) (parsepipe m)" and "extends (parseline n) (parseline m)"
  shows "extends (parseline (Suc n)) (parseline (Suc m))"
  unfolding extends_def parseline_Suc
  using assms(1)
  by (intro allI impI pbind_extends) (auto simp: extends_def intro: parseright_extends [OF assms(2)])

lemma parsepipe_extends:
  assumes "extends (parseexec n) (parseexec m)" and "extends (parsepipe n) (parsepipe m)"
  shows "extends (parsepipe (Suc n)) (parsepipe (Suc m))"
  unfolding extends_def parsepipe_Suc
  using assms(1) parseright_extends [OF assms(2)]
  by (intro allI impI pbind_extends) (auto simp: extends_def)

lemma parseexec_extends:
  "extends (parseblock n) (parseblock m) \<Longrightarrow> extends (parseexec (Suc n)) (parseexec (Suc m))"
  by (auto simp: extends_def split: prod.splits)

lemma parseblock_extends:
  assumes "extends (parseline n) (parseline m)"
  shows "extends (parseblock (Suc n)) (parseblock (Suc m))"
  unfolding extends_def parseblock.simps
  using assms by (auto simp: extends_def split: prod.splits intro!: pbind_extends)

lemma parse_extends:
  "extends (parseline n) (parseline (Suc n)) \<and> extends (parsepipe n) (parsepipe (Suc n)) \<and>
   extends (parseexec n) (parseexec (Suc n)) \<and> extends (parseblock n) (parseblock (Suc n))"
proof (induction n)
  case 0
  show ?case by (simp add: extends_def)
next
  case (Suc n)
  then show ?case
    by (blast intro: parseline_extends parsepipe_extends parseexec_extends parseblock_extends)
qed

lemma parseline_more:
  assumes "parseline n ps \<noteq> NoFuel" and "n \<le> k"
  shows "parseline k ps = parseline n ps"
  using assms(2,1)
proof (induction k rule: dec_induct)
  case (step k)
  then show ?case using parse_extends [of k] by (simp add: extends_def)
qed simp

text \<open>C33: the shell's parser returns for every line: the depth that \<open>parsecmd\<close> allows for the
  calls is enough, and any larger depth gives the same result.
\<close>

theorem parsecmd_terminates:
  "parsecmd s \<noteq> NoFuel \<and> parseline (parse_fuel s + k) s = parseline (parse_fuel s) s"
proof -
  have "parseline (parse_fuel s) s \<noteq> NoFuel"
    using parse_enough [of "parse_fuel s"] by (simp add: enough_def parse_fuel_def)
  then show ?thesis
    using parseline_more [of "parse_fuel s" s "parse_fuel s + k"]
    by (auto simp: parsecmd_def pbind_NoFuel split: prod.splits)
qed

section \<open>The strings of a command\<close>

definition ends :: "nat \<Rightarrow> tokens \<Rightarrow> nat set" where
  "ends n cmd = (\<lambda>(q, eq). n - length eq) ` set_cmd cmd"

lemma nth_upd: "xs[j := v] ! i = (if i = j \<and> i < length xs then v else xs ! i)"
  by (cases "j < length xs") (auto simp: nth_list_update list_update_beyond)

lemma nulterminate_argv:
  "foldl (\<lambda>lm (q, eq). lm[n - length eq := NUL]) lm argv ! i =
    (if i < length lm \<and> i \<in> (\<lambda>(q, eq). n - length eq) ` set argv then NUL else lm ! i)"
  by (induction argv arbitrary: lm) (auto simp: nth_upd)

lemma nulterminate_argv_length:
  "length (foldl (\<lambda>lm (q, eq). lm[n - length eq := NUL]) lm argv) = length lm"
  by (induction argv arbitrary: lm) auto

lemma nulterminate_length [simp]: "length (nulterminate n cmd lm) = length lm"
  by (induction n cmd lm rule: nulterminate.induct) (auto simp: nulterminate_argv_length)

lemma nulterminate_nth:
  "nulterminate n cmd lm ! i = (if i < length lm \<and> i \<in> ends n cmd then NUL else lm ! i)"
  by (induction n cmd lm rule: nulterminate.induct)
    (auto simp: ends_def nulterminate_argv nth_upd)

lemma cmd_ok_tokens: "cmd_ok line cmd \<Longrightarrow> t \<in> set_cmd cmd \<Longrightarrow> tok_ok line t"
  by (induction cmd) (auto simp: list_all_iff)

lemma suffix_drop_eq: "suffix p s \<Longrightarrow> p = drop (length s - length p) s"
  by (auto simp: suffix_def)

lemma end_not_in_word:
  assumes "cmd_ok s cmd" and "j \<in> ends (length s) cmd" and "j < length s"
  shows "\<not> in_word (s ! j)"
proof -
  obtain q eq where t: "(q, eq) \<in> set_cmd cmd" and j: "j = length s - length eq"
    using assms(2) by (auto simp: ends_def)
  have ok: "tok_ok s (q, eq)"
    using cmd_ok_tokens [OF assms(1) t] .
  then have "suffix eq s"
    by (auto simp: tok_ok_def suffix_def)
  then have "eq = drop j s"
    using suffix_drop_eq j by blast
  then show ?thesis
    using ok assms(3) by (auto simp: tok_ok_def hd_drop_conv_nth)
qed

lemma word_reads_back:
  assumes "cmd_ok s cmd" and "NUL \<notin> set s" and "(q, eq) \<in> set_cmd cmd"
  shows "cstr_at (length s) (nulterminate (length s) cmd (s @ [NUL])) q = take (length q - length eq) q"
proof -
  let ?lm = "nulterminate (length s) cmd (s @ [NUL])"
  obtain p w where s: "s = p @ w @ eq" and q: "q = w @ eq" and w: "list_all in_word w"
    using cmd_ok_tokens [OF assms(1,3)] by (auto simp: tok_ok_def suffix_def)
  have "takeWhile (\<lambda>c. c \<noteq> NUL) (drop (length p) ?lm) = take (length w) (drop (length p) ?lm)"
  proof (rule takeWhile_eq_take_P_nth)
    fix i
    assume i: "i < length w"
    then have c: "s ! (length p + i) = w ! i" by (simp add: s nth_append)
    then have "length p + i \<notin> ends (length s) cmd"
      using end_not_in_word [OF assms(1), of "length p + i"] i w by (auto simp: s list_all_length)
    moreover have "w ! i \<noteq> NUL"
      using assms(2) nth_mem [OF i] by (auto simp: s)
    ultimately show "drop (length p) ?lm ! i \<noteq> NUL"
      using i c by (simp add: nulterminate_nth nth_append s)
  next
    have "length p + length w \<in> ends (length s) cmd"
      using assms(3) by (force simp: ends_def s)
    then show "\<not> drop (length p) ?lm ! length w \<noteq> NUL"
      by (simp add: nulterminate_nth s)
  qed
  also have "\<dots> = w"
  proof (rule nth_equalityI)
    fix i
    assume "i < length (take (length w) (drop (length p) ?lm))"
    then have i: "i < length w" by simp
    then have "length p + i \<notin> ends (length s) cmd"
      using end_not_in_word [OF assms(1), of "length p + i"] w by (auto simp: s nth_append list_all_length)
    then show "take (length w) (drop (length p) ?lm) ! i = w ! i"
      using i by (simp add: nulterminate_nth nth_append s)
  qed (simp add: s)
  finally show ?thesis
    by (simp add: cstr_at_def q s)
qed

lemma parsecmd_ok:
  assumes "parsecmd s = Ok (cmd, lm)"
  shows "cmd_ok s cmd \<and> lm = nulterminate (length s) cmd (s @ [NUL])"
proof -
  obtain rest where "parseline (parse_fuel s) s = Ok (cmd, rest)"
    and "lm = nulterminate (length s) cmd (s @ [NUL])"
    using assms by (auto simp: parsecmd_def pbind_Ok split_beta split: if_splits)
  then show ?thesis
    using parse_ok [of "parse_fuel s"] by (auto simp: parses_ok_def)
qed

text \<open>C34: a parsed command is well formed. It has at most nine arguments, redirects descriptor 0
  for reading or 1 for writing, and each of its words, as the terminated string that \<^verbatim>\<open>exec\<close>
  or \<^verbatim>\<open>open\<close> gets, is the word of the line, non-empty and free of white space and symbols.
\<close>

theorem parsed_cmd_ok:
  assumes "parsecmd s = Ok (cmd, lm)" and "NUL \<notin> set s"
  shows "cmd_ok s cmd \<and>
    (\<forall>(q, eq) \<in> set_cmd cmd. \<exists>w. cstr_at (length s) lm q = w \<and> q = w @ eq \<and> w \<noteq> [] \<and> list_all in_word w)"
proof -
  have ok: "cmd_ok s cmd" and lm: "lm = nulterminate (length s) cmd (s @ [NUL])"
    using parsecmd_ok [OF assms(1)] by simp_all
  have "\<exists>w. cstr_at (length s) lm q = w \<and> q = w @ eq \<and> w \<noteq> [] \<and> list_all in_word w"
    if t: "(q, eq) \<in> set_cmd cmd" for q eq
    using word_reads_back [OF ok assms(2) t] cmd_ok_tokens [OF ok t] by (auto simp: tok_ok_def lm)
  with ok show ?thesis by auto
qed

theorem parsed_cmd_ok_witness:
  "\<exists>cmd lm. parsecmd ''cat <in | wc &'' = Ok (cmd, lm) \<and> cmd_ok ''cat <in | wc &'' cmd \<and>
    map_cmd (\<lambda>(q, eq). cstr_at 14 lm q) cmd = BACK (PIPE (REDIR (EXEC [''cat'']) ''in'' 0 0) (EXEC [''wc'']))"
proof -
  have p: "parsecmd ''cat <in | wc &'' =
      Ok (BACK (PIPE (REDIR (EXEC [(''cat <in | wc &'', '' <in | wc &'')]) (''in | wc &'', '' | wc &'') 0 0)
            (EXEC [(''wc &'', '' &'')])),
          ''cat'' @ [NUL] @ ''<in'' @ [NUL] @ ''| wc'' @ [NUL] @ ''&'' @ [NUL])"
    by code_simp
  have "NUL \<notin> set ''cat <in | wc &''" by (simp add: NUL_def)
  from parsed_cmd_ok [OF p this] show ?thesis
    by (simp only: p) (simp add: cstr_at_def NUL_def)
qed

section \<open>Printing and parsing commands\<close>

text \<open>
  A command over strings and a line that stands for it: every part of a pipe, a list or a
  background command is put in parentheses unless it is a simple command with redirections.
\<close>

fun flat :: "'w cmd \<Rightarrow> bool" where
  "flat (EXEC argv) = True"
| "flat (REDIR cmd file mode fd) = True"
| "flat cmd = False"

definition group :: "bool \<Rightarrow> string \<Rightarrow> string" where
  "group b t = (if b then t else ''('' @ t @ '')'')"

definition words_text :: "string list \<Rightarrow> string" where
  "words_text ws = concat (map (\<lambda>w. w @ '' '') ws)"

definition redir_text :: "string \<Rightarrow> int \<Rightarrow> string" where
  "redir_text file fd = (if fd = 0 then ''<'' else ''>'') @ file @ '' ''"

fun show_cmd :: "string cmd \<Rightarrow> string" where
  "show_cmd NoCmd = []"
| "show_cmd (EXEC argv) = words_text argv"
| "show_cmd (REDIR cmd file mode fd) = group (flat cmd) (show_cmd cmd) @ redir_text file fd"
| "show_cmd (PIPE left right) = group (flat left) (show_cmd left) @ ''|'' @ group (flat right) (show_cmd right)"
| "show_cmd (LIST left right) = group (flat left) (show_cmd left) @ '';'' @ group (flat right) (show_cmd right)"
| "show_cmd (BACK cmd) = group (flat cmd) (show_cmd cmd) @ ''&''"

definition plain :: "string \<Rightarrow> bool" where
  "plain w \<longleftrightarrow> w \<noteq> [] \<and> list_all in_word w \<and> NUL \<notin> set w"

fun runnable :: "string cmd \<Rightarrow> bool" where
  "runnable NoCmd = False"
| "runnable (EXEC argv) = (length argv < MAXARGS \<and> list_all plain argv)"
| "runnable (REDIR cmd file mode fd) =
     (runnable cmd \<and> plain file \<and> (mode = 0 \<and> fd = 0 \<or> mode = 0x201 \<and> fd = 1))"
| "runnable (PIPE left right) = (runnable left \<and> runnable right)"
| "runnable (LIST left right) = (runnable left \<and> runnable right)"
| "runnable (BACK cmd) = runnable cmd"

text \<open>The command over strings that a parsed command stands for.\<close>

definition tok_word :: "ptr \<times> ptr \<Rightarrow> string" where
  "tok_word = (\<lambda>(q, eq). take (length q - length eq) q)"

definition tok_words :: "tokens \<Rightarrow> string cmd" where
  "tok_words = map_cmd tok_word"

lemma tok_words_simps [simp]:
  "tok_words NoCmd = NoCmd"
  "tok_words (EXEC argv) = EXEC (map tok_word argv)"
  "tok_words (REDIR c t mode fd) = REDIR (tok_words c) (tok_word t) mode fd"
  "tok_words (PIPE l r) = PIPE (tok_words l) (tok_words r)"
  "tok_words (LIST l r) = LIST (tok_words l) (tok_words r)"
  "tok_words (BACK c) = BACK (tok_words c)"
  by (simp_all add: tok_words_def)

lemma tok_words_set_argv: "tok_words (set_argv argv c) = set_argv (map tok_word argv) (tok_words c)"
  by (induction argv c rule: set_argv.induct) auto

text \<open>A redirected command: its core and the redirections around it.\<close>

type_synonym redir = "string \<times> int \<times> int"

fun core :: "string cmd \<Rightarrow> string cmd" where
  "core (REDIR cmd file mode fd) = core cmd"
| "core cmd = cmd"

fun redirs :: "string cmd \<Rightarrow> redir list" where
  "redirs (REDIR cmd file mode fd) = redirs cmd @ [(file, mode, fd)]"
| "redirs cmd = []"

definition wrap :: "redir list \<Rightarrow> string cmd \<Rightarrow> string cmd" where
  "wrap rs c = foldl (\<lambda>c (file, mode, fd). REDIR c file mode fd) c rs"

definition redirs_text :: "redir list \<Rightarrow> string" where
  "redirs_text rs = concat (map (\<lambda>(file, mode, fd). redir_text file fd) rs)"

definition redirs_ok :: "redir list \<Rightarrow> bool" where
  "redirs_ok = list_all (\<lambda>(file, mode, fd). plain file \<and> (mode = 0 \<and> fd = 0 \<or> mode = 0x201 \<and> fd = 1))"

lemma wrap_core: "wrap (redirs c) (core c) = c"
  by (induction c rule: core.induct) (auto simp: wrap_def)

lemma set_argv_wrap: "set_argv argv (wrap rs c) = wrap rs (set_argv argv c)"
  by (induction rs arbitrary: c) (auto simp: wrap_def)

lemma show_core:
  "group (flat c) (show_cmd c) = group (flat (core c)) (show_cmd (core c)) @ redirs_text (redirs c)"
  by (induction c rule: core.induct) (auto simp: redirs_text_def group_def)

lemma runnable_core: "runnable c \<Longrightarrow> runnable (core c) \<and> redirs_ok (redirs c)"
  by (induction c rule: core.induct) (auto simp: redirs_ok_def)

lemma core_not_redir: "core c \<noteq> REDIR b file mode fd"
  by (induction c rule: core.induct) auto

lemma size_core: "size (core c) \<le> size c"
  by (induction c rule: core.induct) auto

subsection \<open>Tokens of printed text\<close>

definition nonwhite :: "ptr \<Rightarrow> bool" where
  "nonwhite t \<longleftrightarrow> t = [] \<or> \<not> strchr_str whitespace (hd t)"

definition stops :: "ptr \<Rightarrow> bool" where
  "stops t \<longleftrightarrow> t = [] \<or> hd t \<in> set ''|)&;''"

lemma skip_nonwhite: "nonwhite t \<Longrightarrow> skip_white t = t"
  by (cases t) (auto simp: skip_white_def nonwhite_def)

lemma skip_space: "nonwhite t \<Longrightarrow> skip_white (CHR '' '' # t) = t"
  using skip_nonwhite [of t] by (simp add: skip_white_def whitespace_def)

lemma sym_nonwhite: "c \<in> set symbols \<Longrightarrow> nonwhite (c # t)"
  by (auto simp: nonwhite_def symbols_def whitespace_def tab_def cr_def nl_def vt_def)

lemma stops_nonwhite: "stops t \<Longrightarrow> nonwhite t"
  using sym_nonwhite [of "hd t" "tl t"] by (cases t) (auto simp: stops_def symbols_def nonwhite_def)

lemma plain_nonwhite: "plain w \<Longrightarrow> nonwhite (w @ t) \<and> w @ t \<noteq> [] \<and> hd (w @ t) \<notin> set symbols"
  by (cases w) (auto simp: plain_def nonwhite_def in_word_def strchr_str_iff)

lemma peek_nonwhite: "nonwhite t \<Longrightarrow> peek t toks = (t \<noteq> [] \<and> hd t \<in> set toks, t)"
  by (simp add: peek_eq skip_nonwhite)

lemma gettoken_plain:
  assumes "plain w" and "nonwhite t"
  shows "gettoken (w @ '' '' @ t) = (CHR ''a'', w @ '' '' @ t, '' '' @ t, t)"
proof -
  obtain c s where w: "w = c # s" and c: "in_word c" and s: "list_all in_word s"
    using assms(1) by (cases w) (auto simp: plain_def)
  have "c \<notin> set ''|();&<''" "c \<noteq> CHR ''>''"
    using c by (auto simp: in_word_def strchr_str_iff symbols_def)
  moreover have "dropWhile in_word (s @ '' '' @ t) = '' '' @ t"
    using s by (simp add: dropWhile_append1 list_all_iff in_word_def whitespace_def)
  ultimately have "scan_token (w @ '' '' @ t) = (CHR ''a'', '' '' @ t)"
    using c by (simp add: scan_token_def w)
  then show ?thesis
    using plain_nonwhite [OF assms(1), of "'' '' @ t"] skip_space [OF assms(2)]
    by (simp add: gettoken_eq skip_nonwhite)
qed

lemma tok_word_plain: "tok_word (w @ t, t) = w"
  by (simp add: tok_word_def)

lemma gettoken_symbol:
  assumes "c \<in> set ''|();&<''"
  shows "gettoken (c # t) = (c, c # t, t, skip_white t)"
proof -
  have "nonwhite (c # t)"
    using assms by (intro sym_nonwhite) (auto simp: symbols_def)
  then show ?thesis
    using assms by (simp add: gettoken_eq skip_nonwhite scan_token_def)
qed

lemma gettoken_gt:
  assumes "plain w"
  shows "gettoken (CHR ''>'' # w @ t) = (CHR ''>'', CHR ''>'' # w @ t, w @ t, w @ t)"
proof -
  have n: "nonwhite (CHR ''>'' # w @ t)" by (intro sym_nonwhite) (simp add: symbols_def)
  have "nonwhite (w @ t)" "w @ t \<noteq> []" "hd (w @ t) \<noteq> CHR ''>''"
    using plain_nonwhite [OF assms, of t] by (auto simp: symbols_def)
  then show ?thesis
    using n by (simp add: gettoken_eq skip_nonwhite scan_token_def)
qed

subsection \<open>Parsing printed redirections and arguments\<close>

lemma redirs_text_nonwhite:
  assumes "nonwhite t"
  shows "nonwhite (redirs_text rs @ t)"
proof (cases rs)
  case (Cons r rs')
  then show ?thesis
    by (cases r) (auto simp: redirs_text_def redir_text_def nonwhite_def whitespace_def tab_def cr_def nl_def vt_def)
qed (use assms in \<open>simp add: redirs_text_def\<close>)

lemma parseredirs_none:
  "nonwhite t \<Longrightarrow> t = [] \<or> hd t \<notin> set ''<>'' \<Longrightarrow> parseredirs c t = Ok (c, t)"
  by (subst parseredirs.simps) (auto simp: peek_nonwhite)

lemma parseredirs_one:
  assumes "plain file" and "mode = 0 \<and> fd = 0 \<or> mode = 0x201 \<and> fd = 1" and "nonwhite t"
  shows "parseredirs c (redir_text file fd @ t) = parseredirs (REDIR c (file @ '' '' @ t, '' '' @ t) mode fd) t"
proof -
  have f: "skip_white (file @ '' '' @ t) = file @ '' '' @ t"
    using plain_nonwhite [OF assms(1)] by (simp add: skip_nonwhite)
  let ?c = "if fd = 0 then CHR ''<'' else CHR ''>''"
  have 1: "redir_text file fd @ t = ?c # file @ '' '' @ t"
    by (simp add: redir_text_def)
  have "peek (?c # file @ '' '' @ t) ''<>'' = (True, ?c # file @ '' '' @ t)"
    using sym_nonwhite [of ?c] by (subst peek_nonwhite) (auto simp: symbols_def)
  moreover have "\<exists>q eq. gettoken (?c # file @ '' '' @ t) = (?c, q, eq, file @ '' '' @ t)"
    using gettoken_symbol [of "CHR ''<''" "file @ '' '' @ t"] gettoken_gt [OF assms(1), of "'' '' @ t"] f
    by (cases "fd = 0") auto
  ultimately show ?thesis
    unfolding 1 using gettoken_plain [OF assms(1,3)] assms(2)
    by (subst parseredirs.simps) (auto simp: redir_of_def redircmd_def)
qed

lemma parseredirs_text:
  assumes "redirs_ok rs" and "nonwhite t" and "t = [] \<or> hd t \<notin> set ''<>''"
  shows "\<exists>c'. parseredirs c (redirs_text rs @ t) = Ok (c', t) \<and> tok_words c' = wrap rs (tok_words c)"
  using assms(1)
proof (induction rs arbitrary: c)
  case Nil
  then show ?case
    using parseredirs_none [OF assms(2,3)] by (simp add: redirs_text_def wrap_def)
next
  case (Cons r rs)
  obtain "file" mode fd where r: "r = (file, mode, fd)" by (cases r)
  let ?t = "redirs_text rs @ t"
  let ?c = "REDIR c (file @ '' '' @ ?t, '' '' @ ?t) mode fd"
  have ok: "plain file" "mode = 0 \<and> fd = 0 \<or> mode = 0x201 \<and> fd = 1" "redirs_ok rs"
    using Cons.prems by (auto simp: r redirs_ok_def)
  have "parseredirs c (redirs_text (r # rs) @ t) = parseredirs ?c ?t"
    using parseredirs_one [OF ok(1,2) redirs_text_nonwhite [OF assms(2)], of c rs]
    by (simp add: redirs_text_def r)
  moreover have "tok_words ?c = REDIR (tok_words c) file mode fd"
    using tok_word_plain [of "file" "'' '' @ ?t"] by simp
  ultimately show ?case
    using Cons.IH [OF ok(3), of ?c] by (simp add: wrap_def r)
qed

lemma parseargs_stop: "stops t \<Longrightarrow> parseargs ret argv t = Ok (set_argv argv ret, t)"
  using stops_nonwhite [of t]
  by (subst parseargs.simps)
    (auto simp: peek_nonwhite stops_def gettoken_def scan_token_def skip_white_def)

lemma stops_not_redir: "stops t \<Longrightarrow> t = [] \<or> hd t \<notin> set ''<>''"
  by (auto simp: stops_def)

lemma parseargs_word:
  assumes "plain w" and "nonwhite t" and "Suc (length argv) < MAXARGS" and "parseredirs ret t = Ok (ret', t')"
  shows "parseargs ret argv (w @ '' '' @ t) = parseargs ret' (argv @ [(w @ '' '' @ t, '' '' @ t)]) t'"
proof -
  have "peek (w @ '' '' @ t) ''|)&;'' = (False, w @ '' '' @ t)"
    using plain_nonwhite [OF assms(1), of "'' '' @ t"] by (auto simp: peek_nonwhite symbols_def)
  then show ?thesis
    using gettoken_plain [OF assms(1,2)] assms(3,4)
    by (subst parseargs.simps) (simp add: NUL_def)
qed

lemma words_text_Cons: "words_text (w # ws) = w @ '' '' @ words_text ws"
  by (simp add: words_text_def)

lemma words_nonwhite:
  "list_all plain ws \<Longrightarrow> ws \<noteq> [] \<Longrightarrow>
   nonwhite (words_text ws @ t) \<and> words_text ws @ t \<noteq> [] \<and> hd (words_text ws @ t) \<notin> set symbols"
  using plain_nonwhite by (cases ws) (auto simp: words_text_Cons)

lemma parseargs_text:
  assumes "redirs_ok rs" and "stops t"
  shows "list_all plain ws \<Longrightarrow> ws \<noteq> [] \<Longrightarrow> length argv + length ws < MAXARGS \<Longrightarrow>
    \<exists>c'. parseargs ret argv (words_text ws @ redirs_text rs @ t) = Ok (c', t) \<and>
      tok_words c' = wrap rs (set_argv (map tok_word argv @ ws) (tok_words ret))"
proof (induction ws arbitrary: argv)
  case (Cons w ws)
  let ?t = "words_text ws @ redirs_text rs @ t"
  let ?tok = "(w @ '' '' @ ?t, '' '' @ ?t)"
  have w: "plain w" "list_all plain ws" "Suc (length argv) < MAXARGS"
    using Cons.prems by auto
  have tok: "tok_word ?tok = w"
    using tok_word_plain [of w "'' '' @ ?t"] by simp
  have rt: "nonwhite (redirs_text rs @ t)"
    by (rule redirs_text_nonwhite [OF stops_nonwhite [OF assms(2)]])
  show ?case
  proof (cases "ws = []")
    case True
    obtain ret' where r: "parseredirs ret (redirs_text rs @ t) = Ok (ret', t)"
      "tok_words ret' = wrap rs (tok_words ret)"
      using parseredirs_text [OF assms(1) stops_nonwhite [OF assms(2)] stops_not_redir [OF assms(2)]] by blast
    have "parseargs ret argv (words_text (w # ws) @ redirs_text rs @ t) =
        Ok (set_argv (argv @ [?tok]) ret', t)"
      using parseargs_word [OF w(1) rt w(3) r(1)] parseargs_stop [OF assms(2)] True
      by (simp add: words_text_def)
    then show ?thesis
      using r(2) tok True by (simp add: tok_words_set_argv set_argv_wrap)
  next
    case False
    have n: "nonwhite ?t" "?t \<noteq> []" "hd ?t \<notin> set symbols"
      using words_nonwhite [OF w(2) False] by blast+
    have "parseredirs ret ?t = Ok (ret, ?t)"
      by (rule parseredirs_none [OF n(1)]) (use n in \<open>auto simp: symbols_def\<close>)
    from parseargs_word [OF w(1) n(1) w(3) this]
    have "parseargs ret argv (words_text (w # ws) @ redirs_text rs @ t) = parseargs ret (argv @ [?tok]) ?t"
      by (simp add: words_text_Cons)
    then show ?thesis
      using Cons.IH [OF w(2) False, of "argv @ [?tok]"] Cons.prems(3) tok by simp
  qed
qed simp

subsection \<open>Parsing printed commands\<close>

definition closes :: "ptr \<Rightarrow> bool" where
  "closes t \<longleftrightarrow> t = [] \<or> hd t = CHR '')''"

lemma closes_stops: "closes t \<Longrightarrow> stops t"
  by (auto simp: closes_def stops_def)

lemma parse_more:
  "parsepipe n ps = Ok x \<Longrightarrow> n \<le> k \<Longrightarrow> parsepipe k ps = Ok x"
  "parseexec n ps = Ok x \<Longrightarrow> n \<le> k \<Longrightarrow> parseexec k ps = Ok x"
  "parseline n ps = Ok x \<Longrightarrow> n \<le> k \<Longrightarrow> parseline k ps = Ok x"
proof -
  show "parsepipe k ps = Ok x" if "parsepipe n ps = Ok x" "n \<le> k"
    using that(2,1)
  proof (induction k rule: dec_induct)
    case (step k)
    then show ?case using parse_extends [of k] by (simp add: extends_def del: parsepipe.simps)
  qed
  show "parseexec k ps = Ok x" if "parseexec n ps = Ok x" "n \<le> k"
    using that(2,1)
  proof (induction k rule: dec_induct)
    case (step k)
    then show ?case using parse_extends [of k] by (simp add: extends_def del: parseexec.simps)
  qed
qed (metis parse.distinct(5) parseline_more)

text \<open>A printed command is read back by the routine for its place in the line.\<close>

definition atom_text :: "string cmd \<Rightarrow> string" where
  "atom_text c = group (flat c) (show_cmd c)"

definition exec_reads :: "string cmd \<Rightarrow> bool" where
  "exec_reads c \<longleftrightarrow> (\<forall>t. stops t \<longrightarrow>
     (\<exists>n c'. parseexec n (atom_text c @ t) = Ok (c', t) \<and> tok_words c' = c))"

definition line_reads :: "string cmd \<Rightarrow> bool" where
  "line_reads c \<longleftrightarrow> (\<forall>t. closes t \<longrightarrow>
     (\<exists>n c'. parseline n (show_cmd c @ t) = Ok (c', t) \<and> tok_words c' = c))"

lemma atom_text_core: "atom_text c = atom_text (core c) @ redirs_text (redirs c)"
  unfolding atom_text_def by (rule show_core)

lemma atom_text_nonwhite: "runnable c \<Longrightarrow> nonwhite t \<Longrightarrow> nonwhite (atom_text c @ t)"
proof -
  assume c: "runnable c" and t: "nonwhite t"
  have n: "nonwhite (redirs_text (redirs c) @ t)"
    by (rule redirs_text_nonwhite [OF t])
  show ?thesis
  proof (cases "flat (core c)")
    case True
    then obtain ws where ws: "core c = EXEC ws"
      using core_not_redir [of c] by (cases "core c") auto
    then have "list_all plain ws" using runnable_core [OF c] by simp
    then show ?thesis
      unfolding atom_text_core [of c] ws
      using n words_nonwhite [of ws "redirs_text (redirs c) @ t"]
      by (cases "ws = []") (simp_all add: atom_text_def group_def words_text_def)
  next
    case False
    then show ?thesis
      unfolding atom_text_core [of c] by (simp add: atom_text_def group_def sym_nonwhite symbols_def)
  qed
qed

lemma show_cmd_nonwhite: "runnable c \<Longrightarrow> nonwhite t \<Longrightarrow> nonwhite (show_cmd c @ t)"
proof -
  assume c: "runnable c" and t: "nonwhite t"
  have s: "nonwhite (x # u)" if "x \<in> set symbols" for x u
    using that by (rule sym_nonwhite)
  show ?thesis
  proof (cases c)
    case (PIPE l r)
    then show ?thesis
      using atom_text_nonwhite [of l "''|'' @ atom_text r @ t"] c s
      by (simp add: atom_text_def symbols_def)
  next
    case (LIST l r)
    then show ?thesis
      using atom_text_nonwhite [of l "'';'' @ atom_text r @ t"] c s
      by (simp add: atom_text_def symbols_def)
  next
    case (BACK b)
    then show ?thesis
      using atom_text_nonwhite [of b "''&'' @ t"] c s by (simp add: atom_text_def symbols_def)
  qed (use atom_text_nonwhite [OF c t] c in \<open>simp_all add: atom_text_def group_def\<close>)
qed

lemma redirs_text_hd: "rs \<noteq> [] \<Longrightarrow> hd (redirs_text rs @ t) \<in> set ''<>''"
  by (cases rs) (auto simp: redirs_text_def redir_text_def split: if_splits)

lemma exec_reads_EXEC:
  assumes "runnable c" and "core c = EXEC ws"
  shows "exec_reads c"
  unfolding exec_reads_def
proof (intro allI impI)
  fix t
  assume t: "stops t"
  let ?r = "redirs_text (redirs c) @ t"
  have ws: "list_all plain ws" "length ws < MAXARGS" and rs: "redirs_ok (redirs c)"
    using runnable_core [OF assms(1)] assms(2) by auto
  have tx: "atom_text c @ t = words_text ws @ ?r"
    unfolding atom_text_core [of c] assms(2) by (simp add: atom_text_def group_def)
  have nw: "nonwhite (words_text ws @ ?r)"
    using atom_text_nonwhite [OF assms(1) stops_nonwhite [OF t]] tx by simp
  have c: "c = wrap (redirs c) (EXEC ws)"
    using wrap_core [of c] assms(2) by simp
  have "\<exists>c'. parseexec (Suc 0) (words_text ws @ ?r) = Ok (c', t) \<and> tok_words c' = c"
  proof (cases "ws = []")
    case True
    have "?r = [] \<or> hd ?r \<noteq> CHR ''(''"
      using t redirs_text_hd [of "redirs c" t]
      by (cases "redirs c = []") (auto simp: redirs_text_def stops_def)
    then have p: "peek ?r ''('' = (False, ?r)"
      using nw True by (auto simp: words_text_def peek_nonwhite)
    obtain c' where "parseredirs (EXEC []) ?r = Ok (c', t)" "tok_words c' = wrap (redirs c) (EXEC [])"
      using parseredirs_text [OF rs stops_nonwhite [OF t] stops_not_redir [OF t], of "EXEC []"] by auto
    moreover have "set_argv [] (wrap (redirs c) (EXEC [])) = c"
      unfolding set_argv_wrap set_argv.simps using c True by simp
    ultimately show ?thesis
      using p True parseargs_stop [OF t] by (simp add: words_text_def tok_words_set_argv)
  next
    case False
    have h: "words_text ws @ ?r \<noteq> []" "hd (words_text ws @ ?r) \<notin> set symbols"
      using words_nonwhite [OF ws(1) False] by blast+
    have p: "peek (words_text ws @ ?r) ''('' = (False, words_text ws @ ?r)"
      using peek_nonwhite [OF nw, of "''(''"] h by (auto simp: symbols_def)
    have "parseredirs (EXEC []) (words_text ws @ ?r) = Ok (EXEC [], words_text ws @ ?r)"
      by (rule parseredirs_none [OF nw]) (use h in \<open>auto simp: symbols_def\<close>)
    then show ?thesis
      using p parseargs_text [OF rs t ws(1) False, of "[]" "EXEC []"] ws(2) c by simp
  qed
  then show "\<exists>n c'. parseexec n (atom_text c @ t) = Ok (c', t) \<and> tok_words c' = c"
    unfolding tx by blast
qed

text \<open>From a routine to the one that calls it.\<close>

lemma pipe_of_exec:
  assumes "parseexec n ps = Ok (c, t)" and "stops t" and "t = [] \<or> hd t \<noteq> CHR ''|''"
  shows "parsepipe (Suc n) ps = Ok (c, t)"
  using assms stops_nonwhite [OF assms(2)] by (auto simp: peek_nonwhite)

lemma line_of_pipe:
  assumes "parsepipe n ps = Ok (c, t)" and "closes t"
  shows "parseline (Suc n) ps = Ok (c, t)"
proof -
  have n: "nonwhite t" by (rule stops_nonwhite [OF closes_stops [OF assms(2)]])
  have "parsebacks c t = (c, t)"
    using assms(2) n by (subst parsebacks.simps) (auto simp: peek_nonwhite closes_def)
  then show ?thesis
    using assms n by (auto simp: peek_nonwhite closes_def)
qed

lemma sep_token:
  assumes "runnable r" and "closes t" and "x \<in> set ''|;''"
  shows "stops (x # atom_text r @ t)" "nonwhite (x # atom_text r @ t)"
    "gettoken (x # atom_text r @ t) = (x, x # atom_text r @ t, atom_text r @ t, atom_text r @ t)"
proof -
  show "stops (x # atom_text r @ t)" "nonwhite (x # atom_text r @ t)"
    using assms(3) by (auto simp: stops_def symbols_def intro: sym_nonwhite)
  have "nonwhite (atom_text r @ t)"
    by (rule atom_text_nonwhite [OF assms(1) stops_nonwhite [OF closes_stops [OF assms(2)]]])
  then show "gettoken (x # atom_text r @ t) = (x, x # atom_text r @ t, atom_text r @ t, atom_text r @ t)"
    using gettoken_symbol [of x] skip_nonwhite assms(3) by auto
qed

lemma line_reads_PIPE:
  assumes "runnable r" and "exec_reads l" and "exec_reads r"
  shows "line_reads (PIPE l r)"
  unfolding line_reads_def
proof (intro allI impI)
  fix t
  assume t: "closes t"
  let ?b = "CHR ''|'' # atom_text r @ t"
  note sep = sep_token [OF assms(1) t, of "CHR ''|''", simplified]
  obtain n l' where l: "parseexec n (atom_text l @ ?b) = Ok (l', ?b)" "tok_words l' = l"
    using assms(2) sep(1) by (auto simp: exec_reads_def)
  obtain k r' where r: "parseexec k (atom_text r @ t) = Ok (r', t)" "tok_words r' = r"
    using assms(3) closes_stops [OF t] by (auto simp: exec_reads_def)
  let ?m = "max n (Suc k)"
  have 1: "parseexec ?m (atom_text l @ ?b) = Ok (l', ?b)"
    by (rule parse_more(2) [OF l(1)]) simp
  have "parsepipe (Suc k) (atom_text r @ t) = Ok (r', t)"
    by (rule pipe_of_exec [OF r(1) closes_stops [OF t]]) (use t in \<open>auto simp: closes_def\<close>)
  then have 2: "parsepipe ?m (atom_text r @ t) = Ok (r', t)"
    by (rule parse_more(1)) simp
  have "parsepipe (Suc ?m) (atom_text l @ ?b) = Ok (PIPE l' r', t)"
    unfolding parsepipe.simps 1 pbind.simps prod.case using peek_nonwhite [OF sep(2)] sep(3) 2 by simp
  from line_of_pipe [OF this t] show "\<exists>n c'. parseline n (show_cmd (PIPE l r) @ t) = Ok (c', t) \<and> tok_words c' = PIPE l r"
    using l(2) r(2) by (intro exI [of _ "Suc (Suc ?m)"] exI [of _ "PIPE l' r'"])
      (simp add: atom_text_def del: parseline.simps parsepipe.simps)
qed

lemma line_reads_LIST:
  assumes "runnable r" and "exec_reads l" and "exec_reads r"
  shows "line_reads (LIST l r)"
  unfolding line_reads_def
proof (intro allI impI)
  fix t
  assume t: "closes t"
  let ?b = "CHR '';'' # atom_text r @ t"
  note sep = sep_token [OF assms(1) t, of "CHR '';''", simplified]
  obtain n l' where l: "parseexec n (atom_text l @ ?b) = Ok (l', ?b)" "tok_words l' = l"
    using assms(2) sep(1) by (auto simp: exec_reads_def)
  obtain k r' where r: "parseexec k (atom_text r @ t) = Ok (r', t)" "tok_words r' = r"
    using assms(3) closes_stops [OF t] by (auto simp: exec_reads_def)
  let ?m = "max (Suc n) (Suc (Suc k))"
  have "parsepipe (Suc n) (atom_text l @ ?b) = Ok (l', ?b)"
    by (rule pipe_of_exec [OF l(1) sep(1)]) simp
  then have 1: "parsepipe ?m (atom_text l @ ?b) = Ok (l', ?b)"
    by (rule parse_more(1)) simp
  have "parsepipe (Suc k) (atom_text r @ t) = Ok (r', t)"
    by (rule pipe_of_exec [OF r(1) closes_stops [OF t]]) (use t in \<open>auto simp: closes_def\<close>)
  from parse_more(3) [OF line_of_pipe [OF this t], of ?m]
  have 2: "parseline ?m (atom_text r @ t) = Ok (r', t)" by simp
  have 3: "parsebacks l' ?b = (l', ?b)"
    using peek_nonwhite [OF sep(2)] by (subst parsebacks.simps) simp
  have "parseline (Suc ?m) (atom_text l @ ?b) = Ok (LIST l' r', t)"
    unfolding parseline.simps 1 pbind.simps prod.case 3 using peek_nonwhite [OF sep(2)] sep(3) 2 by simp
  then show "\<exists>n c'. parseline n (show_cmd (LIST l r) @ t) = Ok (c', t) \<and> tok_words c' = LIST l r"
    using l(2) r(2) by (intro exI [of _ "Suc ?m"] exI [of _ "LIST l' r'"])
      (simp add: atom_text_def del: parseline.simps parsepipe.simps)
qed

lemma line_reads_BACK:
  assumes "exec_reads c"
  shows "line_reads (BACK c)"
  unfolding line_reads_def
proof (intro allI impI)
  fix t
  assume t: "closes t"
  let ?b = "CHR ''&'' # t"
  have n: "nonwhite t" by (rule stops_nonwhite [OF closes_stops [OF t]])
  have nb: "stops ?b" "nonwhite ?b"
    by (auto simp: stops_def symbols_def intro: sym_nonwhite)
  obtain k c' where c: "parseexec k (atom_text c @ ?b) = Ok (c', ?b)" "tok_words c' = c"
    using assms nb(1) by (auto simp: exec_reads_def)
  have 1: "parsepipe (Suc k) (atom_text c @ ?b) = Ok (c', ?b)"
    by (rule pipe_of_exec [OF c(1) nb(1)]) simp
  have "parsebacks (BACK c') t = (BACK c', t)"
    using t n by (subst parsebacks.simps) (auto simp: peek_nonwhite closes_def)
  then have 2: "parsebacks c' ?b = (BACK c', t)"
    using peek_nonwhite [OF nb(2)] gettoken_symbol [of "CHR ''&''" t] skip_nonwhite [OF n]
    by (subst parsebacks.simps) simp
  have "parseline (Suc (Suc k)) (atom_text c @ ?b) = Ok (BACK c', t)"
    unfolding parseline.simps 1 pbind.simps prod.case 2 using peek_nonwhite [OF n] t
    by (auto simp: closes_def)
  then show "\<exists>n c'. parseline n (show_cmd (BACK c) @ t) = Ok (c', t) \<and> tok_words c' = BACK c"
    using c(2) by (intro exI [of _ "Suc (Suc k)"] exI [of _ "BACK c'"])
      (simp add: atom_text_def del: parseline.simps parsepipe.simps)
qed

lemma exec_reads_group:
  assumes "runnable c" and "\<not> flat (core c)" and "line_reads (core c)"
  shows "exec_reads c"
  unfolding exec_reads_def
proof (intro allI impI)
  fix t
  assume t: "stops t"
  let ?r = "redirs_text (redirs c) @ t"
  let ?b = "show_cmd (core c) @ CHR '')'' # ?r"
  have b: "runnable (core c)" and rs: "redirs_ok (redirs c)"
    using runnable_core [OF assms(1)] by auto
  have tx: "atom_text c @ t = CHR ''('' # ?b"
    unfolding atom_text_core [of c] using assms(2) by (simp add: atom_text_def group_def)
  obtain n c1 where l: "parseline n ?b = Ok (c1, CHR '')'' # ?r)" "tok_words c1 = core c"
    using assms(3) [unfolded line_reads_def, rule_format, of "CHR '')'' # ?r"] by (auto simp: closes_def)
  obtain c' where c': "parseredirs c1 ?r = Ok (c', t)" "tok_words c' = wrap (redirs c) (tok_words c1)"
    using parseredirs_text [OF rs stops_nonwhite [OF t] stops_not_redir [OF t]] by blast
  have p1: "peek (CHR ''('' # ?b) ''('' = (True, CHR ''('' # ?b)"
    using sym_nonwhite [of "CHR ''(''" ?b] by (subst peek_nonwhite) (auto simp: symbols_def)
  have "nonwhite (CHR '')'' # ?r)" by (intro sym_nonwhite) (simp add: symbols_def)
  then have p2: "peek (CHR '')'' # ?r) '')'' = (True, CHR '')'' # ?r)"
    by (simp add: peek_nonwhite)
  have g1: "gettoken (CHR ''('' # ?b) = (CHR ''('', CHR ''('' # ?b, ?b, ?b)"
    using gettoken_symbol [of "CHR ''(''" ?b] skip_nonwhite [OF show_cmd_nonwhite [OF b \<open>nonwhite (CHR '')'' # ?r)\<close>]]
    by simp
  have g2: "gettoken (CHR '')'' # ?r) = (CHR '')'', CHR '')'' # ?r, ?r, ?r)"
    using gettoken_symbol [of "CHR '')''" ?r] skip_nonwhite [OF redirs_text_nonwhite [OF stops_nonwhite [OF t]]]
    by simp
  have "parseblock (Suc n) (CHR ''('' # ?b) = Ok (c', t)"
    unfolding parseblock.simps p1 prod.case g1 l(1) pbind.simps p2 g2 c'(1) by simp
  then have "parseexec (Suc (Suc n)) (CHR ''('' # ?b) = Ok (c', t)"
    unfolding parseexec.simps p1 by simp
  moreover have "tok_words c' = c"
    using c'(2) l(2) wrap_core by simp
  ultimately show "\<exists>n c'. parseexec n (atom_text c @ t) = Ok (c', t) \<and> tok_words c' = c"
    unfolding tx by blast
qed

lemma printed_exec: "runnable c \<Longrightarrow> exec_reads c"
proof (induction c rule: measure_induct_rule [of size])
  case (less c)
  have b: "runnable (core c)" "size (core c) \<le> size c"
    using runnable_core [OF less.prems] size_core by auto
  show ?case
  proof (cases "core c")
    case (EXEC ws)
    then show ?thesis by (rule exec_reads_EXEC [OF less.prems])
  next
    case (PIPE l r)
    with b have "line_reads (core c)" by (auto intro!: line_reads_PIPE less.IH)
    then show ?thesis using PIPE by (intro exec_reads_group less.prems) simp_all
  next
    case (LIST l r)
    with b have "line_reads (core c)" by (auto intro!: line_reads_LIST less.IH)
    then show ?thesis using LIST by (intro exec_reads_group less.prems) simp_all
  next
    case (BACK d)
    with b have "line_reads (core c)" by (auto intro!: line_reads_BACK less.IH)
    then show ?thesis using BACK by (intro exec_reads_group less.prems) simp_all
  qed (use b core_not_redir in auto)
qed

lemma line_reads_flat:
  assumes "flat c" and "exec_reads c"
  shows "line_reads c"
  unfolding line_reads_def
proof (intro allI impI)
  fix t
  assume t: "closes t"
  obtain k c' where c: "parseexec k (atom_text c @ t) = Ok (c', t)" "tok_words c' = c"
    using assms(2) closes_stops [OF t] by (auto simp: exec_reads_def)
  have "parsepipe (Suc k) (atom_text c @ t) = Ok (c', t)"
    by (rule pipe_of_exec [OF c(1) closes_stops [OF t]]) (use t in \<open>auto simp: closes_def\<close>)
  from line_of_pipe [OF this t] show "\<exists>n c'. parseline n (show_cmd c @ t) = Ok (c', t) \<and> tok_words c' = c"
    using c(2) assms(1) by (auto simp: atom_text_def group_def simp del: parseline.simps)
qed

lemma printed_line: "runnable c \<Longrightarrow> line_reads c"
proof (cases "flat c")
  case True
  assume "runnable c"
  then show ?thesis by (rule line_reads_flat [OF True printed_exec])
next
  case False
  assume "runnable c"
  with False show ?thesis
    by (cases c) (auto intro: line_reads_PIPE line_reads_LIST line_reads_BACK printed_exec)
qed

lemma printed_no_NUL: "runnable c \<Longrightarrow> NUL \<notin> set (show_cmd c)"
  by (induction c)
    (auto simp: words_text_def redir_text_def group_def plain_def list_all_iff NUL_def split: if_splits)

lemma parsecmd_printed:
  assumes "runnable c"
  shows "\<exists>cmd lm. parsecmd (show_cmd c) = Ok (cmd, lm) \<and> tok_words cmd = c"
proof -
  obtain n cmd where p: "parseline n (show_cmd c) = Ok (cmd, [])" "tok_words cmd = c"
    using printed_line [OF assms] by (auto simp: line_reads_def closes_def)
  let ?k = "parse_fuel (show_cmd c)"
  have "parseline ?k (show_cmd c) \<noteq> NoFuel"
    using parse_enough [of ?k] by (simp add: enough_def parse_fuel_def)
  then have "parseline (max n ?k) (show_cmd c) = parseline ?k (show_cmd c)"
    by (rule parseline_more) simp
  moreover have "parseline (max n ?k) (show_cmd c) = Ok (cmd, [])"
    by (rule parse_more(3) [OF p(1)]) simp
  ultimately have "parseline ?k (show_cmd c) = Ok (cmd, [])" by simp
  moreover have "peek [] [] = (False, [])" by (simp add: peek_eq skip_white_def)
  ultimately show ?thesis
    using p(2) by (simp add: parsecmd_def)
qed

lemma parsed_words:
  assumes "parsecmd s = Ok (cmd, lm)" and "NUL \<notin> set s"
  shows "map_cmd (\<lambda>(q, eq). cstr_at (length s) lm q) cmd = tok_words cmd"
  unfolding tok_words_def
proof (rule cmd.map_cong0)
  fix t
  assume t: "t \<in> set_cmd cmd"
  have "cmd_ok s cmd" "lm = nulterminate (length s) cmd (s @ [NUL])"
    using parsecmd_ok [OF assms(1)] by auto
  then show "(\<lambda>(q, eq). cstr_at (length s) lm q) t = tok_word t"
    using word_reads_back [of s cmd "fst t" "snd t"] assms(2) t
    by (cases t) (simp add: tok_word_def)
qed

text \<open>C32: every command that the shell can run can be written on a line, and the shell reads it
  back: it parses the printed line, terminates the words in place, and runs exactly the
  command that was printed.
\<close>

theorem shell_roundtrip:
  assumes "runnable c"
  shows "(\<exists>cmd lm. parsecmd (show_cmd c) = Ok (cmd, lm) \<and>
      map_cmd (\<lambda>(q, eq). cstr_at (length (show_cmd c)) lm q) cmd = c) \<and>
    runline (show_cmd c) = runcmd c"
proof -
  obtain cmd lm where p: "parsecmd (show_cmd c) = Ok (cmd, lm)" and w: "tok_words cmd = c"
    using parsecmd_printed [OF assms] by blast
  have "map_cmd (\<lambda>(q, eq). cstr_at (length (show_cmd c)) lm q) cmd = c"
    using parsed_words [OF p printed_no_NUL [OF assms]] w by simp
  with p show ?thesis
    by (auto simp: runline_def)
qed

theorem shell_roundtrip_witness:
  "(\<exists>cmd lm. parsecmd ''grep a <in |(wc ;ls )'' = Ok (cmd, lm) \<and>
      map_cmd (\<lambda>(q, eq). cstr_at 21 lm q) cmd =
        PIPE (REDIR (EXEC [''grep'', ''a'']) ''in'' 0 0) (LIST (EXEC [''wc'']) (EXEC [''ls'']))) \<and>
    runline ''grep a <in |(wc ;ls )'' =
      runcmd (PIPE (REDIR (EXEC [''grep'', ''a'']) ''in'' 0 0) (LIST (EXEC [''wc'']) (EXEC [''ls''])))"
proof -
  let ?c = "PIPE (REDIR (EXEC [''grep'', ''a'']) ''in'' 0 0) (LIST (EXEC [''wc'']) (EXEC [''ls'']))"
  have s: "show_cmd ?c = ''grep a <in |(wc ;ls )''" by code_simp
  have "runnable ?c" by code_simp
  from shell_roundtrip [OF this, unfolded s] show ?thesis by (simp add: numeral_eq_Suc)
qed

end
