(* ===== verification/Grep.thy ===== *)
theory Grep
  imports Ulib
begin

text \<open>
  \<^verbatim>\<open>grep.c\<close>: the matcher of regular expressions and the loop that reads a file into a
  buffer and writes the lines that match. The matcher is compared with the language that
  an expression denotes.
\<close>

section \<open>The matcher\<close>

text \<open>\<^verbatim>\<open>re\<close> and \<^verbatim>\<open>text\<close> are pointers into strings: the rest of the string from there.\<close>

function (sequential) matchhere :: "string \<Rightarrow> string \<Rightarrow> bool"
  and matchstar :: "char \<Rightarrow> string \<Rightarrow> string \<Rightarrow> bool" where
  "matchhere [] text = True"
| "matchhere (r # re) text =
     (if re \<noteq> [] \<and> hd re = CHR ''*'' then matchstar r (tl re) text
      else if r = CHR ''$'' \<and> re = [] then text = []
      else if text \<noteq> [] \<and> (r = CHR ''.'' \<or> r = hd text) then matchhere re (tl text)
      else False)"
| "matchstar c re text =
     (if matchhere re text then True
      else if text \<noteq> [] \<and> (hd text = c \<or> c = CHR ''.'') then matchstar c re (tl text)
      else False)"
  by pat_completeness auto
termination
  by (relation "measures
      [case_sum (\<lambda>(re, text). 2 * length re) (\<lambda>(c, re, text). 2 * length re + 1),
       case_sum (\<lambda>(re, text). length text) (\<lambda>(c, re, text). length text)]")
    auto

fun match_from :: "string \<Rightarrow> string \<Rightarrow> bool" where
  "match_from re text =
     (if matchhere re text then True
      else case text of [] \<Rightarrow> False | _ # text' \<Rightarrow> match_from re text')"

definition match :: "string \<Rightarrow> string \<Rightarrow> bool" where
  "match re text =
     (case re of
        r # re' \<Rightarrow> if r = CHR ''^'' then matchhere re' text else match_from re text
      | [] \<Rightarrow> match_from re text)"

declare matchstar.simps [simp del] match_from.simps [simp del]

section \<open>The loop over the file\<close>

text \<open>
  The inner loop: the lines up to the last newline that \<^verbatim>\<open>strchr\<close> finds, and the pointer
  \<^verbatim>\<open>p\<close> behind it. \<^verbatim>\<open>strchr\<close> stops at a zero byte.
\<close>

lemma length_tl_less: "drop n p \<noteq> [] \<Longrightarrow> length p - Suc n < length p"
  by auto

function grep_lines :: "string \<Rightarrow> string \<Rightarrow> string list \<times> string" where
  "grep_lines pattern p =
     (let line = takeWhile (\<lambda>c. c \<noteq> nl \<and> c \<noteq> NUL) p; q = drop (length line) p in
      if q \<noteq> [] \<and> hd q = nl then
        let (out, p') = grep_lines pattern (tl q) in
        (if match pattern line then (line @ [nl]) # out else out, p')
      else ([], p))"
  by pat_completeness auto
termination
  by (relation "measure (\<lambda>(pattern, p). length p)")
    (auto simp: length_tl_less)

declare grep_lines.simps [simp del]

definition grep_step :: "string \<Rightarrow> int \<Rightarrow> string \<Rightarrow> (bool \<times> string) up" where
  "grep_step pattern fd buf =
     ubind (uread fd (1024 - int (length buf) - 1)) (\<lambda>n. case n of
       Some (x # xs) \<Rightarrow>
         (let buf' = buf @ x # xs; (out, p) = grep_lines pattern buf' in
          uthen (ufor out (\<lambda>line. udo (Swrite 1 line)))
            (uret (True, if length p = length buf' then [] else p)))
     | _ \<Rightarrow> uret (False, buf))"

definition grep :: "string \<Rightarrow> int \<Rightarrow> string up" where
  "grep pattern fd = uloop (grep_step pattern fd) []"

fun grep_files :: "string \<Rightarrow> string list \<Rightarrow> unit up" where
  "grep_files pattern [] = uexit"
| "grep_files pattern (a # argv) =
     ubind (ucall (Sopen a 0)) (\<lambda>fd.
       if fd < 0 then uthen (uprintf 1 (''grep: cannot open %s'' @ [nl]) [UStr (Some a)]) uexit
       else uthen (grep pattern fd) (uthen (udo (Sclose fd)) (grep_files pattern argv)))"

definition grep_main :: "string list \<Rightarrow> unit up" where
  "grep_main argv =
     (if length argv \<le> 1 then uthen (uprintf 2 (''usage: grep pattern [file ...]'' @ [nl]) []) uexit
      else let pattern = argv ! 1 in
        if length argv \<le> 2 then uthen (grep pattern 0) uexit
        else grep_files pattern (drop 2 argv))"

section \<open>What an expression denotes\<close>

datatype item = One char | Star char

text \<open>The items of an expression, and whether it ends in \<^verbatim>\<open>$\<close>.\<close>

fun items :: "string \<Rightarrow> item list" where
  "items [] = []"
| "items (r # re) =
     (if re \<noteq> [] \<and> hd re = CHR ''*'' then Star r # items (tl re)
      else if r = CHR ''$'' \<and> re = [] then [] else One r # items re)"

fun to_end :: "string \<Rightarrow> bool" where
  "to_end [] = False"
| "to_end (r # re) =
     (if re \<noteq> [] \<and> hd re = CHR ''*'' then to_end (tl re)
      else if r = CHR ''$'' \<and> re = [] then True else to_end re)"

definition fits :: "char \<Rightarrow> char \<Rightarrow> bool" where
  "fits r c \<longleftrightarrow> r = CHR ''.'' \<or> c = r"

fun item_lang :: "item \<Rightarrow> string set" where
  "item_lang (One r) = {[c] | c. fits r c}"
| "item_lang (Star r) = {w. \<forall>c \<in> set w. fits r c}"

fun lang :: "item list \<Rightarrow> string set" where
  "lang [] = {[]}"
| "lang (i # is) = {u @ v | u v. u \<in> item_lang i \<and> v \<in> lang is}"

definition matches_at :: "string \<Rightarrow> string \<Rightarrow> bool" where
  "matches_at re text \<longleftrightarrow> (\<exists>u v. text = u @ v \<and> u \<in> lang (items re) \<and> (to_end re \<longrightarrow> v = []))"

lemma lang_Cons:
  "(\<exists>u v. s = u @ v \<and> u \<in> lang (i # is) \<and> P v) \<longleftrightarrow>
    (\<exists>w t. s = w @ t \<and> w \<in> item_lang i \<and> (\<exists>u v. t = u @ v \<and> u \<in> lang is \<and> P v))"
  (is "?L \<longleftrightarrow> ?R")
proof
  assume ?L
  then obtain w u v where "s = (w @ u) @ v" "w \<in> item_lang i" "u \<in> lang is" "P v" by auto
  then show ?R by (intro exI [of _ w] exI [of _ "u @ v"]) auto
next
  assume ?R
  then obtain w u v where "s = w @ u @ v" "w \<in> item_lang i" "u \<in> lang is" "P v" by auto
  then show ?L by (intro exI [of _ "w @ u"] exI [of _ v]) auto
qed

lemma matches_at_star:
  assumes "re \<noteq> []" and "hd re = CHR ''*''"
  shows "matches_at (r # re) text \<longleftrightarrow>
    (\<exists>w text'. text = w @ text' \<and> (\<forall>c \<in> set w. fits r c) \<and> matches_at (tl re) text')"
proof -
  have "items (r # re) = Star r # items (tl re)" "to_end (r # re) = to_end (tl re)"
    using assms by auto
  then show ?thesis
    unfolding matches_at_def by (simp only: lang_Cons) simp
qed

lemma star_unroll:
  "(\<exists>w text'. text = w @ text' \<and> (\<forall>c \<in> set w. fits r c) \<and> P text') \<longleftrightarrow>
    P text \<or> (\<exists>c ts. text = c # ts \<and> fits r c \<and>
      (\<exists>w text'. ts = w @ text' \<and> (\<forall>c \<in> set w. fits r c) \<and> P text'))"
  (is "?L \<longleftrightarrow> ?R")
proof
  assume ?L
  then obtain w text' where w: "text = w @ text'" "\<forall>c \<in> set w. fits r c" "P text'" by blast
  then show ?R by (cases w) auto
next
  assume ?R
  then show ?L
  proof (elim disjE exE conjE)
    assume "P text"
    then show ?L by (intro exI [of _ "[]"] exI [of _ "text"]) simp
  next
    fix c ts w text'
    assume "text = c # ts" "fits r c" "ts = w @ text'" "\<forall>c \<in> set w. fits r c" "P text'"
    then show ?L by (intro exI [of _ "c # w"] exI [of _ text']) simp
  qed
qed

lemma one_lang:
  "(\<exists>w t. s = w @ t \<and> w \<in> item_lang (One r) \<and> Q t) \<longleftrightarrow> (\<exists>c ts. s = c # ts \<and> fits r c \<and> Q ts)"
  (is "?L \<longleftrightarrow> ?R")
proof
  assume ?R
  then obtain c ts where "s = c # ts" "fits r c" "Q ts" by blast
  then show ?L by (intro exI [of _ "[c]"] exI [of _ ts]) simp
qed auto

lemma matches_at_one:
  assumes "\<not> (re \<noteq> [] \<and> hd re = CHR ''*'')" and "\<not> (r = CHR ''$'' \<and> re = [])"
  shows "matches_at (r # re) text \<longleftrightarrow> (\<exists>c ts. text = c # ts \<and> fits r c \<and> matches_at re ts)"
proof -
  have "items (r # re) = One r # items re" "to_end (r # re) = to_end re"
    using assms by auto
  then show ?thesis
    unfolding matches_at_def by (simp only: lang_Cons one_lang)
qed

lemma matchhere_matches:
  "matchhere re text \<longleftrightarrow> matches_at re text"
  "matchstar c re text \<longleftrightarrow>
    (\<exists>w text'. text = w @ text' \<and> (\<forall>x \<in> set w. fits c x) \<and> matches_at re text')"
proof (induction re "text" and c re "text" rule: matchhere_matchstar.induct)
  case 1
  then show ?case by (simp add: matches_at_def)
next
  case (2 r re tx)
  consider "re \<noteq> [] \<and> hd re = CHR ''*''" | "\<not> (re \<noteq> [] \<and> hd re = CHR ''*'')" "r = CHR ''$'' \<and> re = []"
    | "\<not> (re \<noteq> [] \<and> hd re = CHR ''*'')" "\<not> (r = CHR ''$'' \<and> re = [])" by blast
  then show ?case
  proof cases
    case 1
    then show ?thesis using 2(1) matches_at_star by simp
  next
    case 2
    then show ?thesis by (simp add: matches_at_def)
  next
    case 3
    show ?thesis
      unfolding matches_at_one [OF 3] using 3 2(2) [OF 3] by (cases tx) (auto simp: fits_def)
  qed
next
  case (3 c re tx)
  show ?case
    by (subst star_unroll, subst matchstar.simps) (use 3 in \<open>cases tx; auto simp: fits_def\<close>)
qed

lemma match_from_iff: "match_from re text \<longleftrightarrow> (\<exists>p t. text = p @ t \<and> matches_at re t)"
proof (induction "text")
  case Nil
  then show ?case by (simp add: match_from.simps matchhere_matches)
next
  case (Cons c tx)
  have "(\<exists>p t. c # tx = p @ t \<and> matches_at re t) \<longleftrightarrow>
      matches_at re (c # tx) \<or> (\<exists>p t. tx = p @ t \<and> matches_at re t)"
    by (auto simp: Cons_eq_append_conv)
  then show ?case
    using Cons by (subst match_from.simps) (simp add: matchhere_matches)
qed

text \<open>C35: the matcher decides the language of the expression. \<^verbatim>\<open>match\<close> returns true exactly
  if some part of the text is a word of the expression, read as a sequence of characters,
  \<^verbatim>\<open>.\<close> for any character and \<^verbatim>\<open>*\<close> for any number of the one before; the part is the
  beginning of the text under \<^verbatim>\<open>^\<close> and reaches its end under \<^verbatim>\<open>$\<close>.
\<close>

theorem match_language:
  "match re text \<longleftrightarrow>
    (\<exists>p u v. text = p @ u @ v \<and>
      (let anchored = (re \<noteq> [] \<and> hd re = CHR ''^''); re' = (if anchored then tl re else re) in
       u \<in> lang (items re') \<and> \<not> (anchored \<and> p \<noteq> []) \<and> \<not> (to_end re' \<and> v \<noteq> [])))"
proof (cases "re \<noteq> [] \<and> hd re = CHR ''^''")
  case True
  then have "match re text = matches_at (tl re) text"
    by (cases re) (auto simp: match_def matchhere_matches)
  with True show ?thesis by (simp add: matches_at_def Let_def)
next
  case False
  then have "match re text = match_from re text"
    by (cases re) (auto simp: match_def)
  with False show ?thesis by (simp add: match_from_iff matches_at_def Let_def) blast
qed

section \<open>Which lines grep writes\<close>

text \<open>The complete lines of a text, and what follows the last newline.\<close>

fun split_lines :: "string \<Rightarrow> string \<Rightarrow> string list \<times> string" where
  "split_lines acc [] = ([], acc)"
| "split_lines acc (c # cs) =
     (if c = nl then (acc # fst (split_lines [] cs), snd (split_lines [] cs))
      else split_lines (acc @ [c]) cs)"

lemma split_lines_append:
  "split_lines acc (xs @ ys) =
    (fst (split_lines acc xs) @ fst (split_lines (snd (split_lines acc xs)) ys),
     snd (split_lines (snd (split_lines acc xs)) ys))"
  by (induction acc xs rule: split_lines.induct) auto

lemma split_lines_none: "nl \<notin> set xs \<Longrightarrow> split_lines acc xs = ([], acc @ xs)"
  by (induction acc xs rule: split_lines.induct) auto

lemma split_lines_tail:
  "nl \<in> set xs \<Longrightarrow> length (snd (split_lines acc xs)) < length xs \<and> nl \<notin> set (snd (split_lines acc xs))
    \<and> set (snd (split_lines acc xs)) \<subseteq> set xs"
proof (induction acc xs rule: split_lines.induct)
  case (2 acc c cs)
  show ?case
  proof (cases "c = nl")
    case True
    then show ?thesis
      by (cases "nl \<in> set cs") (use 2 in \<open>auto simp: split_lines_none\<close>)
  qed (use 2 in auto)
qed simp

lemma grep_lines_split:
  "NUL \<notin> set p \<Longrightarrow> grep_lines pat p =
    (map (\<lambda>l. l @ [nl]) (filter (match pat) (fst (split_lines [] p))), snd (split_lines [] p))"
proof (induction pat p rule: grep_lines.induct)
  case (1 pat p)
  let ?line = "takeWhile (\<lambda>c. c \<noteq> nl \<and> c \<noteq> NUL) p"
  let ?q = "drop (length ?line) p"
  have eq: "?line = takeWhile (\<lambda>c. c \<noteq> nl) p"
    using 1(2) by (intro takeWhile_cong) auto
  have q: "?q = dropWhile (\<lambda>c. c \<noteq> nl) p"
    unfolding eq by (simp add: dropWhile_eq_drop)
  have line: "nl \<notin> set ?line"
    by (auto dest: set_takeWhileD)
  show ?case
  proof (cases "?q \<noteq> [] \<and> hd ?q = nl")
    case True
    then have p: "p = ?line @ nl # tl ?q"
      by (metis append_take_drop_id list.collapse takeWhile_eq_take)
    have sp: "split_lines [] p = (?line # fst (split_lines [] (tl ?q)), snd (split_lines [] (tl ?q)))"
      by (subst p) (simp add: split_lines_append split_lines_none [OF line])
    have "NUL \<notin> set (tl ?q)"
      using 1(2) by (metis in_set_dropD list.sel(2) list.set_sel(2))
    then have "grep_lines pat (tl ?q) =
       (map (\<lambda>l. l @ [nl]) (filter (match pat) (fst (split_lines [] (tl ?q)))), snd (split_lines [] (tl ?q)))"
      using 1(1) [OF refl refl] True by simp
    then show ?thesis
      by (subst grep_lines.simps) (use True in \<open>simp add: sp Let_def\<close>)
  next
    case False
    then have "nl \<notin> set p"
      unfolding q by (metis (mono_tags, lifting) dropWhile_eq_Nil_conv hd_dropWhile)
    then show ?thesis
      by (subst grep_lines.simps) (use False in \<open>auto simp: split_lines_none Let_def\<close>)
  qed
qed

lemma asks_grep_step: "asks (grep_step pat fd)"
  unfolding asks_def
proof (intro allI impI)
  fix v s v' s'
  assume "grep_step pat fd v s = (URet (True, v'), s')"
  then show "length (answers s') < length (answers s)"
    by (auto simp: grep_step_def uread_def uask_def ubind_def uret_def uthen_def Let_def
        puts_writes [unfolded puts_def, rule_format]
        split: list.splits sysans.splits option.splits if_splits prod.splits)
qed

lemma grep_turn:
  assumes "answers s = Adata x # as" and "x \<noteq> []" and "length buf + length x < 1024"
    and "NUL \<notin> set (buf @ x)"
  shows "\<exists>tr. grep_step pat fd buf s =
    (URet (True, if nl \<in> set (buf @ x) then snd (split_lines [] (buf @ x)) else []),
     s\<lparr>answers := as, calls := calls s @ tr\<rparr>) \<and>
    written_to 1 tr = map (\<lambda>l. l @ [nl]) (filter (match pat) (fst (split_lines [] (buf @ x))))"
proof -
  let ?out = "map (\<lambda>l. l @ [nl]) (filter (match pat) (fst (split_lines [] (buf @ x))))"
  let ?tr = "Sread fd (1024 - int (length buf) - 1) # map (Swrite 1) ?out"
  obtain c cs where x: "x = c # cs" using assms(2) by (cases x) auto
  have len: "int (length x) \<le> 1024 - int (length buf) - 1"
    using assms(3) by linarith
  have all: "length (snd (split_lines [] (buf @ x))) = length (buf @ x) \<longleftrightarrow> nl \<notin> set (buf @ x)"
    using split_lines_tail [of "buf @ x" "[]"] split_lines_none [of "buf @ x" "[]"] by force
  have "uread fd (1024 - int (length buf) - 1) s =
      (URet (Some x), s\<lparr>answers := as, calls := calls s @ [Sread fd (1024 - int (length buf) - 1)]\<rparr>)"
    using len by (simp add: uread_def uask_def ubind_def uret_def assms(1))
  then have "grep_step pat fd buf s =
    (URet (True, if nl \<in> set (buf @ x) then snd (split_lines [] (buf @ x)) else []),
     s\<lparr>answers := as, calls := calls s @ ?tr\<rparr>)"
    using all grep_lines_split [OF assms(4), of pat] puts_writes [of ?out 1]
    by (simp add: grep_step_def ubind_def uthen_def uret_def puts_def x Let_def)
  then show ?thesis
    by (intro exI [of _ ?tr]) (simp add: written_to_writes del: map_map)
qed

lemma grep_end:
  assumes "answers s = Adata [] # as" and "length buf < 1024"
  shows "grep_step pat fd buf s =
    (URet (False, buf),
     s\<lparr>answers := as, calls := calls s @ [Sread fd (1024 - int (length buf) - 1)]\<rparr>)"
  using assms by (simp add: grep_step_def uread_def uask_def ubind_def uret_def)

lemma grep_chunks:
  assumes "\<forall>x \<in> set chunks. nl \<in> set x \<and> NUL \<notin> set x \<and> length x < 512"
    and "answers s = map Adata chunks @ Adata [] # as"
    and "nl \<notin> set buf" and "NUL \<notin> set buf" and "length buf < 512"
  shows "\<exists>tr last. uloop (grep_step pat fd) buf s =
      (URet last, s\<lparr>answers := as, calls := calls s @ tr\<rparr>) \<and>
    written_to 1 tr =
      map (\<lambda>l. l @ [nl]) (filter (match pat) (fst (split_lines buf (concat chunks))))"
  using assms
proof (induction chunks arbitrary: s buf)
  case Nil
  then show ?case
    by (subst uloop_unfold [OF asks_grep_step])
      (simp add: ubind_def grep_end uret_def exI [of _ "[Sread fd (1023 - int (length buf))]"])
next
  case (Cons x chunks)
  let ?rest = "snd (split_lines [] (buf @ x))"
  have x: "nl \<in> set (buf @ x)" "x \<noteq> []" "NUL \<notin> set (buf @ x)" "length buf + length x < 1024"
    using Cons.prems by auto
  have rest: "?rest = snd (split_lines buf x)"
    using split_lines_append [of "[]" buf x] split_lines_none [OF Cons.prems(3)] by simp
  have "length ?rest < 512" and "nl \<notin> set ?rest" and "NUL \<notin> set ?rest"
    using split_lines_tail [of x buf] Cons.prems(1) unfolding rest by auto
  obtain tr where step: "grep_step pat fd buf s =
      (URet (True, ?rest), s\<lparr>answers := map Adata chunks @ Adata [] # as, calls := calls s @ tr\<rparr>)"
    and tr: "written_to 1 tr = map (\<lambda>l. l @ [nl]) (filter (match pat) (fst (split_lines [] (buf @ x))))"
    using grep_turn [of s x "map Adata chunks @ Adata [] # as" buf pat fd] Cons.prems(2) x by auto
  let ?s = "s\<lparr>answers := map Adata chunks @ Adata [] # as, calls := calls s @ tr\<rparr>"
  have "\<exists>tr last. uloop (grep_step pat fd) ?rest ?s =
      (URet last, ?s\<lparr>answers := as, calls := calls ?s @ tr\<rparr>) \<and>
    written_to 1 tr =
      map (\<lambda>l. l @ [nl]) (filter (match pat) (fst (split_lines ?rest (concat chunks))))"
    by (rule Cons.IH) (use Cons.prems(1) \<open>length ?rest < 512\<close> \<open>nl \<notin> set ?rest\<close> \<open>NUL \<notin> set ?rest\<close> in simp_all)
  then show ?case
    by (subst uloop_unfold [OF asks_grep_step])
      (auto simp: ubind_def step tr rest split_lines_append split_lines_none [OF Cons.prems(3)])
qed

text \<open>C36: \<^verbatim>\<open>grep\<close> writes exactly the matching lines of a file, in order and whole, wherever the
  reads cut it, as long as every read brings a newline and no zero byte and fewer than 512
  bytes.
\<close>

theorem grep_writes_matching_lines:
  assumes "\<forall>x \<in> set chunks. nl \<in> set x \<and> NUL \<notin> set x \<and> length x < 512"
    and "answers s = map Adata chunks @ Adata [] # as"
  shows "\<exists>tr last. grep pat fd s = (URet last, s\<lparr>answers := as, calls := calls s @ tr\<rparr>) \<and>
    written_to 1 tr =
      map (\<lambda>l. l @ [nl]) (filter (match pat) (fst (split_lines [] (concat chunks))))"
  unfolding grep_def by (rule grep_chunks) (use assms in simp_all)

theorem grep_writes_matching_lines_witness:
  "\<exists>tr last.
    grep ''b.'' 3 \<lparr>answers = [Adata (''abc'' @ [nl] @ ''x''), Adata (''by'' @ [nl] @ ''zz'' @ [nl]), Adata []],
      calls = []\<rparr> = (URet last, \<lparr>answers = [], calls = tr\<rparr>) \<and>
    written_to 1 tr = [''abc'' @ [nl], ''xby'' @ [nl]]"
proof -
  have ne: "nl \<noteq> NUL" "CHR ''a'' \<noteq> nl" "CHR ''b'' \<noteq> nl" "CHR ''c'' \<noteq> nl" "CHR ''x'' \<noteq> nl"
    "CHR ''y'' \<noteq> nl" "CHR ''z'' \<noteq> nl" "CHR ''a'' \<noteq> NUL" "CHR ''b'' \<noteq> NUL" "CHR ''c'' \<noteq> NUL"
    "CHR ''x'' \<noteq> NUL" "CHR ''y'' \<noteq> NUL" "CHR ''z'' \<noteq> NUL"
    by code_simp+
  have m: "match ''b.'' ''abc''" "match ''b.'' ''xby''" "\<not> match ''b.'' ''zz''"
    by code_simp+
  show ?thesis
    using grep_writes_matching_lines
        [of "[''abc'' @ [nl] @ ''x'', ''by'' @ [nl] @ ''zz'' @ [nl]]"
          "\<lparr>answers = [Adata (''abc'' @ [nl] @ ''x''), Adata (''by'' @ [nl] @ ''zz'' @ [nl]), Adata []],
            calls = []\<rparr>" "[]" "''b.''" 3]
    by (simp add: ne ne [symmetric] m)
qed

text \<open>C37: a line that the first read brings without its newline loses its beginning. \<^verbatim>\<open>grep\<close>
  then matches and writes only what the next read brings, although the file has the line
  \<open>a @ b\<close>.
\<close>

theorem grep_drops_line_start:
  assumes "nl \<notin> set (a @ b)" and "NUL \<notin> set (a @ b)" and "a \<noteq> []" and "length a < 512" and "length b < 511"
    and "answers s = [Adata a, Adata (b @ [nl]), Adata []]"
  shows "\<exists>tr last. grep pat fd s = (URet last, s\<lparr>answers := [], calls := calls s @ tr\<rparr>) \<and>
    written_to 1 tr = (if match pat b then [b @ [nl]] else [])"
proof -
  have nn: "NUL \<noteq> nl" by code_simp
  obtain tr where step: "grep_step pat fd [] s =
      (URet (True, []), s\<lparr>answers := [Adata (b @ [nl]), Adata []], calls := calls s @ tr\<rparr>)"
    and tr: "written_to 1 tr = []"
    using grep_turn [of s a "[Adata (b @ [nl]), Adata []]" "[]" pat fd] assms
    by (auto simp: split_lines_none)
  let ?s = "s\<lparr>answers := [Adata (b @ [nl]), Adata []], calls := calls s @ tr\<rparr>"
  have "\<exists>tr last. uloop (grep_step pat fd) [] ?s =
      (URet last, ?s\<lparr>answers := [], calls := calls ?s @ tr\<rparr>) \<and>
    written_to 1 tr =
      map (\<lambda>l. l @ [nl]) (filter (match pat) (fst (split_lines [] (concat [b @ [nl]]))))"
    by (rule grep_chunks) (use assms nn in auto)
  then show ?thesis
    unfolding grep_def
    by (subst uloop_unfold [OF asks_grep_step])
      (use assms in \<open>auto simp: ubind_def step tr split_lines_append split_lines_none\<close>)
qed

theorem grep_drops_line_start_witness:
  "\<exists>tr last.
    grep ''ab'' 0 \<lparr>answers = [Adata ''a'', Adata (''b'' @ [nl]), Adata []], calls = []\<rparr> =
      (URet last, \<lparr>answers = [], calls = tr\<rparr>) \<and> written_to 1 tr = [] \<and> match ''ab'' ''ab''"
proof -
  have ne: "CHR ''a'' \<noteq> nl" "CHR ''b'' \<noteq> nl" "CHR ''a'' \<noteq> NUL" "CHR ''b'' \<noteq> NUL"
    by code_simp+
  have m: "\<not> match ''ab'' ''b''" "match ''ab'' ''ab''"
    by code_simp+
  show ?thesis
    using grep_drops_line_start [of "''a''" "''b''"
        "\<lparr>answers = [Adata ''a'', Adata (''b'' @ [nl]), Adata []], calls = []\<rparr>" "''ab''" 0]
    by (simp add: ne ne [symmetric] m)
qed

end
