(* ===== verification/Uprogs.thy ===== *)
theory Uprogs
  imports Ulib
begin

text \<open>
  The small user programs: \<^verbatim>\<open>cat.c\<close>, \<^verbatim>\<open>wc.c\<close>, \<^verbatim>\<open>echo.c\<close>, \<^verbatim>\<open>kill.c\<close>,
  \<^verbatim>\<open>ln.c\<close>, \<^verbatim>\<open>mkdir.c\<close>, \<^verbatim>\<open>rm.c\<close>, \<^verbatim>\<open>ls.c\<close>, \<^verbatim>\<open>init.c\<close>, \<^verbatim>\<open>zombie.c\<close>,
  and the two test programs that only drive the kernel, \<^verbatim>\<open>stressfs.c\<close> and
  \<^verbatim>\<open>forktest.c\<close>. A program is given its arguments, the name it was called by first.
\<close>

section \<open>cat\<close>

definition cat_step :: "int \<Rightarrow> string option \<Rightarrow> (bool \<times> string option) up" where
  "cat_step fd v =
     ubind (uread fd 512) (\<lambda>n. case n of
       Some (x # xs) \<Rightarrow>
         ubind (ucall (Swrite 1 (x # xs))) (\<lambda>w.
           if w \<noteq> int (length (x # xs)) then uthen (uprintf 1 (''cat: write error'' @ [nl]) []) uexit
           else uret (True, n))
     | _ \<Rightarrow> uret (False, n))"

definition cat :: "int \<Rightarrow> unit up" where
  "cat fd =
     ubind (uloop (cat_step fd) None) (\<lambda>n.
       if n = None then uthen (uprintf 1 (''cat: read error'' @ [nl]) []) uexit else uret ())"

fun cat_files :: "string list \<Rightarrow> unit up" where
  "cat_files [] = uexit"
| "cat_files (a # argv) =
     ubind (ucall (Sopen a 0)) (\<lambda>fd.
       if fd < 0 then uthen (uprintf 1 (''cat: cannot open %s'' @ [nl]) [UStr (Some a)]) uexit
       else uthen (cat fd) (uthen (udo (Sclose fd)) (cat_files argv)))"

definition cat_main :: "string list \<Rightarrow> unit up" where
  "cat_main argv = (if length argv \<le> 1 then uthen (cat 0) uexit else cat_files (tl argv))"

section \<open>wc\<close>

record wc_vars =
  wl :: cint
  ww :: cint
  wch :: cint
  inword :: bool

definition wc_space :: string where
  "wc_space = [CHR '' '', cr, tab, nl, vt]"

definition wc_char :: "wc_vars \<Rightarrow> char \<Rightarrow> wc_vars" where
  "wc_char v b =
     (let v = v\<lparr>wch := wch v + 1\<rparr>;
          v = (if b = nl then v\<lparr>wl := wl v + 1\<rparr> else v)
      in if strchr_str wc_space b then v\<lparr>inword := False\<rparr>
         else if \<not> inword v then v\<lparr>ww := ww v + 1, inword := True\<rparr> else v)"

definition wc_step :: "int \<Rightarrow> wc_vars \<times> string option \<Rightarrow> (bool \<times> wc_vars \<times> string option) up" where
  "wc_step fd = (\<lambda>(v, _).
     ubind (uread fd 512) (\<lambda>n. case n of
       Some (x # xs) \<Rightarrow> uret (True, foldl wc_char v (x # xs), n)
     | _ \<Rightarrow> uret (False, v, n)))"

definition wc :: "int \<Rightarrow> string \<Rightarrow> unit up" where
  "wc fd name =
     ubind (uloop (wc_step fd) (\<lparr>wl = 0, ww = 0, wch = 0, inword = False\<rparr>, None)) (\<lambda>(v, n).
       if n = None then uthen (uprintf 1 (''wc: read error'' @ [nl]) []) uexit
       else uprintf 1 (''%d %d %d %s'' @ [nl]) [UNum (wl v), UNum (ww v), UNum (wch v), UStr (Some name)])"

fun wc_files :: "string list \<Rightarrow> unit up" where
  "wc_files [] = uexit"
| "wc_files (a # argv) =
     ubind (ucall (Sopen a 0)) (\<lambda>fd.
       if fd < 0 then uthen (uprintf 1 (''wc: cannot open %s'' @ [nl]) [UStr (Some a)]) uexit
       else uthen (wc fd a) (uthen (udo (Sclose fd)) (wc_files argv)))"

definition wc_main :: "string list \<Rightarrow> unit up" where
  "wc_main argv = (if length argv \<le> 1 then uthen (wc 0 []) uexit else wc_files (tl argv))"

section \<open>echo, kill, ln, mkdir and rm\<close>

definition echo_main :: "string list \<Rightarrow> unit up" where
  "echo_main argv =
     uthen (ufor [1..<length argv] (\<lambda>i.
       uprintf 1 ''%s%s''
         [UStr (Some (argv ! i)), UStr (Some (if i + 1 < length argv then '' '' else [nl]))]))
     uexit"

definition kill_main :: "string list \<Rightarrow> unit up" where
  "kill_main argv =
     (if length argv < 2 then uthen (uprintf 2 (''usage: kill pid...'' @ [nl]) []) uexit
      else uthen (ufor (tl argv) (\<lambda>a. udo (Skill (sint (atoi a)) (int SIGKILL)))) uexit)"

definition ln_main :: "string list \<Rightarrow> unit up" where
  "ln_main argv =
     (if length argv \<noteq> 3 then uthen (uprintf 2 (''Usage: ln old new'' @ [nl]) []) uexit
      else ubind (ucall (Slink (argv ! 1) (argv ! 2))) (\<lambda>r.
        uthen (if r < 0 then uprintf 2 (''link %s %s: failed'' @ [nl])
                  [UStr (Some (argv ! 1)), UStr (Some (argv ! 2))]
               else uret ())
          uexit))"

fun mkdir_files :: "string list \<Rightarrow> unit up" where
  "mkdir_files [] = uexit"
| "mkdir_files (a # argv) =
     ubind (ucall (Smkdir a)) (\<lambda>r.
       if r < 0 then uthen (uprintf 2 (''mkdir: %s failed to create'' @ [nl]) [UStr (Some a)]) uexit
       else mkdir_files argv)"

definition mkdir_main :: "string list \<Rightarrow> unit up" where
  "mkdir_main argv =
     (if length argv < 2 then uthen (uprintf 2 (''Usage: mkdir files...'' @ [nl]) []) uexit
      else mkdir_files (tl argv))"

fun rm_files :: "string list \<Rightarrow> unit up" where
  "rm_files [] = uexit"
| "rm_files (a # argv) =
     ubind (ucall (Sunlink a)) (\<lambda>r.
       if r < 0 then uthen (uprintf 2 (''rm: %s failed to delete'' @ [nl]) [UStr (Some a)]) uexit
       else rm_files argv)"

definition rm_main :: "string list \<Rightarrow> unit up" where
  "rm_main argv =
     (if length argv < 2 then uthen (uprintf 2 (''Usage: rm files...'' @ [nl]) []) uexit
      else rm_files (tl argv))"

section \<open>ls\<close>

text \<open>
  \<^verbatim>\<open>fmtname\<close>: the last element of the path, padded with blanks in a static buffer of
  \<^verbatim>\<open>DIRSIZ + 1\<close> bytes whose last byte stays zero.
\<close>

definition fmtname :: "string \<Rightarrow> string" where
  "fmtname path =
     (let p = rev (takeWhile (\<lambda>c. c \<noteq> CHR ''/'') (rev path)) in
      if length p \<ge> 14 then p else p @ replicate (14 - length p) (CHR '' ''))"

definition ls_line :: "string \<Rightarrow> ustat \<Rightarrow> unit up" where
  "ls_line name st =
     uprintf 1 (''%s %d %d %d'' @ [nl])
       [UStr (Some (fmtname name)), UNum (of_int (ust_type st)), UNum (of_int (ust_ino st)),
        UNum (of_int (ust_size st))]"

text \<open>One turn of the loop over the directory: \<^verbatim>\<open>struct dirent\<close> is 16 bytes, the first two the inode number.\<close>

definition ls_entry :: "string \<Rightarrow> int \<Rightarrow> unit \<Rightarrow> (bool \<times> unit) up" where
  "ls_entry path fd v =
     ubind (uread fd 16) (\<lambda>n. case n of
       None \<Rightarrow> uret (False, ())
     | Some de \<Rightarrow>
         if length de \<noteq> 16 then uret (False, ())
         else if de ! 0 = NUL \<and> de ! 1 = NUL then uret (True, ())
         else
           let buf = path @ ''/'' @ takeWhile (\<lambda>c. c \<noteq> NUL) (drop 2 de) in
           ubind (ustat_of buf) (\<lambda>r. case r of
             None \<Rightarrow> uthen (uprintf 1 (''ls: cannot stat %s'' @ [nl]) [UStr (Some buf)]) (uret (True, ()))
           | Some st \<Rightarrow> uthen (ls_line buf st) (uret (True, ()))))"

definition ls :: "string \<Rightarrow> unit up" where
  "ls path =
     ubind (ucall (Sopen path 0)) (\<lambda>fd.
       if fd < 0 then uprintf 2 (''ls: cannot open %s'' @ [nl]) [UStr (Some path)]
       else ubind (ufstat fd) (\<lambda>r. case r of
         None \<Rightarrow>
           uthen (uprintf 2 (''ls: cannot stat %s'' @ [nl]) [UStr (Some path)]) (udo (Sclose fd))
       | Some st \<Rightarrow>
           uthen
             (if ust_type st = 2 then ls_line path st
              else if ust_type st = 1 then
                if length path + 1 + 14 + 1 > 512 then uprintf 1 (''ls: path too long'' @ [nl]) []
                else uloop (ls_entry path fd) ()
              else uret ())
             (udo (Sclose fd))))"

definition ls_main :: "string list \<Rightarrow> unit up" where
  "ls_main argv =
     (if length argv < 2 then uthen (ls ''.'') uexit else uthen (ufor (tl argv) ls) uexit)"

section \<open>init and zombie\<close>

definition init_wait :: "int \<Rightarrow> unit \<Rightarrow> (bool \<times> unit) up" where
  "init_wait pid v =
     ubind (ucall Swait) (\<lambda>wpid.
       if wpid \<ge> 0 \<and> wpid \<noteq> pid then uthen (uprintf 1 (''zombie!'' @ [nl]) []) (uret (True, ()))
       else uret (False, ()))"

definition init_turn :: "unit \<Rightarrow> (bool \<times> unit) up" where
  "init_turn v =
     uthen (uprintf 1 (''init: starting sh'' @ [nl]) [])
     (ubind (ucall Sfork) (\<lambda>pid.
        if pid < 0 then uthen (uprintf 1 (''init: fork failed'' @ [nl]) []) uexit
        else if pid = 0 then
          uthen (uask (Sexec ''sh'' [''sh'']))
            (uthen (uprintf 1 (''init: exec sh failed'' @ [nl]) []) uexit)
        else uthen (uloop (init_wait pid) ()) (uret (True, ()))))"

definition init_main :: "unit up" where
  "init_main =
     ubind (ucall (Sopen ''console'' 2)) (\<lambda>fd.
       uthen (if fd < 0 then uthen (udo (Smknod ''console'' 1 1)) (udo (Sopen ''console'' 2)) else uret ())
       (uthen (udo (Sdup 0)) (uthen (udo (Sdup 0)) (uloop init_turn ()))))"

definition zombie_main :: "unit up" where
  "zombie_main =
     ubind (ucall Sfork) (\<lambda>pid. uthen (if pid > 0 then udo (Ssleep 5) else uret ()) uexit)"

section \<open>stressfs and forktest\<close>

fun stressfs_fork :: "nat list \<Rightarrow> nat \<Rightarrow> nat up" where
  "stressfs_fork [] i = uret i"
| "stressfs_fork (_ # is) i =
     ubind (ucall Sfork) (\<lambda>pid. if pid > 0 then uret i else stressfs_fork is (Suc i))"

definition stressfs_main :: "unit up" where
  "stressfs_main =
     uthen (uprintf 1 (''stressfs starting'' @ [nl]) [])
     (ubind (stressfs_fork [0..<4] 0) (\<lambda>i.
        let path = ''stressfs'' @ [char_of (48 + i)]; data = replicate 512 (CHR ''a'') in
        uthen (uprintf 1 (''write %d'' @ [nl]) [UNum (of_nat i)])
        (ubind (ucall (Sopen path 514)) (\<lambda>fd.
           uthen (ufor [0..<20] (\<lambda>_. udo (Swrite fd data)))
           (uthen (udo (Sclose fd))
           (uthen (uprintf 1 (''read'' @ [nl]) [])
           (ubind (ucall (Sopen path 0)) (\<lambda>fd.
              uthen (ufor [0..<20] (\<lambda>_. udo (Sread fd 512)))
              (uthen (udo (Sclose fd)) (uthen (udo Swait) uexit))))))))))"

text \<open>\<^verbatim>\<open>forktest\<close> has a \<^verbatim>\<open>printf\<close> of its own that writes the format as it is.\<close>

definition forktest_printf :: "int \<Rightarrow> string \<Rightarrow> unit up" where
  "forktest_printf fd t = udo (Swrite fd t)"

fun forktest_fork :: "nat \<Rightarrow> nat \<Rightarrow> nat up" where
  "forktest_fork 0 n = uret n"
| "forktest_fork (Suc k) n =
     ubind (ucall Sfork) (\<lambda>pid.
       if pid < 0 then uret n else if pid = 0 then uexit else forktest_fork k (Suc n))"

fun forktest_wait :: "nat \<Rightarrow> unit up" where
  "forktest_wait 0 = uret ()"
| "forktest_wait (Suc n) =
     ubind (ucall Swait) (\<lambda>r.
       if r < 0 then uthen (forktest_printf 1 (''wait stopped early'' @ [nl])) uexit
       else forktest_wait n)"

definition forktest :: "unit up" where
  "forktest =
     uthen (forktest_printf 1 (''fork test'' @ [nl]))
     (ubind (forktest_fork 1000 0) (\<lambda>n.
        if n = 1000 then
          uthen (forktest_printf 1 (''fork claimed to work N times!'' @ [nl])) uexit
        else uthen (forktest_wait n)
          (ubind (ucall Swait) (\<lambda>r.
             if r \<noteq> -1 then uthen (forktest_printf 1 (''wait got too many'' @ [nl])) uexit
             else forktest_printf 1 (''fork test OK'' @ [nl])))))"

definition forktest_main :: "unit up" where
  "forktest_main = uthen forktest uexit"

section \<open>What wc counts\<close>

definition wc_blank :: "char \<Rightarrow> bool" where
  "wc_blank c \<longleftrightarrow> c \<in> set wc_space"

definition word_starts :: "string \<Rightarrow> nat set" where
  "word_starts xs = {i. i < length xs \<and> \<not> wc_blank (xs ! i) \<and> (i = 0 \<or> wc_blank (xs ! (i - 1)))}"

lemma word_starts_code [code]:
  "word_starts xs = set (filter (\<lambda>i. \<not> wc_blank (xs ! i) \<and> (i = 0 \<or> wc_blank (xs ! (i - 1)))) [0..<length xs])"
  by (auto simp: word_starts_def)

lemma finite_word_starts [simp]: "finite (word_starts xs)"
  by (simp add: word_starts_def)

lemma word_starts_snoc:
  "word_starts (xs @ [c]) =
    (if \<not> wc_blank c \<and> (xs = [] \<or> wc_blank (last xs)) then insert (length xs) (word_starts xs)
     else word_starts xs)"
  by (cases "xs = []") (auto simp: word_starts_def nth_append last_conv_nth less_Suc_eq)

lemma card_word_starts_snoc:
  "card (word_starts (xs @ [c])) =
    card (word_starts xs) + (if \<not> wc_blank c \<and> (xs = [] \<or> wc_blank (last xs)) then 1 else 0)"
proof -
  have "length xs \<notin> word_starts xs" by (simp add: word_starts_def)
  then show ?thesis by (simp add: word_starts_snoc)
qed

lemma wc_chars:
  "foldl wc_char \<lparr>wl = 0, ww = 0, wch = 0, inword = False\<rparr> xs =
    \<lparr>wl = of_nat (count_list xs nl), ww = of_nat (card (word_starts xs)), wch = of_nat (length xs),
     inword = (xs \<noteq> [] \<and> \<not> wc_blank (last xs))\<rparr>"
proof (induction xs rule: rev_induct)
  case Nil
  then show ?case by (simp add: word_starts_def)
next
  case (snoc c xs)
  have "wc_blank nl" by (simp add: wc_blank_def wc_space_def)
  then show ?case
    unfolding foldl_append foldl.simps snoc
    by (auto simp: wc_char_def Let_def strchr_str_iff card_word_starts_snoc simp flip: wc_blank_def)
qed

lemma asks_wc_step: "asks (wc_step fd)"
  by (auto simp: asks_def wc_step_def uread_def uask_def ubind_def uret_def
      split: list.splits sysans.splits option.splits if_splits)

lemma wc_chunks:
  assumes "\<forall>x \<in> set chunks. x \<noteq> [] \<and> length x \<le> 512"
    and "answers s = map Adata chunks @ Adata [] # as"
  shows "uloop (wc_step fd) (v, n) s =
    (URet (foldl wc_char v (concat chunks), Some []),
     s\<lparr>answers := as, calls := calls s @ replicate (Suc (length chunks)) (Sread fd 512)\<rparr>)"
  using assms
proof (induction chunks arbitrary: s v n)
  case Nil
  then show ?case
    by (subst uloop_unfold [OF asks_wc_step])
      (simp add: wc_step_def uread_def uask_def ubind_def uret_def)
next
  case (Cons x chunks)
  let ?s = "s\<lparr>answers := map Adata chunks @ Adata [] # as, calls := calls s @ [Sread fd 512]\<rparr>"
  have "wc_step fd (v, n) s = (URet (True, foldl wc_char v x, Some x), ?s)"
    using Cons.prems by (cases x) (simp_all add: wc_step_def uread_def uask_def ubind_def uret_def)
  moreover have "uloop (wc_step fd) (foldl wc_char v x, Some x) ?s =
    (URet (foldl wc_char (foldl wc_char v x) (concat chunks), Some []),
     ?s\<lparr>answers := as, calls := calls ?s @ replicate (Suc (length chunks)) (Sread fd 512)\<rparr>)"
    by (rule Cons.IH) (use Cons.prems in simp_all)
  ultimately show ?case
    by (subst uloop_unfold [OF asks_wc_step]) (simp add: ubind_def)
qed

definition udec :: "nat \<Rightarrow> string" where
  "udec n = rev (uprintint_buf (of_nat n) 10 True)"

text \<open>C38: \<^verbatim>\<open>wc\<close> prints the number of newlines, of words and of bytes of the file, wherever the
  reads cut it. A word starts at a character that is no white space and has white space or
  nothing before it.
\<close>

theorem wc_counts:
  assumes "\<forall>x \<in> set chunks. x \<noteq> [] \<and> length x \<le> 512"
    and "answers s = map Adata chunks @ Adata [] # as"
    and "xs = concat chunks"
  shows "wc fd name s = (URet (), s\<lparr>answers := as, calls := calls s @
      replicate (Suc (length chunks)) (Sread fd 512) @
      chars_to 1 (udec (count_list xs nl) @ '' '' @ udec (card (word_starts xs)) @ '' '' @
        udec (length xs) @ '' '' @ name @ [nl])\<rparr>)"
proof -
  let ?v = "foldl wc_char \<lparr>wl = 0, ww = 0, wch = 0, inword = False\<rparr> xs"
  have "fmt_text False (''%d %d %d %s'' @ [nl]) [UNum (wl ?v), UNum (ww ?v), UNum (wch ?v), UStr (Some name)] =
      Some (udec (count_list xs nl) @ '' '' @ udec (card (word_starts xs)) @ '' '' @
        udec (length xs) @ '' '' @ name @ [nl])"
    by (simp add: wc_chars udec_def str_arg_def nl_def)
  from uprintf_puts [OF this, of 1]
  show ?thesis
    unfolding wc_def using wc_chunks [OF assms(1,2), of fd] assms(3)
    by (simp add: ubind_def puts_def)
qed

theorem wc_counts_witness:
  "wc 3 ''f'' \<lparr>answers = [Adata ''ab'', Adata (''c d'' @ [nl]), Adata []], calls = []\<rparr> =
    (URet (), \<lparr>answers = [], calls = replicate 3 (Sread 3 512) @ chars_to 1 (''1 2 6 f'' @ [nl])\<rparr>)"
proof -
  have 1: "count_list (''abc d'' @ [nl]) nl = 1" by code_simp
  have 2: "card (word_starts (''abc d'' @ [nl])) = 2" by code_simp
  have 3: "udec 1 = ''1''" "udec 2 = ''2''" "udec 6 = ''6''"
    by code_simp+
  show ?thesis
    using wc_counts [of "[''ab'', ''c d'' @ [nl]]" "\<lparr>answers = [Adata ''ab'', Adata (''c d'' @ [nl]), Adata []], calls = []\<rparr>"
        "[]" "''abc d'' @ [nl]" 3 "''f''"] 1 2 3
    by (simp add: numeral_eq_Suc)
qed

section \<open>The loops of the programs ask in every turn\<close>

lemma asks_cat_step: "asks (cat_step fd)"
  unfolding cat_step_def
  by (rule asks_takes, rule takes_bind [OF takes_uread])
    (auto intro!: takes_intros takes_bind split: option.splits list.splits)

lemma asks_ls_entry: "asks (ls_entry path fd)"
  unfolding ls_entry_def ls_line_def Let_def
  by (rule asks_takes, rule takes_bind [OF takes_uread])
    (auto intro!: takes_intros takes_bind split: option.splits)

lemma asks_init_wait: "asks (init_wait pid)"
  unfolding init_wait_def
  by (rule asks_takes, rule takes_bind [OF takes_ucall]) (auto intro!: takes_intros)

lemma asks_init_turn: "asks init_turn"
proof -
  have w: "takes 0 (init_wait pid v)" for pid v
    unfolding init_wait_def by (auto intro!: takes_intros takes_bind)
  show ?thesis
    unfolding init_turn_def
    by (rule asks_takes, rule takes_then_late [OF takes_uprintf], rule takes_bind [OF takes_ucall])
      (auto intro!: takes_intros w)
qed

end
