(* ===== verification/Spec2Isabelle.thy ===== *)
theory Spec2Isabelle
  imports Boot Ide Sched_Steps Sigframe Journal Sh Grep Uprogs
begin

text \<open>
  A model of the xv6 kernel with signals.
\<close>

end
